(* ===== verification/Dousi_Prelude.thy ===== *)
theory Dousi_Prelude
  imports Main "HOL-Library.Word"
begin

text \<open>
  What the components share: the machine integers of the C++ code, the faults an operation
  can end in, the result type that carries them, the polling loop the code writes twice
  (\<^verbatim>\<open>BoostLockFreeQueue::WaitAndPop\<close>, \<^verbatim>\<open>Submitter::GetObject\<close>), and the generic lemmas and
  fact collections the component theories use.
\<close>

section \<open>Integers, bytes and faults\<close>

type_synonym byte = "8 word"
type_synonym bytes = "8 word list"
type_synonym u16 = "16 word"
type_synonym u32 = "32 word"
type_synonym u64 = "64 word"

text \<open>
  The exceptions of the standard library and of the libraries the code calls, and the other
  ways in which a C++ operation fails to produce a value (undefined behaviour that the code
  reaches when a precondition is broken).
\<close>

datatype cpp_exn =
    Invalid_argument
  | Out_of_range
  | Bad_function_call
  | Msgpack_error
  | System_error
  | User_exception

datatype fault =
    Throws cpp_exn
  | Null_deref
  | Dangling_pointer
  | Out_of_bounds
  | Assert_failed
  | Signed_overflow
  | Invalid_reference
  | Invalid_memory_order

type_synonym 'a res = "fault + 'a"

fun res_bind :: "'a res \<Rightarrow> ('a \<Rightarrow> 'b res) \<Rightarrow> 'b res" where
  "res_bind (Inl e) f = Inl e"
| "res_bind (Inr x) f = f x"

lemma res_bind_Inr_iff: "res_bind m f = Inr y \<longleftrightarrow> (\<exists>x. m = Inr x \<and> f x = Inr y)"
  by (cases m) auto

lemma Inr_res_bind_iff: "Inr y = res_bind m f \<longleftrightarrow> (\<exists>x. m = Inr x \<and> f x = Inr y)"
  by (cases m) auto

lemma res_bind_Inl_iff:
  "res_bind m f = Inl e \<longleftrightarrow> m = Inl e \<or> (\<exists>x. m = Inr x \<and> f x = Inl e)"
  by (cases m) auto

lemma res_bind_Inr_right: "res_bind m Inr = m"
  by (cases m) auto

lemma res_bind_assoc: "res_bind (res_bind m f) g = res_bind m (\<lambda>x. res_bind (f x) g)"
  by (cases m) auto

section \<open>Fact collections\<close>

named_theorems conv_simps \<open>conversions between the widths of machine integers\<close>
named_theorems inv_intros \<open>preservation of the components' invariants\<close>

lemma unat_u16_bound: "unat (x :: u16) < 65536"
  by (rule order_less_le_trans [OF unsigned_less]) simp

lemma unat_u32_bound: "unat (x :: u32) < 2 ^ 32"
  by (rule order_less_le_trans [OF unsigned_less]) simp

lemma unat_u64_bound: "unat (x :: u64) < 2 ^ 64"
  by (rule order_less_le_trans [OF unsigned_less]) simp

lemma unat_ucast_u64_u32 [conv_simps]:
  "unat (ucast (x :: u64) :: u32) = unat x mod 2 ^ 32"
  by transfer (simp add: nat_take_bit_eq take_bit_eq_mod nat_mod_distrib)

lemma unat_ucast_u32_u64 [conv_simps]:
  "unat (ucast (x :: u32) :: u64) = unat x"
  by transfer (simp add: nat_take_bit_eq take_bit_eq_mod nat_mod_distrib)

lemma unat_of_nat_u32 [conv_simps]: "unat (of_nat n :: u32) = n mod 2 ^ 32"
  by (simp add: unat_of_nat)

lemma unat_of_nat_u64 [conv_simps]: "unat (of_nat n :: u64) = n mod 2 ^ 64"
  by (simp add: unat_of_nat)

lemma ucast_u64_roundtrip_iff:
  "ucast (ucast (x :: u64) :: u32) = x \<longleftrightarrow> unat x < 2 ^ 32"
proof -
  have "ucast (ucast x :: u32) = x \<longleftrightarrow> unat (ucast (ucast x :: u32) :: u64) = unat x"
    by (simp only: word_unat_eq_iff)
  also have "\<dots> \<longleftrightarrow> unat x mod 2 ^ 32 = unat x"
    by (simp only: conv_simps)
  also have "\<dots> \<longleftrightarrow> unat x < 2 ^ 32"
    by (metis mod_less mod_less_divisor zero_less_numeral zero_less_power)
  finally show ?thesis .
qed

section \<open>Polling loops\<close>

text \<open>
  \<^verbatim>\<open>while (true) { if (found) break; sleep; }\<close> over a state other threads write. The
  parameter \<open>others\<close> is what they do to it during the i-th sleep. \<open>None\<close> is a loop that
  never ends.
\<close>

partial_function (option) poll ::
  "('s \<Rightarrow> 'a option) \<Rightarrow> (nat \<Rightarrow> 's \<Rightarrow> 's) \<Rightarrow> nat \<Rightarrow> 's \<Rightarrow> 'a option" where
  "poll look others i s =
     (case look s of Some x \<Rightarrow> Some x | None \<Rightarrow> poll look others (Suc i) (others i s))"

text \<open>The state at the start of the k-th round of a loop that has found nothing yet.\<close>

fun poll_state :: "(nat \<Rightarrow> 's \<Rightarrow> 's) \<Rightarrow> nat \<Rightarrow> nat \<Rightarrow> 's \<Rightarrow> 's" where
  "poll_state others i 0 s = s"
| "poll_state others i (Suc k) s = poll_state others (Suc i) k (others i s)"

lemma poll_now: "look s = Some x \<Longrightarrow> poll look others i s = Some x"
  by (simp add: poll.simps)

lemma poll_wait:
  "look s = None \<Longrightarrow> poll look others i s = poll look others (Suc i) (others i s)"
  by (simp add: poll.simps)

lemma poll_found:
  assumes "\<And>j. j < k \<Longrightarrow> look (poll_state others i j s) = None"
    and "look (poll_state others i k s) = Some x"
  shows "poll look others i s = Some x"
  using assms
proof (induction k arbitrary: i s)
  case 0
  then show ?case by (simp add: poll_now)
next
  case (Suc k)
  have "look s = None"
    using Suc.prems(1) [of 0] by simp
  moreover have "poll look others (Suc i) (others i s) = Some x"
  proof (rule Suc.IH)
    show "look (poll_state others (Suc i) j (others i s)) = None" if "j < k" for j
      using Suc.prems(1) [of "Suc j"] that by simp
    show "look (poll_state others (Suc i) k (others i s)) = Some x"
      using Suc.prems(2) by simp
  qed
  ultimately show ?case by (simp add: poll_wait)
qed

lemma poll_returned:
  fixes look :: "'s \<Rightarrow> 'a option"
  assumes "poll look others i s = Some x"
  shows "\<exists>k. look (poll_state others i k s) = Some x"
proof (rule poll.raw_induct
    [where P = "\<lambda>look others i s x. \<exists>k. look (poll_state others i k s) = Some x", OF _ assms])
  fix f and look :: "'s \<Rightarrow> 'a option" and others i s x
  assume IH: "\<And>look others i s x. f look others i s = Some x \<Longrightarrow>
      \<exists>k. look (poll_state others i k s) = Some x"
    and eq: "(case look s of None \<Rightarrow> f look others (Suc i) (others i s) | Some x \<Rightarrow> Some x) = Some x"
  show "\<exists>k. look (poll_state others i k s) = Some x"
  proof (cases "look s")
    case None
    with eq have "f look others (Suc i) (others i s) = Some x" by simp
    from IH [OF this] obtain k where "look (poll_state others (Suc i) k (others i s)) = Some x" ..
    then have "look (poll_state others i (Suc k) s) = Some x" by simp
    then show ?thesis ..
  next
    case (Some y)
    with eq have "look (poll_state others i 0 s) = Some x" by simp
    then show ?thesis ..
  qed
qed

lemma poll_never:
  assumes "\<And>k. look (poll_state others i k s) = None"
  shows "poll look others i s = None"
proof (cases "poll look others i s")
  case (Some x)
  from poll_returned [OF this] obtain k where "look (poll_state others i k s) = Some x" ..
  with assms [of k] show ?thesis by simp
qed simp

end
