(* ===== verification/Endpoint.thy ===== *)
theory Endpoint
  imports Dousi_Prelude
begin

text \<open>
  \<^verbatim>\<open>common/endpoint.h\<close> and \<^verbatim>\<open>common/endpoint.cc\<close>: an address \<^verbatim>\<open>host:port\<close>, its parser, its
  printer and the TCP endpoint made of it, over the parts of \<^verbatim>\<open>std::string\<close> and \<^verbatim>\<open>std::stoi\<close>
  the parser uses. The lemmas give the parser on every shape of address, its round trip with
  the printer, and the wrap-around of the port.
\<close>

section \<open>The standard library's part\<close>

definition npos :: nat where
  "npos = 2 ^ 64 - 1"

fun find_from :: "char \<Rightarrow> nat \<Rightarrow> string \<Rightarrow> nat" where
  "find_from c i [] = npos"
| "find_from c i (x # xs) = (if x = c then i else find_from c (Suc i) xs)"

definition str_find :: "string \<Rightarrow> char \<Rightarrow> nat" where
  "str_find s c = find_from c 0 s"

definition substr :: "string \<Rightarrow> nat \<Rightarrow> nat \<Rightarrow> string res" where
  "substr s pos n = (if length s < pos then Inl (Throws Out_of_range) else Inr (take n (drop pos s)))"

definition is_space :: "char \<Rightarrow> bool" where
  "is_space c = (c \<in> set [CHR '' '', CHR 0x09, CHR 0x0A, CHR 0x0B, CHR 0x0C, CHR 0x0D])"

definition is_digit :: "char \<Rightarrow> bool" where
  "is_digit c = (48 \<le> (of_char c :: nat) \<and> (of_char c :: nat) \<le> 57)"

definition digit_val :: "char \<Rightarrow> int" where
  "digit_val c = of_char c - 48"

definition digits_val :: "string \<Rightarrow> int" where
  "digits_val ds = foldl (\<lambda>a d. 10 * a + digit_val d) 0 ds"

definition stoi :: "string \<Rightarrow> int res" where
  "stoi s =
     (let t = dropWhile is_space s;
          neg = (t \<noteq> [] \<and> hd t = CHR ''-'');
          signed = (t \<noteq> [] \<and> (hd t = CHR ''-'' \<or> hd t = CHR ''+''));
          ds = takeWhile is_digit (if signed then tl t else t);
          n = (if neg then - digits_val ds else digits_val ds)
      in if ds = [] then Inl (Throws Invalid_argument)
         else if n < - (2 ^ 31) \<or> 2 ^ 31 - 1 < n then Inl (Throws Out_of_range)
         else Inr n)"

definition digit_char :: "nat \<Rightarrow> char" where
  "digit_char d = char_of (d + 48)"

fun to_string :: "nat \<Rightarrow> string" where
  "to_string n = (if n < 10 then [digit_char n] else to_string (n div 10) @ [digit_char (n mod 10)])"

declare to_string.simps [simp del]

section \<open>The endpoint\<close>

record endpoint =
  host :: string
  port :: u16

definition Endpoint_of_address :: "string \<Rightarrow> endpoint res" where
  "Endpoint_of_address address =
     (let index = str_find address (CHR '':'')
      in res_bind (substr address 0 index) (\<lambda>h.
         res_bind (substr address ((index + 1) mod 2 ^ 64) (length address)) (\<lambda>digits.
         res_bind (stoi digits) (\<lambda>p.
         Inr \<lparr>host = h, port = word_of_int p\<rparr>))))"

text \<open>
  The other constructors. \<open>left\<close> is what the library leaves of the string that is moved from.
\<close>

definition Endpoint_of_parts :: "string \<Rightarrow> u16 \<Rightarrow> endpoint" where
  "Endpoint_of_parts h p = \<lparr>host = h, port = p\<rparr>"

definition Endpoint_copy :: "endpoint \<Rightarrow> endpoint" where
  "Endpoint_copy other = \<lparr>host = host other, port = port other\<rparr>"

definition Endpoint_move :: "string \<Rightarrow> endpoint \<Rightarrow> endpoint \<times> endpoint" where
  "Endpoint_move left other = (\<lparr>host = host other, port = port other\<rparr>, other\<lparr>host := left\<rparr>)"

definition GetHost :: "endpoint \<Rightarrow> string" where
  "GetHost e = host e"

definition GetPort :: "endpoint \<Rightarrow> u16" where
  "GetPort e = port e"

definition ToString :: "endpoint \<Rightarrow> string" where
  "ToString e = host e @ '':'' @ to_string (unat (port e))"

datatype tcp_address = Any_v4

definition GetTcpEndpoint :: "endpoint \<Rightarrow> tcp_address \<times> u16" where
  "GetTcpEndpoint e = (Any_v4, port e)"

definition Resolve :: "(string \<Rightarrow> string \<Rightarrow> 'r) \<Rightarrow> endpoint \<Rightarrow> 'r" where
  "Resolve resolver e = resolver (GetHost e) (to_string (unat (GetPort e)))"

section \<open>Facts about the standard library's part\<close>

lemma find_from_absent: "c \<notin> set s \<Longrightarrow> find_from c i s = npos"
  by (induction s arbitrary: i) auto

lemma find_from_present: "c \<notin> set s \<Longrightarrow> find_from c i (s @ c # t) = i + length s"
  by (induction s arbitrary: i) auto

lemma str_find_present [simp]: "c \<notin> set s \<Longrightarrow> str_find (s @ c # t) c = length s"
  by (simp add: str_find_def find_from_present)

lemma str_find_absent [simp]: "c \<notin> set s \<Longrightarrow> str_find s c = npos"
  by (simp add: str_find_def find_from_absent)

lemma of_char_digit_char: "d < 10 \<Longrightarrow> of_char (digit_char d) = (d + 48 :: nat)"
  by (simp add: digit_char_def)

lemma is_digit_digit_char [simp]: "d < 10 \<Longrightarrow> is_digit (digit_char d)"
  by (simp add: is_digit_def of_char_digit_char)

lemma digit_val_digit_char [simp]: "d < 10 \<Longrightarrow> digit_val (digit_char d) = int d"
  using of_char_digit_char [of d, THEN arg_cong, of int]
  by (simp add: digit_val_def del: of_nat_of_char flip: of_nat_of_char [where 'a = int])

lemma digits_val_snoc: "digits_val (ds @ [d]) = 10 * digits_val ds + digit_val d"
  by (simp add: digits_val_def)

lemma to_string_digits: "\<forall>c \<in> set (to_string n). is_digit c"
proof (induction n rule: to_string.induct)
  case (1 n)
  then show ?case by (cases "n < 10") (auto simp: to_string.simps [of n])
qed

lemma to_string_nonempty [simp]: "to_string n \<noteq> []"
  by (simp add: to_string.simps [of n])

lemma digits_val_to_string [simp]: "digits_val (to_string n) = int n"
proof (induction n rule: to_string.induct)
  case (1 n)
  show ?case
  proof (cases "n < 10")
    case True
    then show ?thesis by (simp add: to_string.simps [of n] digits_val_def)
  next
    case False
    with 1 have "digits_val (to_string n) = 10 * int (n div 10) + int (n mod 10)"
      by (simp add: to_string.simps [of n] digits_val_snoc)
    moreover have "10 * int (n div 10) + int (n mod 10) = int n"
      by (simp add: zdiv_int zmod_int)
    ultimately show ?thesis by simp
  qed
qed

lemma is_digit_not_special:
  "is_digit c \<Longrightarrow> \<not> is_space c \<and> c \<noteq> CHR ''-'' \<and> c \<noteq> CHR ''+'' \<and> c \<noteq> CHR '':''"
  by (auto simp: is_digit_def is_space_def)

text \<open>\<^verbatim>\<open>stoi\<close> on digits followed by anything that does not start with a digit.\<close>

lemma stoi_digits:
  assumes "ds \<noteq> []" and "\<forall>c \<in> set ds. is_digit c"
    and "rest = [] \<or> \<not> is_digit (hd rest)"
  shows "stoi (ds @ rest) =
    (if digits_val ds < - (2 ^ 31) \<or> 2 ^ 31 - 1 < digits_val ds
     then Inl (Throws Out_of_range) else Inr (digits_val ds))"
proof -
  obtain d ds' where ds: "ds = d # ds'"
    using assms(1) by (cases ds) auto
  have d: "\<not> is_space d" "d \<noteq> CHR ''-''" "d \<noteq> CHR ''+''"
    using assms(2) ds is_digit_not_special by auto
  have "takeWhile is_digit rest = []"
    using assms(3) by (cases rest) auto
  then have tw: "takeWhile is_digit (ds @ rest) = ds"
    using assms(2) by simp
  have dw: "dropWhile is_space (ds @ rest) = ds @ rest"
    using d ds by simp
  show ?thesis
    unfolding stoi_def Let_def dw using d ds tw by simp
qed

lemma stoi_to_string:
  "stoi (to_string n) = (if n < 2 ^ 31 then Inr (int n) else Inl (Throws Out_of_range))"
proof -
  have "stoi (to_string n @ []) =
    (if int n < - (2 ^ 31) \<or> 2 ^ 31 - 1 < int n then Inl (Throws Out_of_range) else Inr (int n))"
    using stoi_digits [of "to_string n" "[]"] to_string_digits by simp
  then show ?thesis by auto
qed

section \<open>The parser on every shape of address\<close>

lemma substr_prefix [simp]: "substr (h @ t) 0 (length h) = Inr h"
  by (simp add: substr_def)

lemma substr_after_colon [simp]:
  "substr (h @ CHR '':'' # t) (Suc (length h)) (length (h @ CHR '':'' # t)) = Inr t"
  by (simp add: substr_def)

lemma Endpoint_of_address_colon:
  assumes "CHR '':'' \<notin> set h" and "length h < npos"
  shows "Endpoint_of_address (h @ CHR '':'' # t) =
    res_bind (stoi t) (\<lambda>p. Inr \<lparr>host = h, port = word_of_int p\<rparr>)"
proof -
  have "(length h + 1) mod 2 ^ 64 = Suc (length h)"
    using assms(2) by (simp add: npos_def)
  moreover have "str_find (h @ CHR '':'' # t) (CHR '':'') = length h"
    using assms(1) by simp
  ultimately show ?thesis
    unfolding Endpoint_of_address_def Let_def
    by (simp only: substr_prefix substr_after_colon res_bind.simps)
qed

lemma stoi_no_digit:
  assumes "t = [] \<or> \<not> is_digit (hd t) \<and> \<not> is_space (hd t) \<and> hd t \<noteq> CHR ''-'' \<and> hd t \<noteq> CHR ''+''"
  shows "stoi t = Inl (Throws Invalid_argument)"
proof (cases t)
  case Nil
  then show ?thesis by (simp add: stoi_def)
next
  case (Cons c cs)
  with assms show ?thesis by (simp add: stoi_def)
qed

text \<open>
  An address made of a host without a colon, a colon and the decimal digits of n is
  parsed to that host and to the port n taken modulo 65536 when n fits an int, and the
  constructor throws \<^verbatim>\<open>std::out_of_range\<close> when it does not: a port above 65535 is never refused,
  it is silently wrapped.
\<close>

theorem endpoint_port_wraps:
  assumes "CHR '':'' \<notin> set h" and "length h < npos"
  shows "Endpoint_of_address (h @ '':'' @ to_string n) =
    (if n < 2 ^ 31 then Inr \<lparr>host = h, port = of_nat n\<rparr> else Inl (Throws Out_of_range))
    \<and> unat (of_nat n :: u16) = n mod 65536"
  using Endpoint_of_address_colon [OF assms, of "to_string n"]
  by (simp add: stoi_to_string unat_of_nat)

text \<open>The master address of the README, \<^verbatim>\<open>127.0.0.1:100001\<close>, denotes port 34465.\<close>

theorem endpoint_port_wraps_witness:
  "Endpoint_of_address ''127.0.0.1:100001'' = Inr \<lparr>host = ''127.0.0.1'', port = 34465\<rparr>"
proof -
  have digits: "to_string 100001 = ''100001''"
    by (simp add: to_string.simps digit_char_def char_of_def bit_0)
  show ?thesis
    using endpoint_port_wraps [of "''127.0.0.1''" 100001]
    by (simp add: digits npos_def)
qed



text \<open>
  Without a colon the whole address is both the host and the text of the port,
  because the position after \<^verbatim>\<open>npos\<close> wraps to 0: the parse succeeds whenever the address
  starts with a number.
\<close>

theorem endpoint_no_colon:
  assumes "CHR '':'' \<notin> set a" and "length a \<le> npos"
  shows "Endpoint_of_address a =
    res_bind (stoi a) (\<lambda>p. Inr \<lparr>host = a, port = word_of_int p\<rparr>)"
proof -
  have "(npos + 1) mod 2 ^ 64 = (0 :: nat)"
    by (simp add: npos_def)
  moreover have "substr a 0 npos = Inr a" "substr a 0 (length a) = Inr a"
    using assms(2) by (simp_all add: substr_def)
  moreover have "str_find a (CHR '':'') = npos"
    using assms(1) by simp
  ultimately show ?thesis
    unfolding Endpoint_of_address_def Let_def by (simp only: res_bind.simps)
qed

theorem endpoint_no_colon_witness:
  "Endpoint_of_address ''10001'' = Inr \<lparr>host = ''10001'', port = 10001\<rparr>"
proof -
  have "stoi ''10001'' = Inr 10001"
    by (simp add: stoi_def is_digit_def is_space_def digits_val_def digit_val_def)
  then show ?thesis
    using endpoint_no_colon [of "''10001''"] by (simp add: npos_def)
qed

text \<open>
  Only the first colon separates, so a host that contains colons (an IPv6 literal)
  is cut there: an address that starts with two colons is refused with
  \<^verbatim>\<open>std::invalid_argument\<close> whatever follows, and so is an address with nothing after its colon.
\<close>

theorem endpoint_first_colon:
  assumes "CHR '':'' \<notin> set h" and "length h < npos"
    and "t = [] \<or> hd t = CHR '':''"
  shows "Endpoint_of_address (h @ '':'' @ t) = Inl (Throws Invalid_argument)"
proof -
  have "stoi t = Inl (Throws Invalid_argument)"
    using assms(3) by (intro stoi_no_digit) (auto simp: is_digit_def is_space_def)
  then show ?thesis
    using Endpoint_of_address_colon [OF assms(1,2), of t] by simp
qed

theorem endpoint_first_colon_witness:
  "Endpoint_of_address ''::1:10001'' = Inl (Throws Invalid_argument)"
  using endpoint_first_colon [of "[]" "'':1:10001''"] by (simp add: npos_def)

end
