(* ===== verification/Concurrent_Queues.thy ===== *)
theory Concurrent_Queues
  imports Dousi_Prelude
begin

text \<open>
  \<^verbatim>\<open>core/common/concurrent_queue.h\<close>, \<^verbatim>\<open>std_locked_queue.h\<close> and \<^verbatim>\<open>boost_lock_free_queue.h\<close>:
  the interface of the queues between the executor's threads, as a locale, and the two
  implementations. Each critical section of \<^verbatim>\<open>StdLockedQueue\<close> is one step, its condition
  variable a count of sleeping and of notified threads. \<^verbatim>\<open>boost::lockfree::queue\<close> is not part of
  the repository: its operations are a record of functions, its documented behaviour the
  assumptions of a locale.
\<close>

section \<open>The interface\<close>

text \<open>
  \<open>try_pop\<close> is one attempt of \<^verbatim>\<open>WaitAndPop\<close> to take an element, \<open>None\<close> when there is none.
\<close>

locale concurrent_queue =
  fixes push :: "'a \<Rightarrow> 'q \<Rightarrow> 'q"
    and try_pop :: "'q \<Rightarrow> ('a \<times> 'q) option"
    and is_empty :: "'q \<Rightarrow> bool"
    and contents :: "'q \<Rightarrow> 'a list"
  assumes contents_push: "contents (push x q) = contents q @ [x]"
    and pop_Some: "try_pop q = Some (x, q') \<Longrightarrow> contents q = x # contents q'"
    and pop_None: "try_pop q = None \<longleftrightarrow> contents q = []"
    and is_empty_contents: "is_empty q \<longleftrightarrow> contents q = []"

text \<open>
  A history: the operations of all threads in the order in which they take effect. A pop
  that finds nothing leaves its thread waiting and has no effect.
\<close>

datatype 'a queue_op = Op_push 'a | Op_pop

fun run_queue ::
  "('a \<Rightarrow> 'q \<Rightarrow> 'q) \<Rightarrow> ('q \<Rightarrow> ('a \<times> 'q) option) \<Rightarrow> 'a queue_op list \<Rightarrow> 'q \<Rightarrow> 'a list \<times> 'q" where
  "run_queue push try_pop [] q = ([], q)"
| "run_queue push try_pop (Op_push x # ops) q = run_queue push try_pop ops (push x q)"
| "run_queue push try_pop (Op_pop # ops) q =
     (case try_pop q of
        None \<Rightarrow> run_queue push try_pop ops q
      | Some (x, q') \<Rightarrow>
          (x # fst (run_queue push try_pop ops q'), snd (run_queue push try_pop ops q')))"

fun pushed :: "'a queue_op list \<Rightarrow> 'a list" where
  "pushed [] = []"
| "pushed (Op_push x # ops) = x # pushed ops"
| "pushed (Op_pop # ops) = pushed ops"

context concurrent_queue
begin

lemma pop_head: "contents q = x # xs \<Longrightarrow> \<exists>q'. try_pop q = Some (x, q') \<and> contents q' = xs"
  using pop_Some [of q] pop_None [of q] by (cases "try_pop q") auto

lemma run_fifo:
  "fst (run_queue push try_pop ops q) @ contents (snd (run_queue push try_pop ops q)) =
   contents q @ pushed ops"
proof (induction ops arbitrary: q)
  case (Cons op ops)
  show ?case
  proof (cases op)
    case (Op_push x)
    then show ?thesis by (simp add: Cons.IH contents_push)
  next
    case Op_pop
    then show ?thesis
      by (cases "try_pop q") (auto simp: Cons.IH pop_Some)
  qed
qed simp

text \<open>A loop that polls takes the oldest element of the first state that has one.\<close>

lemma poll_takes_oldest:
  assumes "\<And>j. j < k \<Longrightarrow> contents (poll_state others 0 j q) = []"
    and "contents (poll_state others 0 k q) = x # xs"
  shows "\<exists>q'. poll try_pop others 0 q = Some (x, q') \<and> contents q' = xs"
proof -
  obtain q' where q': "try_pop (poll_state others 0 k q) = Some (x, q')" "contents q' = xs"
    using pop_head [OF assms(2)] by blast
  have "poll try_pop others 0 q = Some (x, q')"
    by (rule poll_found [where k = k]) (simp_all add: assms(1) pop_None q'(1))
  with q'(2) show ?thesis by blast
qed

lemma poll_starves:
  assumes "\<And>k. contents (poll_state others 0 k q) = []"
  shows "poll try_pop others 0 q = None"
  by (rule poll_never) (simp add: pop_None assms)

end

section \<open>StdLockedQueue\<close>

record 'a std_locked_queue =
  slq_data :: "'a list"
  slq_waiting :: nat
  slq_notified :: nat

definition StdLockedQueue :: "'a std_locked_queue" where
  "StdLockedQueue = \<lparr>slq_data = [], slq_waiting = 0, slq_notified = 0\<rparr>"

text \<open>\<^verbatim>\<open>cond_var_.notify_one()\<close>: one sleeping thread, if there is one, will run again.\<close>

definition notify_one :: "'a std_locked_queue \<Rightarrow> 'a std_locked_queue" where
  "notify_one q =
     (if slq_waiting q = 0 then q
      else q\<lparr>slq_waiting := slq_waiting q - 1, slq_notified := slq_notified q + 1\<rparr>)"

definition StdLockedQueue_Push :: "'a \<Rightarrow> 'a std_locked_queue \<Rightarrow> 'a std_locked_queue" where
  "StdLockedQueue_Push x q = notify_one (q\<lparr>slq_data := slq_data q @ [x]\<rparr>)"

text \<open>
  \<^verbatim>\<open>WaitAndPop\<close>: with the lock held the predicate is checked, on entry and whenever the
  thread wakes up; it pops when there is an element and goes to sleep when there is none.
\<close>

definition StdLockedQueue_TryPop :: "'a std_locked_queue \<Rightarrow> ('a \<times> 'a std_locked_queue) option" where
  "StdLockedQueue_TryPop q = (case slq_data q of
       [] \<Rightarrow> None
     | x # xs \<Rightarrow> Some (x, q\<lparr>slq_data := xs\<rparr>))"

definition wait_or_pop :: "'a std_locked_queue \<Rightarrow> 'a option \<times> 'a std_locked_queue" where
  "wait_or_pop q = (case StdLockedQueue_TryPop q of
       Some (x, q') \<Rightarrow> (Some x, q')
     | None \<Rightarrow> (None, q\<lparr>slq_waiting := slq_waiting q + 1\<rparr>))"

definition StdLockedQueue_GetSize :: "'a std_locked_queue \<Rightarrow> u32" where
  "StdLockedQueue_GetSize q = of_nat (length (slq_data q))"

definition StdLockedQueue_IsEmpty :: "'a std_locked_queue \<Rightarrow> bool" where
  "StdLockedQueue_IsEmpty q = (slq_data q = [])"

inductive slq_step :: "'a std_locked_queue \<Rightarrow> 'a std_locked_queue \<Rightarrow> bool" where
  slq_push: "slq_step q (StdLockedQueue_Push x q)"
| slq_enter: "slq_step q (snd (wait_or_pop q))"
| slq_wake: "0 < slq_notified q \<Longrightarrow>
     slq_step q (snd (wait_or_pop (q\<lparr>slq_notified := slq_notified q - 1\<rparr>)))"
| slq_spurious: "0 < slq_waiting q \<Longrightarrow> slq_step q (notify_one q)"

definition no_lost_wakeup :: "'a std_locked_queue \<Rightarrow> bool" where
  "no_lost_wakeup q = (slq_waiting q = 0 \<or> length (slq_data q) \<le> slq_notified q)"

lemma no_lost_wakeup_Push [inv_intros]: "no_lost_wakeup q \<Longrightarrow> no_lost_wakeup (StdLockedQueue_Push x q)"
  by (auto simp: no_lost_wakeup_def StdLockedQueue_Push_def notify_one_def)

lemma no_lost_wakeup_notify [inv_intros]: "no_lost_wakeup q \<Longrightarrow> no_lost_wakeup (notify_one q)"
  by (auto simp: no_lost_wakeup_def notify_one_def)

lemma no_lost_wakeup_enter [inv_intros]: "no_lost_wakeup q \<Longrightarrow> no_lost_wakeup (snd (wait_or_pop q))"
  by (auto simp: no_lost_wakeup_def wait_or_pop_def StdLockedQueue_TryPop_def split: list.splits)

lemma no_lost_wakeup_wake [inv_intros]:
  "no_lost_wakeup q \<Longrightarrow> 0 < slq_notified q \<Longrightarrow>
   no_lost_wakeup (snd (wait_or_pop (q\<lparr>slq_notified := slq_notified q - 1\<rparr>)))"
  by (auto simp: no_lost_wakeup_def wait_or_pop_def StdLockedQueue_TryPop_def split: list.splits)

lemma slq_step_no_lost_wakeup: "slq_step q q' \<Longrightarrow> no_lost_wakeup q \<Longrightarrow> no_lost_wakeup q'"
  by (induction rule: slq_step.induct) (blast intro: inv_intros)+

lemma slq_steps_no_lost_wakeup: "slq_step\<^sup>*\<^sup>* q q' \<Longrightarrow> no_lost_wakeup q \<Longrightarrow> no_lost_wakeup q'"
  by (induction rule: rtranclp_induct) (auto intro: slq_step_no_lost_wakeup)

text \<open>
  C34: no wakeup of \<^verbatim>\<open>StdLockedQueue\<close> is lost: in every state that pushes, pops, wakeups and
  spurious wakeups can reach, if a thread sleeps in \<^verbatim>\<open>WaitAndPop\<close> then every element in the queue
  has a notified thread on its way; once all notified threads have run, a sleeping thread means
  an empty queue.
\<close>

theorem locked_queue_no_lost_wakeup:
  assumes "slq_step\<^sup>*\<^sup>* StdLockedQueue q" and "0 < slq_waiting q"
  shows "length (slq_data q) \<le> slq_notified q
    \<and> (slq_notified q = 0 \<longrightarrow> StdLockedQueue_IsEmpty q)"
proof -
  have "no_lost_wakeup (StdLockedQueue :: 'a std_locked_queue)"
    by (simp add: no_lost_wakeup_def StdLockedQueue_def)
  with assms(1) have "no_lost_wakeup q" by (rule slq_steps_no_lost_wakeup)
  with assms(2) show ?thesis by (auto simp: no_lost_wakeup_def StdLockedQueue_IsEmpty_def)
qed

theorem locked_queue_no_lost_wakeup_witness:
  "\<exists>q :: nat std_locked_queue. slq_step\<^sup>*\<^sup>* StdLockedQueue q \<and> 0 < slq_waiting q \<and>
     length (slq_data q) \<le> slq_notified q"
proof -
  let ?q = "snd (wait_or_pop (StdLockedQueue :: nat std_locked_queue))"
  have run: "slq_step\<^sup>*\<^sup>* StdLockedQueue ?q" by (rule r_into_rtranclp) (rule slq_enter)
  have waiting: "0 < slq_waiting ?q"
    by (simp add: wait_or_pop_def StdLockedQueue_TryPop_def StdLockedQueue_def)
  from locked_queue_no_lost_wakeup [OF run waiting] run waiting show ?thesis by blast
qed

interpretation slq: concurrent_queue StdLockedQueue_Push StdLockedQueue_TryPop StdLockedQueue_IsEmpty slq_data
  by unfold_locales
    (auto simp: StdLockedQueue_Push_def notify_one_def StdLockedQueue_TryPop_def
      StdLockedQueue_IsEmpty_def split: list.splits)

text \<open>
  \<^verbatim>\<open>StdLockedQueue\<close> is first in, first out for any number of producers and consumers:
  whatever the order in which their operations take effect, the elements popped so far followed
  by those still queued are the elements pushed, in the order of the pushes.
\<close>

theorem locked_queue_fifo:
  "fst (run_queue StdLockedQueue_Push StdLockedQueue_TryPop ops StdLockedQueue) @
     slq_data (snd (run_queue StdLockedQueue_Push StdLockedQueue_TryPop ops StdLockedQueue)) =
   pushed ops"
  using slq.run_fifo [of ops StdLockedQueue] by (simp add: StdLockedQueue_def)

text \<open>\<^verbatim>\<open>GetSize\<close> returns the size as a \<^verbatim>\<open>uint32_t\<close>.\<close>

lemma StdLockedQueue_GetSize_mod:
  "unat (StdLockedQueue_GetSize q) = length (slq_data q) mod 2 ^ 32"
  by (simp only: StdLockedQueue_GetSize_def unat_of_nat_u32)

section \<open>BoostLockFreeQueue\<close>

text \<open>
  The operations of \<^verbatim>\<open>boost::lockfree::queue\<close> the code calls: the constructor with its
  initial number of nodes, \<^verbatim>\<open>push\<close> and \<^verbatim>\<open>pop\<close> with their success, and \<^verbatim>\<open>empty\<close>.
\<close>

record ('a, 'q) lockfree =
  lf_new :: "nat \<Rightarrow> 'q"
  lf_push :: "'a \<Rightarrow> 'q \<Rightarrow> bool \<times> 'q"
  lf_pop :: "'q \<Rightarrow> ('a \<times> 'q) option"
  lf_empty :: "'q \<Rightarrow> bool"

definition BoostLockFreeQueue :: "('a, 'q) lockfree \<Rightarrow> 'q" where
  "BoostLockFreeQueue lf = lf_new lf (1024 * 1024)"

text \<open>\<^verbatim>\<open>Push\<close> discards the result of \<^verbatim>\<open>data_.push\<close>.\<close>

definition BoostLockFreeQueue_Push :: "('a, 'q) lockfree \<Rightarrow> 'a \<Rightarrow> 'q \<Rightarrow> 'q" where
  "BoostLockFreeQueue_Push lf x q = snd (lf_push lf x q)"

definition BoostLockFreeQueue_WaitAndPop ::
  "('a, 'q) lockfree \<Rightarrow> (nat \<Rightarrow> 'q \<Rightarrow> 'q) \<Rightarrow> 'q \<Rightarrow> ('a \<times> 'q) option" where
  "BoostLockFreeQueue_WaitAndPop lf others q = poll (lf_pop lf) others 0 q"

definition BoostLockFreeQueue_GetSize :: "('a, 'q) lockfree \<Rightarrow> 'q \<Rightarrow> u32" where
  "BoostLockFreeQueue_GetSize lf q = 0"

definition BoostLockFreeQueue_IsEmpty :: "('a, 'q) lockfree \<Rightarrow> 'q \<Rightarrow> bool" where
  "BoostLockFreeQueue_IsEmpty lf q = lf_empty lf q"

text \<open>
  The documented behaviour: a new queue is empty, a successful push adds at the end, a failed
  one changes nothing, pop takes the first element and fails on the empty queue only. With
  a node pool that may grow, as the code declares it, push does not fail.
\<close>

locale boost_queue =
  fixes lf :: "('a, 'q) lockfree"
    and contents :: "'q \<Rightarrow> 'a list"
  assumes boost_new: "contents (lf_new lf n) = []"
    and boost_push: "contents (snd (lf_push lf x q)) =
      (if fst (lf_push lf x q) then contents q @ [x] else contents q)"
    and boost_pop: "lf_pop lf q = Some (x, q') \<Longrightarrow> contents q = x # contents q'"
    and boost_pop_fails: "lf_pop lf q = None \<longleftrightarrow> contents q = []"
    and boost_empty: "lf_empty lf q \<longleftrightarrow> contents q = []"
begin

lemma new_contents: "contents (BoostLockFreeQueue lf) = []"
  by (simp add: BoostLockFreeQueue_def boost_new)

lemma Push_contents:
  "contents (BoostLockFreeQueue_Push lf x q) =
    (if fst (lf_push lf x q) then contents q @ [x] else contents q)"
  by (simp add: BoostLockFreeQueue_Push_def boost_push)

end

locale growing_boost_queue = boost_queue +
  assumes boost_push_succeeds: "fst (lf_push lf x q)"

sublocale growing_boost_queue \<subseteq> concurrent_queue "BoostLockFreeQueue_Push lf" "lf_pop lf" "BoostLockFreeQueue_IsEmpty lf" contents
  by unfold_locales
    (simp_all add: Push_contents boost_push_succeeds boost_pop boost_pop_fails boost_empty
      BoostLockFreeQueue_IsEmpty_def)

context growing_boost_queue
begin

lemma history_fifo:
  "fst (run_queue (BoostLockFreeQueue_Push lf) (lf_pop lf) ops (BoostLockFreeQueue lf)) @
      contents (snd (run_queue (BoostLockFreeQueue_Push lf) (lf_pop lf) ops (BoostLockFreeQueue lf))) =
    pushed ops"
  by (simp add: run_fifo new_contents)

lemma WaitAndPop_takes_oldest:
  assumes "\<And>j. j < k \<Longrightarrow> contents (poll_state others 0 j q) = []"
    and "contents (poll_state others 0 k q) = x # xs"
  shows "\<exists>q'. BoostLockFreeQueue_WaitAndPop lf others q = Some (x, q') \<and> contents q' = xs"
  unfolding BoostLockFreeQueue_WaitAndPop_def using assms by (rule poll_takes_oldest)

lemma WaitAndPop_starves:
  assumes "\<And>k. contents (poll_state others 0 k q) = []"
  shows "BoostLockFreeQueue_WaitAndPop lf others q = None"
  unfolding BoostLockFreeQueue_WaitAndPop_def using assms by (rule poll_starves)

end

text \<open>
  The repository's other queue meets the same contract, so it can stand in for the Boost
  queue wherever one is used.
\<close>

definition locked_as_lockfree :: "('a, 'a std_locked_queue) lockfree" where
  "locked_as_lockfree =
     \<lparr>lf_new = (\<lambda>_. StdLockedQueue), lf_push = (\<lambda>x q. (True, StdLockedQueue_Push x q)),
      lf_pop = StdLockedQueue_TryPop, lf_empty = StdLockedQueue_IsEmpty\<rparr>"

interpretation locked_boost: growing_boost_queue locked_as_lockfree slq_data
  by unfold_locales
    (auto simp: locked_as_lockfree_def slq.contents_push slq.pop_Some slq.pop_None
      slq.is_empty_contents StdLockedQueue_def)



text \<open>
  \<^verbatim>\<open>WaitAndPop\<close> returns when the queue it polls is not empty in some round, and then
  it has taken the oldest element of the first such round; when the queue is empty in every
  round it never returns.
\<close>

theorem boost_WaitAndPop_polls:
  assumes "growing_boost_queue lf contents"
  shows "((\<forall>j<k. contents (poll_state others 0 j q) = []) \<and>
      contents (poll_state others 0 k q) = x # xs \<longrightarrow>
      (\<exists>q'. BoostLockFreeQueue_WaitAndPop lf others q = Some (x, q') \<and> contents q' = xs))
    \<and> ((\<forall>j. contents (poll_state others 0 j q) = []) \<longrightarrow>
      BoostLockFreeQueue_WaitAndPop lf others q = None)"
  using growing_boost_queue.WaitAndPop_takes_oldest [OF assms]
    growing_boost_queue.WaitAndPop_starves [OF assms] by blast

text \<open>A producer that pushes 5 during the second sleep of the consumer.\<close>

theorem boost_WaitAndPop_polls_witness:
  "\<exists>q'. BoostLockFreeQueue_WaitAndPop locked_as_lockfree
      (\<lambda>i q. if i = 1 then StdLockedQueue_Push (5 :: nat) q else q) StdLockedQueue = Some (5, q')
    \<and> slq_data q' = []"
proof -
  let ?others = "\<lambda>i q. if i = 1 then StdLockedQueue_Push (5 :: nat) q else q"
  have "slq_data (poll_state ?others 0 0 StdLockedQueue) = []"
    "slq_data (poll_state ?others 0 1 StdLockedQueue) = []"
    "slq_data (poll_state ?others 0 2 StdLockedQueue) = [5]"
    by (simp_all add: numeral_2_eq_2 StdLockedQueue_def StdLockedQueue_Push_def notify_one_def)
  then have "(\<forall>j<2. slq_data (poll_state ?others 0 j StdLockedQueue) = []) \<and>
      slq_data (poll_state ?others 0 2 StdLockedQueue) = 5 # []"
    by (auto simp: less_2_cases_iff)
  with boost_WaitAndPop_polls [OF locked_boost.growing_boost_queue_axioms,
      where k = 2 and others = ?others and q = StdLockedQueue and x = 5 and xs = "[]"]
  show ?thesis by blast
qed

end
