(* ===== verification/IO_Thread_Pool.thy ===== *)
theory IO_Thread_Pool
  imports Dousi_Prelude
begin

text \<open>
  \<^verbatim>\<open>core/executor/io_thread_pool.h\<close> and \<^verbatim>\<open>core/common/options.h\<close>: the pool that gives each
  accepted connection one of its event loops, in turn. An event loop, its thread and its work
  guard are handles, numbered as the constructor makes them.
\<close>

record ExecutorOptions =
  io_thread_num :: u16
  work_thread_num :: u16

definition default_options :: ExecutorOptions where
  "default_options = \<lparr>io_thread_num = 8, work_thread_num = 4\<rparr>"

type_synonym io_service = nat

record thread_and_service =
  tas_thread :: nat
  tas_io_service :: io_service
  tas_work :: nat

record io_thread_pool =
  pool_size :: u16
  next_index :: u16
  all_threads :: "thread_and_service list"

text \<open>The constructor's loop, \<^verbatim>\<open>for (int i = 0; i < pool_size; ++i)\<close>.\<close>

function spawn_threads :: "nat \<Rightarrow> nat \<Rightarrow> thread_and_service list \<Rightarrow> thread_and_service list" where
  "spawn_threads i n ts =
     (if i < n then spawn_threads (Suc i) n (ts @ [\<lparr>tas_thread = i, tas_io_service = i, tas_work = i\<rparr>])
      else ts)"
  by pat_completeness auto
termination
  by (relation "measure (\<lambda>(i, n, ts). n - i)") auto

declare spawn_threads.simps [simp del]

definition IOThreadPool :: "u16 \<Rightarrow> io_thread_pool" where
  "IOThreadPool sz = \<lparr>pool_size = sz, next_index = 0, all_threads = spawn_threads 0 (unat sz) []\<rparr>"

text \<open>
  Reading \<^verbatim>\<open>all_threads_[next_index_]\<close> out of range is undefined; with a pool of size 0 it
  comes before the division by zero.
\<close>

definition GetNextIOService :: "io_thread_pool \<Rightarrow> (io_service \<times> io_thread_pool) res" where
  "GetNextIOService p =
     (if unat (next_index p) < length (all_threads p)
      then Inr (tas_io_service (all_threads p ! unat (next_index p)),
                p\<lparr>next_index := (next_index p + 1) mod pool_size p\<rparr>)
      else Inl Out_of_bounds)"

fun GetNextIOServices :: "nat \<Rightarrow> io_thread_pool \<Rightarrow> io_service list res" where
  "GetNextIOServices 0 p = Inr []"
| "GetNextIOServices (Suc k) p =
     res_bind (GetNextIOService p) (\<lambda>(x, p').
     res_bind (GetNextIOServices k p') (\<lambda>xs. Inr (x # xs)))"

section \<open>Lemmas\<close>

lemma spawn_threads_eq:
  "spawn_threads i n ts = ts @ map (\<lambda>k. \<lparr>tas_thread = k, tas_io_service = k, tas_work = k\<rparr>) [i..<n]"
proof (induction i n ts rule: spawn_threads.induct)
  case (1 i n ts)
  then show ?case
    by (subst spawn_threads.simps) (simp add: upt_conv_Cons)
qed

text \<open>The pool as its constructor leaves it, but for the position of its cursor.\<close>

definition pool_ok :: "u16 \<Rightarrow> io_thread_pool \<Rightarrow> bool" where
  "pool_ok sz p =
     (pool_size p = sz \<and> unat (next_index p) < unat sz \<and>
      all_threads p = spawn_threads 0 (unat sz) [])"

lemma pool_ok_IOThreadPool [inv_intros]: "0 < sz \<Longrightarrow> pool_ok sz (IOThreadPool sz)"
  by (simp add: pool_ok_def IOThreadPool_def word_less_nat_alt)

lemma unat_next_index:
  fixes i sz :: u16
  assumes "unat i < unat sz"
  shows "unat ((i + 1) mod sz) = (unat i + 1) mod unat sz"
proof -
  have "unat i + 1 < 2 ^ 16"
    using assms unat_u16_bound [of sz] by simp
  then have "unat (i + 1) = unat i + 1"
    by (simp add: unat_word_ariths)
  then show ?thesis by (simp add: unat_mod_distrib)
qed

lemma GetNextIOService_ok:
  assumes "pool_ok sz p"
  shows "\<exists>p'. GetNextIOService p = Inr (unat (next_index p), p') \<and> pool_ok sz p'
    \<and> unat (next_index p') = (unat (next_index p) + 1) mod unat sz"
proof -
  have "unat ((next_index p + 1) mod sz) = (unat (next_index p) + 1) mod unat sz"
    using assms by (intro unat_next_index) (simp add: pool_ok_def)
  moreover have "0 < unat sz"
    using assms by (simp add: pool_ok_def)
  ultimately show ?thesis
    using assms by (simp add: GetNextIOService_def pool_ok_def spawn_threads_eq)
qed

lemma GetNextIOServices_from:
  assumes "pool_ok sz p"
  shows "GetNextIOServices k p = Inr (map (\<lambda>j. (unat (next_index p) + j) mod unat sz) [0..<k])"
  using assms
proof (induction k arbitrary: p)
  case (Suc k)
  obtain p' where p': "GetNextIOService p = Inr (unat (next_index p), p')" "pool_ok sz p'"
      "unat (next_index p') = (unat (next_index p) + 1) mod unat sz"
    using GetNextIOService_ok [OF Suc.prems] by blast
  have "unat (next_index p) mod unat sz = unat (next_index p)"
    using Suc.prems by (simp add: pool_ok_def)
  moreover have "map (\<lambda>j. ((unat (next_index p) + 1) mod unat sz + j) mod unat sz) [0..<k] =
      map ((\<lambda>j. (unat (next_index p) + j) mod unat sz) \<circ> Suc) [0..<k]"
    by (simp add: mod_add_left_eq)
  ultimately show ?case
    using p' Suc.IH [OF p'(2)] by (simp add: upt_conv_Cons map_Suc_upt [symmetric] del: upt_Suc)
qed simp

section \<open>Properties\<close>

text \<open>
  The pool is round robin: of a pool of n event loops, n not 0, the k-th connection
  gets event loop k modulo n, however many connections there are, and no index is ever out of
  range.
\<close>

theorem io_services_round_robin:
  assumes "0 < sz"
  shows "GetNextIOServices k (IOThreadPool sz) = Inr (map (\<lambda>j. j mod unat sz) [0..<k])"
  using GetNextIOServices_from [OF pool_ok_IOThreadPool [OF assms], of k]
  by (simp add: IOThreadPool_def)

theorem io_services_round_robin_witness:
  "GetNextIOServices 10 (IOThreadPool (io_thread_num default_options)) = Inr [0, 1, 2, 3, 4, 5, 6, 7, 0, 1]"
proof -
  have "(0 :: u16) < io_thread_num default_options" by (simp add: default_options_def)
  from io_services_round_robin [OF this, of 10] show ?thesis
    by (simp add: default_options_def upt_rec)
qed

text \<open>A pool configured without threads faults on its first connection.\<close>

lemma empty_pool_faults: "GetNextIOService (IOThreadPool 0) = Inl Out_of_bounds"
  by (simp add: GetNextIOService_def IOThreadPool_def spawn_threads_eq)

end
