(* ===== verification/Nameof.thy ===== *)
theory Nameof
  imports Dousi_Prelude
begin

text \<open>
  The part of the bundled nameof library that names the remote methods: \<^verbatim>\<open>pretty_name\<close>,
  which cuts the simple name out of an expression's source text, and the string class that
  holds it (\<^verbatim>\<open>src/thirdparty/nameof/nameof.hpp\<close>), with the \<^verbatim>\<open>Remote\<close> macro and the
  \<^verbatim>\<open>RemoteMethod\<close> it makes (\<^verbatim>\<open>core/common/remote_annotation.h\<close>). The loops run from the end of
  the text, so they are recursions over the reversed text; the nesting counter is a \<^verbatim>\<open>size_t\<close>
  that may wrap.
\<close>

section \<open>pretty\_name\<close>

definition char_between :: "char \<Rightarrow> char \<Rightarrow> char \<Rightarrow> bool" where
  "char_between a c b = ((of_char a :: nat) \<le> of_char c \<and> (of_char c :: nat) \<le> of_char b)"

definition is_name_start :: "char \<Rightarrow> bool" where
  "is_name_start c = (char_between (CHR ''a'') c (CHR ''z'') \<or> char_between (CHR ''A'') c (CHR ''Z'') \<or>
     c = CHR ''_'')"

definition is_decimal :: "char \<Rightarrow> bool" where
  "is_decimal c = char_between (CHR ''0'') c (CHR ''9'')"

definition is_name_char :: "char \<Rightarrow> bool" where
  "is_name_char c = (is_decimal c \<or> is_name_start c)"

definition is_quote :: "char \<Rightarrow> bool" where
  "is_quote c = (c = CHR 0x22 \<or> c = CHR 0x27)"

text \<open>The checks for literals and numbers.\<close>

definition not_a_name :: "string \<Rightarrow> bool" where
  "not_a_name s =
     ((1 \<le> length s \<and> is_quote (s ! 0)) \<or>
      (2 \<le> length s \<and> s ! 0 \<in> set [CHR ''R'', CHR ''L'', CHR ''U'', CHR ''u''] \<and> is_quote (s ! 1)) \<or>
      (3 \<le> length s \<and> s ! 0 = CHR ''u'' \<and> s ! 1 = CHR ''8'' \<and> is_quote (s ! 2)) \<or>
      (1 \<le> length s \<and> is_decimal (s ! 0)))"

text \<open>The suffix a call's parentheses take: \<open>None\<close> when the loop ends without a break.\<close>

fun call_suffix :: "string \<Rightarrow> u64 \<Rightarrow> nat \<Rightarrow> nat option" where
  "call_suffix [] h s = None"
| "call_suffix (c # cs) h s =
     (if c = CHR '')'' then call_suffix cs (h + 1) (s + 1)
      else if c = CHR ''('' then call_suffix cs (h - 1) (s + 1)
      else if h = 0 then Some s
      else call_suffix cs h (s + 1))"

text \<open>The suffix a template argument list takes.\<close>

fun template_suffix :: "string \<Rightarrow> u64 \<Rightarrow> nat \<Rightarrow> nat" where
  "template_suffix [] h s = s"
| "template_suffix (c # cs) h s =
     (if c = CHR ''>'' then template_suffix cs (h + 1) (s + 1)
      else if c = CHR ''<'' then template_suffix cs (h - 1) (s + 1)
      else if h = 0 then s
      else template_suffix cs h (s + 1))"

text \<open>The prefix up to the last character that no name contains.\<close>

fun qualifier_prefix :: "string \<Rightarrow> nat" where
  "qualifier_prefix [] = 0"
| "qualifier_prefix (c # cs) = (if \<not> is_name_char c then Suc (length cs) else qualifier_prefix cs)"

definition remove_suffix :: "nat \<Rightarrow> string \<Rightarrow> string" where
  "remove_suffix n s = take (length s - n) s"

definition pretty_name :: "string \<Rightarrow> bool \<Rightarrow> string" where
  "pretty_name text remove_template_suffix =
     (if not_a_name text then []
      else
        let name = (case call_suffix (rev text) 0 0 of Some s \<Rightarrow> remove_suffix s text | None \<Rightarrow> text);
            s = template_suffix (rev name) 0 0;
            name = drop (qualifier_prefix (rev (take (length name - s) name))) name;
            name = (if remove_template_suffix then remove_suffix s name else name)
        in if 0 < length name \<and> is_name_start (hd name) then name else [])"

section \<open>The string class\<close>

text \<open>\<^verbatim>\<open>cstring<N>\<close>: an array of N + 1 characters, the last of them 0.\<close>

record cstring =
  cs_size :: nat
  cs_chars :: string

definition cstring :: "string \<Rightarrow> cstring" where
  "cstring str = \<lparr>cs_size = length str, cs_chars = str @ [CHR 0x00]\<rparr>"

definition cs_str :: "cstring \<Rightarrow> string" where
  "cs_str c = take (cs_size c) (cs_chars c)"

definition cs_back :: "cstring \<Rightarrow> char" where
  "cs_back c = cs_chars c ! cs_size c"

section \<open>The remote annotation\<close>

text \<open>\<open>'m\<close> is the type of the method pointer.\<close>

record 'm RemoteMethod =
  method_name :: string
  method_ptr :: 'm

definition GetName :: "'m RemoteMethod \<Rightarrow> string" where
  "GetName r = method_name r"

definition GetMethod :: "'m RemoteMethod \<Rightarrow> 'm" where
  "GetMethod r = method_ptr r"

text \<open>
  The first argument is the source text of the macro's argument. \<open>NAMEOF_has_name\<close> is the
  \<^verbatim>\<open>static_assert\<close>: a program whose texts do not satisfy it does not compile.
\<close>

definition NAMEOF :: "string \<Rightarrow> cstring" where
  "NAMEOF text = cstring (pretty_name text True)"

definition NAMEOF_has_name :: "string \<Rightarrow> bool" where
  "NAMEOF_has_name text = (0 < length (pretty_name text True))"

definition Remote :: "string \<Rightarrow> 'm \<Rightarrow> 'm RemoteMethod" where
  "Remote text m = \<lparr>method_name = cs_str (NAMEOF text), method_ptr = m\<rparr>"

section \<open>Lemmas\<close>

lemma cs_str_cstring [simp]: "cs_str (cstring s) = s"
  by (simp add: cs_str_def cstring_def)

lemma cs_back_cstring: "cs_back (cstring s) = CHR 0x00"
  by (simp add: cs_back_def cstring_def)

lemma remove_suffix_0 [simp]: "remove_suffix 0 s = s"
  by (simp add: remove_suffix_def)

lemma name_char_not_bracket:
  "is_name_char c \<Longrightarrow> c \<noteq> CHR '')'' \<and> c \<noteq> CHR ''('' \<and> c \<noteq> CHR ''>'' \<and> c \<noteq> CHR ''<'' \<and> c \<noteq> CHR '':'' \<and> c \<noteq> CHR ''&''"
  by (auto simp: is_name_char_def is_name_start_def is_decimal_def char_between_def)

lemma not_name_char_specials [simp]: "\<not> is_name_char (CHR '':'')" "\<not> is_name_char (CHR ''&'')"
  using name_char_not_bracket by blast+

text \<open>The prefix and the name part split a text at its last character outside names.\<close>

lemma qualifier_prefix_eq:
  "qualifier_prefix cs = length (dropWhile is_name_char cs)"
  by (induction cs) simp_all

lemma drop_qualifier_prefix:
  "drop (qualifier_prefix (rev p)) p = rev (takeWhile is_name_char (rev p))"
proof -
  have p: "p = rev (dropWhile is_name_char (rev p)) @ rev (takeWhile is_name_char (rev p))"
    by (metis rev_append rev_rev_ident takeWhile_dropWhile_id)
  have "drop (qualifier_prefix (rev p))
      (rev (dropWhile is_name_char (rev p)) @ rev (takeWhile is_name_char (rev p))) =
    rev (takeWhile is_name_char (rev p))"
    by (simp add: qualifier_prefix_eq)
  with p show ?thesis by simp
qed

lemma template_suffix_le: "template_suffix cs h s \<le> s + length cs"
proof (induction cs h s rule: template_suffix.induct)
  case (2 c cs h s)
  then show ?case by auto
qed simp

lemma qualifier_prefix_le: "qualifier_prefix cs \<le> length cs"
  by (simp add: qualifier_prefix_eq length_dropWhile_le)

text \<open>Cutting the template suffix after the prefix, in terms of the part before the suffix.\<close>

lemma cut_both_ends:
  assumes "s \<le> length name"
  shows "remove_suffix s (drop (qualifier_prefix (rev (take (length name - s) name))) name) =
    rev (takeWhile is_name_char (rev (take (length name - s) name)))"
proof -
  let ?p = "take (length name - s) name"
  let ?q = "qualifier_prefix (rev ?p)"
  have "?q \<le> length name - s"
    using qualifier_prefix_le [of "rev ?p"] by simp
  then have "remove_suffix s (drop ?q name) = drop ?q ?p"
    using assms by (simp add: remove_suffix_def drop_take add.commute)
  then show ?thesis by (simp add: drop_qualifier_prefix)
qed

lemma pretty_name_member:
  assumes "ident \<noteq> []" and "is_name_start (hd ident)" and "\<forall>c \<in> set ident. is_name_char c"
  shows "pretty_name (''&'' @ qual @ '':'' @ ident) True = ident"
proof -
  define t where "t = ''&'' @ qual @ '':'' @ ident"
  obtain x c where ident: "ident = x @ [c]"
    using assms(1) by (cases ident rule: rev_cases) auto
  have c: "c \<noteq> CHR '')''" "c \<noteq> CHR ''(''" "c \<noteq> CHR ''>''" "c \<noteq> CHR ''<''"
    using assms(3) ident name_char_not_bracket by auto
  have start: "\<not> not_a_name t"
    by (simp add: t_def not_a_name_def is_quote_def is_decimal_def char_between_def)
  have call: "call_suffix (rev t) 0 0 = Some 0" and template: "template_suffix (rev t) 0 0 = 0"
    using c ident by (simp_all add: t_def)
  have "takeWhile is_name_char (rev t) = rev ident"
    using assms(3) by (simp add: t_def takeWhile_append)
  then have "drop (qualifier_prefix (rev t)) t = ident"
    by (simp only: drop_qualifier_prefix rev_rev_ident)
  then have "pretty_name t True = ident"
    using start call template assms(1,2) by (simp add: pretty_name_def Let_def)
  then show ?thesis by (simp only: t_def)
qed

section \<open>Properties\<close>

text \<open>
  What \<^verbatim>\<open>NAMEOF\<close> cuts out of any text is empty or an identifier: it begins with a
  letter or an underscore and all its characters are letters, digits and underscores.
\<close>

theorem pretty_name_identifier:
  "pretty_name text True = [] \<or>
   is_name_start (hd (pretty_name text True)) \<and> list_all is_name_char (pretty_name text True)"
proof -
  define name where
    "name = (case call_suffix (rev text) 0 0 of Some s \<Rightarrow> remove_suffix s text | None \<Rightarrow> text)"
  define s where "s = template_suffix (rev name) 0 0"
  define cut where "cut = remove_suffix s (drop (qualifier_prefix (rev (take (length name - s) name))) name)"
  have "s \<le> length name"
    using template_suffix_le [of "rev name" 0 0] by (simp add: s_def)
  then have "\<forall>c \<in> set cut. is_name_char c"
    by (auto simp: cut_def cut_both_ends dest: set_takeWhileD)
  moreover have "pretty_name text True = [] \<or> pretty_name text True = cut \<and> is_name_start (hd cut)"
    by (auto simp: pretty_name_def Let_def name_def s_def cut_def)
  ultimately show ?thesis by (auto simp: list_all_iff)
qed

text \<open>
  For a member function pointer, an ampersand, any qualification that ends in a
  colon, and an identifier, the remote method is named by the identifier alone: the class is no
  part of the name, so methods of the same name of different services share it.
\<close>

theorem Remote_drops_class:
  assumes "ident \<noteq> []" and "is_name_start (hd ident)" and "\<forall>c \<in> set ident. is_name_char c"
  shows "NAMEOF_has_name (''&'' @ qual @ '':'' @ ident)
    \<and> Remote (''&'' @ qual @ '':'' @ ident) m = \<lparr>method_name = ident, method_ptr = m\<rparr>"
  using assms pretty_name_member [OF assms, of qual]
  by (simp add: Remote_def NAMEOF_def NAMEOF_has_name_def)

theorem Remote_drops_class_witness:
  "Remote ''&Adder::add'' (0 :: nat) = \<lparr>method_name = ''add'', method_ptr = 0\<rparr>"
  using Remote_drops_class [of "''add''" "''Adder:''" "0 :: nat"]
  by (simp add: is_name_char_def is_name_start_def char_between_def)

end
