(* ===== verification/Invocation.thy ===== *)
theory Invocation
  imports Dousi_Prelude
begin

text \<open>
  How a call's arguments travel: the traits of a method's type (\<^verbatim>\<open>core/common/function_traits.h\<close>),
  the packing of the argument tuple (\<^verbatim>\<open>common/msgpack_utils.h\<close>) and the invocation of the method
  on the unpacked tuple (\<^verbatim>\<open>core/common/tuple_traits.h\<close>). C++ types are a datatype, C++ values a
  type variable \<open>'v\<close>. MessagePack is not part of the repository: its functions are a record,
  what the code relies on are the assumptions of a locale.
\<close>

section \<open>C++ types\<close>

datatype cpp_type =
    Base string
  | Void
  | Const cpp_type
  | LRef cpp_type
  | RRef cpp_type
  | Ptr cpp_type

definition std_string :: cpp_type where
  "std_string = Base ''std::string''"

fun remove_reference :: "cpp_type \<Rightarrow> cpp_type" where
  "remove_reference (LRef t) = t"
| "remove_reference (RRef t) = t"
| "remove_reference t = t"

fun remove_const :: "cpp_type \<Rightarrow> cpp_type" where
  "remove_const (Const t) = t"
| "remove_const t = t"

fun is_reference :: "cpp_type \<Rightarrow> bool" where
  "is_reference (LRef t) = True"
| "is_reference (RRef t) = True"
| "is_reference t = False"

fun is_const :: "cpp_type \<Rightarrow> bool" where
  "is_const (Const t) = True"
| "is_const t = False"

text \<open>The types C++ can form: no reference to a reference, no constant reference.\<close>

fun cpp_legal :: "cpp_type \<Rightarrow> bool" where
  "cpp_legal (Const t) = (\<not> is_reference t \<and> \<not> is_const t \<and> cpp_legal t)"
| "cpp_legal (LRef t) = (\<not> is_reference t \<and> cpp_legal t)"
| "cpp_legal (RRef t) = (\<not> is_reference t \<and> cpp_legal t)"
| "cpp_legal (Ptr t) = (\<not> is_reference t \<and> cpp_legal t)"
| "cpp_legal t = True"

section \<open>Function traits\<close>

text \<open>
  The types the traits are specialised for: functions, their pointers and references,
  constant functions, member functions, and a class by its call operator.
\<close>

datatype fn_type =
    Fn cpp_type "cpp_type list"
  | FnPtr cpp_type "cpp_type list"
  | FnRef cpp_type "cpp_type list"
  | FnConst cpp_type "cpp_type list"
  | MemFn string cpp_type "cpp_type list"
  | MemFnConst string cpp_type "cpp_type list"
  | Functor fn_type

record function_traits =
  ArgsNum :: nat
  ReturnType :: cpp_type
  ArgsTypes :: "cpp_type list"
  ServiceNameAndMethodNameWithArgsTuple :: "cpp_type list"

definition BaseFunctionTraits :: "cpp_type \<Rightarrow> cpp_type list \<Rightarrow> function_traits" where
  "BaseFunctionTraits r args =
     \<lparr>ArgsNum = length args, ReturnType = r, ArgsTypes = args,
      ServiceNameAndMethodNameWithArgsTuple =
        [std_string, std_string] @ map (\<lambda>t. remove_const (remove_reference t)) args\<rparr>"

fun FunctionTraits :: "fn_type \<Rightarrow> function_traits" where
  "FunctionTraits (Fn r args) = BaseFunctionTraits r args"
| "FunctionTraits (FnPtr r args) = BaseFunctionTraits r args"
| "FunctionTraits (FnRef r args) = BaseFunctionTraits r args"
| "FunctionTraits (FnConst r args) = BaseFunctionTraits r args"
| "FunctionTraits (Functor call_operator) = FunctionTraits call_operator"
| "FunctionTraits (MemFn cls r args) = BaseFunctionTraits r args"
| "FunctionTraits (MemFnConst cls r args) = BaseFunctionTraits r args"

text \<open>\<^verbatim>\<open>ArgsType<N>\<close>, which does not compile when there is no N-th argument.\<close>

definition ArgsType :: "fn_type \<Rightarrow> nat \<Rightarrow> cpp_type option" where
  "ArgsType f n =
     (if n < length (ArgsTypes (FunctionTraits f)) then Some (ArgsTypes (FunctionTraits f) ! n) else None)"

datatype return_tag = VoidReturnTag | NonVoidReturnTag

fun VoidReturnTrait :: "cpp_type \<Rightarrow> return_tag" where
  "VoidReturnTrait Void = VoidReturnTag"
| "VoidReturnTrait _ = NonVoidReturnTag"

section \<open>MessagePack\<close>

text \<open>
  \<open>mp_string\<close> is the value of a \<^verbatim>\<open>std::string\<close>; \<open>mp_pack_tuple\<close> and \<open>mp_pack\<close> are
  \<^verbatim>\<open>msgpack::pack\<close> of a \<^verbatim>\<open>std::tuple\<close> and of one value; \<open>mp_unpack\<close> is \<^verbatim>\<open>msgpack::unpack\<close>;
  the rest is \<^verbatim>\<open>as<T>\<close> for a pair of strings, for a tuple type and for one type.
\<close>

record ('v, 'o) msgpack =
  mp_string :: "string \<Rightarrow> 'v"
  mp_pack_tuple :: "'v list \<Rightarrow> bytes"
  mp_pack :: "'v \<Rightarrow> bytes"
  mp_unpack :: "bytes \<Rightarrow> 'o res"
  mp_as_names :: "'o \<Rightarrow> (string \<times> string) res"
  mp_as_tuple :: "cpp_type list \<Rightarrow> 'o \<Rightarrow> 'v list res"
  mp_as :: "cpp_type \<Rightarrow> 'o \<Rightarrow> 'v res"

text \<open>
  What the code relies on: unpacking what was packed and converting it to its own types gives
  the values back, a tuple that begins with two strings can also be read as these two strings,
  and unpacking no bytes fails. MessagePack arrays have less than 2 to the 32 elements.
\<close>

locale msgpack_codec =
  fixes mp :: "('v, 'o) msgpack"
    and has_type :: "cpp_type \<Rightarrow> 'v \<Rightarrow> bool"
  assumes tuple_roundtrip:
    "list_all2 has_type tys vs \<Longrightarrow> length vs < 2 ^ 32 \<Longrightarrow>
      \<exists>ob. mp_unpack mp (mp_pack_tuple mp vs) = Inr ob \<and> mp_as_tuple mp tys ob = Inr vs"
    and names_of_tuple:
    "list_all2 has_type tys (mp_string mp s # mp_string mp m # vs) \<Longrightarrow> length vs + 2 < 2 ^ 32 \<Longrightarrow>
      mp_unpack mp (mp_pack_tuple mp (mp_string mp s # mp_string mp m # vs)) = Inr ob \<Longrightarrow>
      mp_as_names mp ob = Inr (s, m)"
    and value_roundtrip:
    "has_type t v \<Longrightarrow> \<exists>ob. mp_unpack mp (mp_pack mp v) = Inr ob \<and> mp_as mp t ob = Inr v"
    and unpack_nothing: "mp_unpack mp [] = Inl (Throws Msgpack_error)"

definition PackArgsToBuffer :: "('v, 'o) msgpack \<Rightarrow> 'v list \<Rightarrow> bytes" where
  "PackArgsToBuffer mp args_tuple = mp_pack_tuple mp args_tuple"

section \<open>Invocation\<close>

text \<open>
  A member function of a service: it takes the service object and the arguments, and gives
  the returned value, if it returns one, and the object as it leaves it. \<open>'s\<close> is the type of
  all service objects.
\<close>

datatype ('s, 'v) member_fn =
    Returning "'s \<Rightarrow> 'v list \<Rightarrow> ('v \<times> 's) res"
  | Returning_void "'s \<Rightarrow> 'v list \<Rightarrow> 's res"

record ('s, 'v) method_pointer =
  mt_type :: fn_type
  mt_body :: "('s, 'v) member_fn"

text \<open>What the type checker ensures: a void method is one whose return type is void.\<close>

definition method_typed :: "('s, 'v) method_pointer \<Rightarrow> bool" where
  "method_typed m \<longleftrightarrow>
     (VoidReturnTrait (ReturnType (FunctionTraits (mt_type m))) =
       (case mt_body m of Returning _ \<Rightarrow> NonVoidReturnTag | Returning_void _ \<Rightarrow> VoidReturnTag))"

text \<open>\<^verbatim>\<open>std::get<Index + 2>(tuple) ...\<close> over an index sequence.\<close>

definition TraitAndCall2 ::
  "('s \<Rightarrow> 'v list \<Rightarrow> 'r) \<Rightarrow> 's \<Rightarrow> nat list \<Rightarrow> 'v list \<Rightarrow> 'r" where
  "TraitAndCall2 method service_object indices tuple =
     method service_object (map (\<lambda>index. tuple ! (index + 2)) indices)"

text \<open>
  \<^verbatim>\<open>std::make_index_sequence<sizeof...(Args)>\<close>, where \<^verbatim>\<open>Args\<close> are the types after the first
  two.
\<close>

definition TraitAndCall :: "('s \<Rightarrow> 'v list \<Rightarrow> 'r) \<Rightarrow> 's \<Rightarrow> 'v list \<Rightarrow> 'r" where
  "TraitAndCall method service_object tuple =
     TraitAndCall2 method service_object [0..<length tuple - 2] tuple"

text \<open>
  \<^verbatim>\<open>InvokeHelper<ReturnType>::Invoke\<close> and its specialisation for void, which leaves \<^verbatim>\<open>result\<close>
  as the caller made it: empty.
\<close>

definition InvokeHelper_Invoke ::
  "('v, 'o) msgpack \<Rightarrow> ('s, 'v) method_pointer \<Rightarrow> 's \<Rightarrow> 'o \<Rightarrow> bytes \<Rightarrow> (bytes \<times> 's) res" where
  "InvokeHelper_Invoke mp m service_object unpacked result =
     res_bind (mp_as_tuple mp (ServiceNameAndMethodNameWithArgsTuple (FunctionTraits (mt_type m))) unpacked)
       (\<lambda>tuple. case mt_body m of
          Returning f \<Rightarrow>
            res_bind (TraitAndCall f service_object tuple) (\<lambda>(ret, ob). Inr (mp_pack mp ret, ob))
        | Returning_void f \<Rightarrow>
            res_bind (TraitAndCall f service_object tuple) (\<lambda>ob. Inr (result, ob)))"

section \<open>Lemmas\<close>

lemma TraitAndCall2_drop:
  "TraitAndCall2 f s [0..<length tuple - 2] tuple = f s (drop 2 tuple)"
proof -
  have "map (\<lambda>i. tuple ! (i + 2)) [0..<length tuple - 2] = drop 2 tuple"
    by (rule nth_equalityI) (simp_all add: add.commute)
  then show ?thesis by (simp add: TraitAndCall2_def)
qed

lemma TraitAndCall_cons [simp]: "TraitAndCall f s (a # b # args) = f s args"
  using TraitAndCall2_drop [of f s "a # b # args"] by (simp add: TraitAndCall_def)

lemma not_const_remove_const: "cpp_legal t \<Longrightarrow> \<not> is_const (remove_const t)"
  by (cases t) auto

lemma not_reference_remove_const: "cpp_legal t \<Longrightarrow> \<not> is_reference t \<Longrightarrow> \<not> is_reference (remove_const t)"
  by (cases t) auto

lemma cpp_legal_remove_reference:
  "cpp_legal t \<Longrightarrow> cpp_legal (remove_reference t) \<and> \<not> is_reference (remove_reference t)"
  by (cases t) auto

section \<open>A packed call, unpacked and invoked\<close>

text \<open>What the invocation gives when the method is called on the right arguments.\<close>

definition call_result ::
  "('v, 'o) msgpack \<Rightarrow> ('s, 'v) method_pointer \<Rightarrow> 's \<Rightarrow> 'v list \<Rightarrow> bytes \<Rightarrow> (bytes \<times> 's) res" where
  "call_result mp m service_object args result = (case mt_body m of
       Returning f \<Rightarrow> res_bind (f service_object args) (\<lambda>(ret, ob). Inr (mp_pack mp ret, ob))
     | Returning_void f \<Rightarrow> res_bind (f service_object args) (\<lambda>ob. Inr (result, ob)))"

text \<open>Arguments that fit the parameters of a method.\<close>

definition args_fit ::
  "('v, 'o) msgpack \<Rightarrow> (cpp_type \<Rightarrow> 'v \<Rightarrow> bool) \<Rightarrow> string \<Rightarrow> string \<Rightarrow> ('s, 'v) method_pointer \<Rightarrow> 'v list \<Rightarrow> bool" where
  "args_fit mp has_type s n m args \<longleftrightarrow>
     list_all2 has_type (ServiceNameAndMethodNameWithArgsTuple (FunctionTraits (mt_type m)))
       (mp_string mp s # mp_string mp n # args)
     \<and> length args + 2 < 2 ^ 32"

context msgpack_codec
begin

lemma packed_call:
  assumes "args_fit mp has_type s n m args"
  shows "\<exists>ob. mp_unpack mp (PackArgsToBuffer mp (mp_string mp s # mp_string mp n # args)) = Inr ob
    \<and> mp_as_names mp ob = Inr (s, n)
    \<and> (\<forall>service_object result. InvokeHelper_Invoke mp m service_object ob result =
        call_result mp m service_object args result)"
proof -
  let ?tys = "ServiceNameAndMethodNameWithArgsTuple (FunctionTraits (mt_type m))"
  let ?vs = "mp_string mp s # mp_string mp n # args"
  have typed: "list_all2 has_type ?tys ?vs" and short: "length args + 2 < 2 ^ 32"
    using assms by (simp_all add: args_fit_def)
  obtain ob where ob: "mp_unpack mp (mp_pack_tuple mp ?vs) = Inr ob" "mp_as_tuple mp ?tys ob = Inr ?vs"
    using tuple_roundtrip [OF typed] short by auto
  have "mp_as_names mp ob = Inr (s, n)"
    using names_of_tuple [OF typed short ob(1)] .
  then show ?thesis
    using ob by (auto simp: PackArgsToBuffer_def InvokeHelper_Invoke_def call_result_def split: member_fn.split)
qed

end

section \<open>Properties\<close>

text \<open>
  The call passes the method the tuple without its first two elements, all of the
  rest and in order, whatever the number of arguments.
\<close>

theorem TraitAndCall_trims_names:
  "TraitAndCall f service_object (service_name # name # args) = f service_object args"
  by (rule TraitAndCall_cons)

text \<open>
  The tuple type arguments are unpacked to has two strings and then one type per
  parameter, and none of these is a reference or constant, so each can be created and assigned
  by the unpacker.
\<close>

theorem wire_types_are_values:
  assumes "\<forall>t \<in> set args. cpp_legal t"
  shows "take 2 (ServiceNameAndMethodNameWithArgsTuple (FunctionTraits (MemFn cls r args))) =
      [std_string, std_string]
    \<and> length (ServiceNameAndMethodNameWithArgsTuple (FunctionTraits (MemFn cls r args))) =
      ArgsNum (FunctionTraits (MemFn cls r args)) + 2
    \<and> (\<forall>t \<in> set (ServiceNameAndMethodNameWithArgsTuple (FunctionTraits (MemFn cls r args))).
        \<not> is_reference t \<and> \<not> is_const t)"
  using assms cpp_legal_remove_reference
  by (auto simp: BaseFunctionTraits_def std_string_def not_const_remove_const not_reference_remove_const)

text \<open>A method with a parameter \<^verbatim>\<open>const std::string &\<close>.\<close>

theorem wire_types_are_values_witness:
  "list_all (\<lambda>t. \<not> is_reference t \<and> \<not> is_const t)
     (ServiceNameAndMethodNameWithArgsTuple (FunctionTraits (MemFn ''Echoer'' std_string [LRef (Const std_string)])))"
  using wire_types_are_values [of "[LRef (Const std_string)]" "''Echoer''" std_string]
  by (simp add: std_string_def list_all_iff)

end
