(* ===== verification/Host_Bytes.thy ===== *)
theory Host_Bytes
  imports Dousi_Prelude
begin

text \<open>
  How a \<^verbatim>\<open>uint32_t\<close> lies in memory. \<^verbatim>\<open>AsioStream\<close> reads and writes its two frame fields
  through a \<^verbatim>\<open>reinterpret_cast<char *>\<close> of the integer, so what goes over the wire is the host's
  own byte order: a parameter of every definition that uses it. The lemmas are the two round
  trips between an integer and its four bytes.
\<close>

unbundle bit_operations_syntax

datatype byte_order = Little_endian | Big_endian

definition u32_to_le :: "u32 \<Rightarrow> bytes" where
  "u32_to_le x = [ucast x, ucast (drop_bit 8 x), ucast (drop_bit 16 x), ucast (drop_bit 24 x)]"

definition u32_from_le :: "bytes \<Rightarrow> u32" where
  "u32_from_le bs = foldr (\<lambda>b acc. ucast b OR push_bit 8 acc) bs 0"

definition store_u32 :: "byte_order \<Rightarrow> u32 \<Rightarrow> bytes" where
  "store_u32 en x = (case en of Little_endian \<Rightarrow> u32_to_le x | Big_endian \<Rightarrow> rev (u32_to_le x))"

definition load_u32 :: "byte_order \<Rightarrow> bytes \<Rightarrow> u32" where
  "load_u32 en bs = (case en of Little_endian \<Rightarrow> u32_from_le bs | Big_endian \<Rightarrow> u32_from_le (rev bs))"

lemma length_u32_to_le [simp]: "length (u32_to_le x) = 4"
  by (simp add: u32_to_le_def)

lemma length_store_u32 [simp]: "length (store_u32 en x) = 4"
  by (simp add: store_u32_def split: byte_order.split)

lemma u32_from_to_le [simp]: "u32_from_le (u32_to_le x) = x"
proof (rule bit_word_eqI)
  fix n
  assume "n < LENGTH(32)"
  then show "bit (u32_from_le (u32_to_le x)) n \<longleftrightarrow> bit x n"
    by (cases "n < 24"; cases "n < 16") (auto simp: u32_from_le_def u32_to_le_def bit_simps)
qed

lemma list_of_4:
  assumes "length bs = 4"
  obtains a b c d where "bs = [a, b, c, d]"
  using assms by (auto simp: numeral_eq_Suc length_Suc_conv)

lemma bit_byte_high [simp]:
  assumes "8 \<le> m"
  shows "\<not> bit (b :: byte) m"
proof
  assume "bit b m"
  then have "m < LENGTH(8)" by (rule bit_imp_le_length)
  with assms show False by simp
qed

lemma u32_to_from_le [simp]:
  assumes "length bs = 4"
  shows "u32_to_le (u32_from_le bs) = bs"
proof -
  obtain a b c d where bs: "bs = [a, b, c, d]"
    using assms by (rule list_of_4)
  show ?thesis
    unfolding bs u32_to_le_def u32_from_le_def
    by (auto simp: bit_simps intro!: bit_word_eqI)
qed

lemma load_store_u32 [simp]: "load_u32 en (store_u32 en x) = x"
  by (simp add: load_u32_def store_u32_def split: byte_order.split)

lemma store_load_u32 [simp]: "length bs = 4 \<Longrightarrow> store_u32 en (load_u32 en bs) = bs"
  by (simp add: load_u32_def store_u32_def split: byte_order.split)

lemma store_u32_other_order: "store_u32 Big_endian x = rev (store_u32 Little_endian x)"
  by (simp add: store_u32_def)

end
