(* ===== verification/Asio_Stream.thy ===== *)
theory Asio_Stream
  imports Host_Bytes
begin

text \<open>
  \<^verbatim>\<open>core/stream/stream.h\<close> and \<^verbatim>\<open>core/stream/stream.cc\<close>: the framed connection both sides talk
  over. The reader is a state machine: one \<^verbatim>\<open>async_read\<close> is outstanding, its completion
  handler issues the next. The writer starts one \<^verbatim>\<open>async_write\<close> per message. Boost.Asio is
  not part of the repository; what is used of it is its documentation: \<^verbatim>\<open>async_read\<close> calls its
  handler once the buffer is full or with an error, \<^verbatim>\<open>async_write\<close> sends its buffers through
  any number of \<^verbatim>\<open>async_write_some\<close> operations. The lemmas relate the reader to a parser of
  whole frames, and give the round trip of the framing under every segmentation of the bytes.
\<close>

section \<open>State\<close>

text \<open>Which read is outstanding, with the variables its handler captures.\<close>

datatype pending_read =
    No_read
  | Read_object_id
  | Read_header u32
  | Read_body u32 u32

text \<open>
  \<open>strm_inbuf\<close> are the bytes the socket has received and no completed read has consumed;
  \<open>strm_writes\<close> are the unsent bytes of each \<^verbatim>\<open>async_write\<close> in progress, oldest first.
\<close>

record stream =
  strm_id :: u64
  strm_pending :: pending_read
  strm_inbuf :: bytes
  strm_writes :: "bytes list"
  strm_open :: bool

text \<open>The arguments of \<^verbatim>\<open>invocation_callback_\<close>; the buffer's size is its length.\<close>

type_synonym message = "u64 \<times> u32 \<times> bytes"

definition AsioStream :: "u64 \<Rightarrow> stream" where
  "AsioStream stream_id =
     \<lparr>strm_id = stream_id, strm_pending = No_read, strm_inbuf = [], strm_writes = [],
      strm_open = True\<rparr>"

definition AsioStream_destructor :: "stream \<Rightarrow> stream" where
  "AsioStream_destructor s = s\<lparr>strm_open := False\<rparr>"

section \<open>The reader\<close>

definition DoReadObjectID :: "stream \<Rightarrow> stream" where
  "DoReadObjectID s = s\<lparr>strm_pending := Read_object_id\<rparr>"

definition DoReadHeader :: "u32 \<Rightarrow> stream \<Rightarrow> stream" where
  "DoReadHeader object_id s = s\<lparr>strm_pending := Read_header object_id\<rparr>"

definition DoReadBody :: "u32 \<Rightarrow> u32 \<Rightarrow> stream \<Rightarrow> stream" where
  "DoReadBody object_id body_size s = s\<lparr>strm_pending := Read_body object_id body_size\<rparr>"

definition Start :: "stream \<Rightarrow> stream" where
  "Start s = DoReadObjectID s"

text \<open>The completion handlers: \<open>failed\<close> is whether an error code is set.\<close>

definition on_object_id :: "byte_order \<Rightarrow> bool \<Rightarrow> bytes \<Rightarrow> stream \<Rightarrow> stream" where
  "on_object_id en failed buf s = (if failed then s else DoReadHeader (load_u32 en buf) s)"

definition on_header :: "byte_order \<Rightarrow> u32 \<Rightarrow> bool \<Rightarrow> bytes \<Rightarrow> stream \<Rightarrow> stream" where
  "on_header en object_id failed buf s =
     (if failed then s else DoReadBody object_id (load_u32 en buf) s)"

definition on_body :: "u32 \<Rightarrow> bool \<Rightarrow> bytes \<Rightarrow> stream \<Rightarrow> stream \<times> message option" where
  "on_body object_id failed buf s =
     (if failed then (s, None) else (DoReadObjectID s, Some (strm_id s, object_id, buf)))"

text \<open>The size of the buffer the outstanding read has to fill.\<close>

fun read_size :: "pending_read \<Rightarrow> nat" where
  "read_size No_read = 0"
| "read_size Read_object_id = 4"
| "read_size (Read_header _) = 4"
| "read_size (Read_body _ body_size) = unat body_size"

text \<open>Calling the handler of the outstanding read, which is then no longer outstanding.\<close>

fun complete_read ::
  "byte_order \<Rightarrow> pending_read \<Rightarrow> bool \<Rightarrow> bytes \<Rightarrow> stream \<Rightarrow> stream \<times> message option" where
  "complete_read en No_read failed buf s = (s, None)"
| "complete_read en Read_object_id failed buf s =
     (on_object_id en failed buf (s\<lparr>strm_pending := No_read\<rparr>), None)"
| "complete_read en (Read_header object_id) failed buf s =
     (on_header en object_id failed buf (s\<lparr>strm_pending := No_read\<rparr>), None)"
| "complete_read en (Read_body object_id _) failed buf s =
     on_body object_id failed buf (s\<lparr>strm_pending := No_read\<rparr>)"

text \<open>Whether the outstanding read can complete with the bytes that have arrived.\<close>

definition read_ready :: "stream \<Rightarrow> bool" where
  "read_ready s = (strm_pending s \<noteq> No_read \<and> read_size (strm_pending s) \<le> length (strm_inbuf s))"

definition read_step :: "byte_order \<Rightarrow> stream \<Rightarrow> stream \<times> message option" where
  "read_step en s =
     (let n = read_size (strm_pending s)
      in complete_read en (strm_pending s) False (take n (strm_inbuf s))
           (s\<lparr>strm_inbuf := drop n (strm_inbuf s)\<rparr>))"

text \<open>The peer closes or the connection breaks: the outstanding read ends with an error.\<close>

definition read_fail :: "byte_order \<Rightarrow> stream \<Rightarrow> stream" where
  "read_fail en s = fst (complete_read en (strm_pending s) True [] s)"

text \<open>
  The event loop while reads are ready. Every read but that of an empty body consumes bytes,
  and after an empty body the next read wants four: the measure counts both.
\<close>

definition body_pending :: "stream \<Rightarrow> nat" where
  "body_pending s = (case strm_pending s of Read_body _ _ \<Rightarrow> 1 | _ \<Rightarrow> 0)"

lemma read_step_object_id:
  assumes "strm_pending s = Read_object_id"
  shows "read_step en s =
    (s\<lparr>strm_inbuf := drop 4 (strm_inbuf s),
       strm_pending := Read_header (load_u32 en (take 4 (strm_inbuf s)))\<rparr>, None)"
  using assms by (simp add: read_step_def on_object_id_def DoReadHeader_def)

lemma read_step_header:
  assumes "strm_pending s = Read_header object_id"
  shows "read_step en s =
    (s\<lparr>strm_inbuf := drop 4 (strm_inbuf s),
       strm_pending := Read_body object_id (load_u32 en (take 4 (strm_inbuf s)))\<rparr>, None)"
  using assms by (simp add: read_step_def on_header_def DoReadBody_def)

lemma read_step_body:
  assumes "strm_pending s = Read_body object_id body_size"
  shows "read_step en s =
    (s\<lparr>strm_inbuf := drop (unat body_size) (strm_inbuf s), strm_pending := Read_object_id\<rparr>,
     Some (strm_id s, object_id, take (unat body_size) (strm_inbuf s)))"
  using assms by (simp add: read_step_def on_body_def DoReadObjectID_def Let_def)

lemmas read_step_simps = read_step_object_id read_step_header read_step_body

lemma read_step_measure:
  assumes ready: "read_ready s"
  shows "2 * length (strm_inbuf (fst (read_step en s))) + body_pending (fst (read_step en s))
       < 2 * length (strm_inbuf s) + body_pending s"
proof (cases "strm_pending s")
  case No_read
  with ready show ?thesis by (simp add: read_ready_def)
next
  case Read_object_id
  with ready have "4 \<le> length (strm_inbuf s)" by (simp add: read_ready_def)
  with Read_object_id show ?thesis by (simp add: read_step_object_id body_pending_def)
next
  case (Read_header object_id)
  with ready have "4 \<le> length (strm_inbuf s)" by (simp add: read_ready_def)
  with Read_header show ?thesis by (simp add: read_step_header body_pending_def)
next
  case (Read_body object_id body_size)
  then show ?thesis by (simp add: read_step_body body_pending_def)
qed

definition add_message :: "message option \<Rightarrow> message list \<Rightarrow> message list" where
  "add_message m ms = (case m of Some x \<Rightarrow> x # ms | None \<Rightarrow> ms)"

function read_loop :: "byte_order \<Rightarrow> stream \<Rightarrow> stream \<times> message list" where
  "read_loop en s =
     (if read_ready s
      then (fst (read_loop en (fst (read_step en s))),
            add_message (snd (read_step en s)) (snd (read_loop en (fst (read_step en s)))))
      else (s, []))"
  by pat_completeness auto
termination
  by (relation "measure (\<lambda>(en, s). 2 * length (strm_inbuf s) + body_pending s)")
    (simp_all add: read_step_measure)

declare read_loop.simps [simp del]

text \<open>Bytes arrive from the network and the loop runs.\<close>

definition receive :: "byte_order \<Rightarrow> bytes \<Rightarrow> stream \<Rightarrow> stream \<times> message list" where
  "receive en bs s = read_loop en (s\<lparr>strm_inbuf := strm_inbuf s @ bs\<rparr>)"

section \<open>The writer\<close>

definition Write_buffers :: "byte_order \<Rightarrow> u32 \<Rightarrow> bytes \<Rightarrow> bytes list" where
  "Write_buffers en object_id data =
     [store_u32 en object_id, store_u32 en (of_nat (length data)), data]"

definition Write :: "byte_order \<Rightarrow> u32 \<Rightarrow> bytes \<Rightarrow> stream \<Rightarrow> stream" where
  "Write en object_id data s =
     s\<lparr>strm_writes := strm_writes s @ [concat (Write_buffers en object_id data)]\<rparr>"

definition on_write :: "bool \<Rightarrow> stream \<Rightarrow> stream" where
  "on_write failed s = (if failed then s\<lparr>strm_open := False\<rparr> else s)"

text \<open>What one message looks like on the wire.\<close>

definition frame :: "byte_order \<Rightarrow> u32 \<times> bytes \<Rightarrow> bytes" where
  "frame en m = concat (Write_buffers en (fst m) (snd m))"

text \<open>
  One step of the operating system on the writes in progress: some bytes of one of them
  reach the wire, or one that has none left completes, or one fails.
\<close>

definition remove_nth :: "nat \<Rightarrow> 'a list \<Rightarrow> 'a list" where
  "remove_nth i xs = take i xs @ drop (Suc i) xs"

inductive write_step :: "stream \<times> bytes \<Rightarrow> stream \<times> bytes \<Rightarrow> bool" where
  write_some:
    "strm_open s \<Longrightarrow> i < length (strm_writes s) \<Longrightarrow> 0 < n \<Longrightarrow> n \<le> length (strm_writes s ! i) \<Longrightarrow>
     write_step (s, wire)
       (s\<lparr>strm_writes := (strm_writes s)[i := drop n (strm_writes s ! i)]\<rparr>,
        wire @ take n (strm_writes s ! i))"
| write_done:
    "i < length (strm_writes s) \<Longrightarrow> strm_writes s ! i = [] \<Longrightarrow>
     write_step (s, wire) (on_write False (s\<lparr>strm_writes := remove_nth i (strm_writes s)\<rparr>), wire)"
| write_failed:
    "i < length (strm_writes s) \<Longrightarrow>
     write_step (s, wire) (on_write True (s\<lparr>strm_writes := remove_nth i (strm_writes s)\<rparr>), wire)"

section \<open>What the reader promises: a parser of whole frames\<close>

function parse_frames :: "byte_order \<Rightarrow> bytes \<Rightarrow> (u32 \<times> bytes) list \<times> bytes" where
  "parse_frames en bs =
     (let object_id = load_u32 en (take 4 bs);
          body_size = unat (load_u32 en (take 4 (drop 4 bs)));
          body = drop 8 bs
      in if length bs < 8 \<or> length body < body_size then ([], bs)
         else ((object_id, take body_size body) # fst (parse_frames en (drop body_size body)),
               snd (parse_frames en (drop body_size body))))"
  by pat_completeness auto
termination
  by (relation "measure (\<lambda>(en, bs). length bs)") auto

declare parse_frames.simps [simp del]

lemma parse_frames_short: "length bs < 8 \<Longrightarrow> parse_frames en bs = ([], bs)"
  by (subst parse_frames.simps) (simp add: Let_def)

lemma parse_frames_header:
  "parse_frames en (store_u32 en object_id @ store_u32 en body_size @ bs) =
    (if length bs < unat body_size
     then ([], store_u32 en object_id @ store_u32 en body_size @ bs)
     else ((object_id, take (unat body_size) bs) # fst (parse_frames en (drop (unat body_size) bs)),
           snd (parse_frames en (drop (unat body_size) bs))))"
  by (subst parse_frames.simps) (simp add: Let_def)

text \<open>A byte list is shorter than a frame's two fields or starts with them.\<close>

lemma bytes_cases:
  obtains "length bs < 8"
  | object_id body_size rest where "bs = store_u32 en object_id @ store_u32 en body_size @ rest"
proof (cases "length bs < 8")
  case False
  have "bs = take 4 bs @ take 4 (drop 4 bs) @ drop 8 bs"
    by (metis add_numeral_left append_take_drop_id drop_drop numeral_plus_numeral semiring_norm(2)
        semiring_norm(6) semiring_norm(7) num.simps)
  with False that(2) [of "load_u32 en (take 4 bs)" "load_u32 en (take 4 (drop 4 bs))" "drop 8 bs"]
  show ?thesis by simp
qed (rule that(1))

text \<open>Parsing a concatenation: parse the first part, then what it left with the second.\<close>

lemma parse_frames_append:
  "parse_frames en (xs @ ys) =
    (fst (parse_frames en xs) @ fst (parse_frames en (snd (parse_frames en xs) @ ys)),
     snd (parse_frames en (snd (parse_frames en xs) @ ys)))"
proof (induction "length xs" arbitrary: xs rule: less_induct)
  case less
  show ?case
  proof (cases xs rule: bytes_cases [where en = en])
    case 1
    then show ?thesis by (simp add: parse_frames_short)
  next
    case (2 object_id body_size rest)
    show ?thesis
    proof (cases "length rest < unat body_size")
      case True
      with 2 show ?thesis by (simp add: parse_frames_header)
    next
      case False
      then have "length (drop (unat body_size) rest) < length xs"
        using 2 by simp
      note IH = less [OF this]
      from False 2 show ?thesis by (simp add: parse_frames_header IH)
    qed
  qed
qed

lemma frame_eq:
  "frame en (object_id, data) = store_u32 en object_id @ store_u32 en (of_nat (length data)) @ data"
  by (simp add: frame_def Write_buffers_def)

lemma unat_body_size:
  "length data < 2 ^ 32 \<Longrightarrow> unat (of_nat (length data) :: u32) = length data"
  by (simp add: unat_of_nat_u32)

lemma parse_frames_frame:
  assumes "length data < 2 ^ 32"
  shows "parse_frames en (frame en (object_id, data) @ bs) =
    ((object_id, data) # fst (parse_frames en bs), snd (parse_frames en bs))"
  using unat_body_size [OF assms] by (simp add: frame_eq parse_frames_header)

lemma parse_frames_concat:
  assumes "\<forall>m \<in> set ms. length (snd m) < 2 ^ 32"
  shows "parse_frames en (concat (map (frame en) ms) @ bs) =
    (ms @ fst (parse_frames en bs), snd (parse_frames en bs))"
  using assms by (induction ms) (auto simp: parse_frames_frame)

section \<open>The reader refines the parser\<close>

text \<open>
  The abstraction of a reader: the bytes of the message it is in the middle of, those its
  handlers have already captured included.
\<close>

definition unread :: "byte_order \<Rightarrow> stream \<Rightarrow> bytes" where
  "unread en s = (case strm_pending s of
       No_read \<Rightarrow> []
     | Read_object_id \<Rightarrow> strm_inbuf s
     | Read_header object_id \<Rightarrow> store_u32 en object_id @ strm_inbuf s
     | Read_body object_id body_size \<Rightarrow>
         store_u32 en object_id @ store_u32 en body_size @ strm_inbuf s)"

definition reading :: "stream \<Rightarrow> bool" where
  "reading s = (strm_pending s \<noteq> No_read)"

lemma reading_Start [simp, inv_intros]: "reading (Start s)"
  by (simp add: reading_def Start_def DoReadObjectID_def)

lemma unread_Start [simp]: "unread en (Start s) = strm_inbuf s"
  by (simp add: unread_def Start_def DoReadObjectID_def)

lemma unread_more [simp]:
  "reading s \<Longrightarrow> unread en (s\<lparr>strm_inbuf := strm_inbuf s @ bs\<rparr>) = unread en s @ bs"
  by (simp add: unread_def reading_def split: pending_read.splits)

lemma reading_inbuf [simp]: "reading (s\<lparr>strm_inbuf := bs\<rparr>) = reading s"
  by (simp add: reading_def)

lemma read_step_reading [inv_intros]:
  "read_ready s \<Longrightarrow> reading (fst (read_step en s))"
  by (cases "strm_pending s") (simp_all add: reading_def read_ready_def read_step_simps)

lemma read_step_id [simp]: "strm_id (fst (read_step en s)) = strm_id s"
  by (cases "strm_pending s") (simp_all add: read_step_simps, simp add: read_step_def Let_def)

text \<open>One completed read is zero or one step of the parser.\<close>

lemma read_step_refines:
  assumes "read_ready s"
  shows "parse_frames en (unread en s) =
    (map snd (add_message (snd (read_step en s)) []) @
       fst (parse_frames en (unread en (fst (read_step en s)))),
     snd (parse_frames en (unread en (fst (read_step en s)))))"
proof (cases "strm_pending s")
  case No_read
  with assms show ?thesis by (simp add: read_ready_def)
next
  case Read_object_id
  with assms have "4 \<le> length (strm_inbuf s)" by (simp add: read_ready_def)
  with Read_object_id show ?thesis by (simp add: read_step_simps unread_def add_message_def)
next
  case (Read_header object_id)
  with assms have "4 \<le> length (strm_inbuf s)" by (simp add: read_ready_def)
  with Read_header show ?thesis by (simp add: read_step_simps unread_def add_message_def)
next
  case (Read_body object_id body_size)
  with assms have "\<not> length (strm_inbuf s) < unat body_size" by (simp add: read_ready_def)
  with Read_body show ?thesis
    by (simp add: read_step_simps unread_def add_message_def parse_frames_header)
qed

lemma not_ready_parses_nothing:
  assumes "\<not> read_ready s" and "reading s"
  shows "parse_frames en (unread en s) = ([], unread en s)"
proof (cases "strm_pending s")
  case (Read_body object_id body_size)
  with assms show ?thesis by (simp add: read_ready_def unread_def parse_frames_header)
qed (use assms in \<open>simp_all add: read_ready_def reading_def unread_def parse_frames_short\<close>)

lemma add_message_snoc: "add_message m ms = add_message m [] @ ms"
  by (simp add: add_message_def split: option.split)

lemma read_loop_id [simp]: "strm_id (fst (read_loop en s)) = strm_id s"
  by (induction en s rule: read_loop.induct) (subst read_loop.simps, auto)

lemma read_loop_refines:
  assumes "reading s"
  shows "parse_frames en (unread en s) =
      (map snd (snd (read_loop en s)), unread en (fst (read_loop en s)))
    \<and> reading (fst (read_loop en s)) \<and> \<not> read_ready (fst (read_loop en s))"
  using assms
proof (induction en s rule: read_loop.induct)
  case (1 en s)
  show ?case
  proof (cases "read_ready s")
    case True
    note IH = "1.IH" [OF True read_step_reading [OF True]]
    have "map snd (snd (read_loop en s)) =
        map snd (add_message (snd (read_step en s)) []) @ map snd (snd (read_loop en (fst (read_step en s))))"
      using True by (simp add: read_loop.simps [of en s] add_message_snoc [of _ "snd (read_loop _ _)"])
    moreover have "fst (read_loop en s) = fst (read_loop en (fst (read_step en s)))"
      using True by (simp add: read_loop.simps [of en s])
    ultimately show ?thesis
      using IH read_step_refines [OF True, of en] by simp
  next
    case False
    with "1.prems" show ?thesis
      by (simp add: read_loop.simps [of en s] not_ready_parses_nothing)
  qed
qed

section \<open>Receiving\<close>

fun receive_all :: "byte_order \<Rightarrow> bytes list \<Rightarrow> stream \<Rightarrow> stream \<times> message list" where
  "receive_all en [] s = (s, [])"
| "receive_all en (bs # chunks) s =
     (fst (receive_all en chunks (fst (receive en bs s))),
      snd (receive en bs s) @ snd (receive_all en chunks (fst (receive en bs s))))"

lemma read_loop_message_ids: "m \<in> set (snd (read_loop en s)) \<Longrightarrow> fst m = strm_id s"
proof (induction en s rule: read_loop.induct)
  case (1 en s)
  show ?case
  proof (cases "read_ready s")
    case True
    have step: "snd (read_step en s) = None \<or> (\<exists>x. snd (read_step en s) = Some (strm_id s, x))"
      using True by (cases "strm_pending s") (simp_all add: read_ready_def read_step_simps)
    from True "1.prems" have "m \<in> set (add_message (snd (read_step en s))
        (snd (read_loop en (fst (read_step en s)))))"
      by (simp add: read_loop.simps [of en s])
    with step "1.IH" [OF True] show ?thesis
      by (auto simp: add_message_def)
  next
    case False
    with "1.prems" show ?thesis by (simp add: read_loop.simps [of en s])
  qed
qed

lemma receive_reading [inv_intros]: "reading s \<Longrightarrow> reading (fst (receive en bs s))"
  by (simp add: receive_def read_loop_refines)

lemma receive_parses:
  assumes "reading s"
  shows "parse_frames en (unread en s @ bs) =
    (map snd (snd (receive en bs s)), unread en (fst (receive en bs s)))"
proof -
  have "reading (s\<lparr>strm_inbuf := strm_inbuf s @ bs\<rparr>)" using assms by simp
  from read_loop_refines [OF this, of en] assms show ?thesis
    by (simp add: receive_def)
qed

lemma receive_frames:
  assumes "reading s" and "unread en s = []" and "\<forall>m \<in> set ms. length (snd m) < 2 ^ 32"
  shows "snd (receive en (concat (map (frame en) ms)) s) = map (Pair (strm_id s)) ms"
proof -
  let ?rs = "snd (receive en (concat (map (frame en) ms)) s)"
  have "map snd ?rs = ms"
    using receive_parses [OF assms(1), of en "concat (map (frame en) ms)"] assms(2)
      parse_frames_concat [OF assms(3), of en "[]"] by (simp add: parse_frames_short)
  moreover have "map (Pair (strm_id s)) (map snd ?rs) = ?rs"
    using read_loop_message_ids [of _ en "s\<lparr>strm_inbuf := strm_inbuf s @ concat (map (frame en) ms)\<rparr>"]
    by (simp add: receive_def comp_def) (rule map_idI, force)
  ultimately show ?thesis by simp
qed

lemma receive_one_frame:
  assumes "reading s" and "unread en s = []" and "length data < 2 ^ 32"
  shows "snd (receive en (frame en (object_id, data)) s) = [(strm_id s, object_id, data)]"
  using receive_frames [OF assms(1,2), of "[(object_id, data)]"] assms(3) by simp

lemma read_step_writes [simp]: "strm_writes (fst (read_step en s)) = strm_writes s"
  by (cases "strm_pending s") (simp_all add: read_step_simps, simp add: read_step_def Let_def)

lemma read_loop_writes: "strm_writes (fst (read_loop en s)) = strm_writes s"
  by (induction en s rule: read_loop.induct) (subst read_loop.simps, auto)

lemma receive_writes [simp]: "strm_writes (fst (receive en bs s)) = strm_writes s"
  by (simp add: receive_def read_loop_writes)

lemma receive_id [simp]: "strm_id (fst (receive en bs s)) = strm_id s"
  by (simp add: receive_def)

text \<open>
  C10: receiving bytes refines the parser of whole frames: for a stream that is reading,
  the messages handed to the callback are the frames that the bytes of the unfinished message
  and the new bytes make up, the bytes that are left are those of the next unfinished message,
  each message carries the stream's id, and the stream goes on reading.
\<close>

theorem receive_refines_parser:
  assumes "reading s"
  shows "parse_frames en (unread en s @ bs) =
      (map snd (snd (receive en bs s)), unread en (fst (receive en bs s)))
    \<and> (\<forall>m \<in> set (snd (receive en bs s)). fst m = strm_id s)
    \<and> reading (fst (receive en bs s))"
proof -
  have "\<forall>m \<in> set (snd (receive en bs s)). fst m = strm_id s"
    using read_loop_message_ids by (fastforce simp: receive_def)
  with receive_parses [OF assms] receive_reading [OF assms] show ?thesis by blast
qed

theorem receive_refines_parser_witness:
  "parse_frames Little_endian (unread Little_endian (Start (AsioStream 3)) @ [1, 0]) =
    (map snd (snd (receive Little_endian [1, 0] (Start (AsioStream 3)))),
     unread Little_endian (fst (receive Little_endian [1, 0] (Start (AsioStream 3)))))"
  using receive_refines_parser [of "Start (AsioStream 3)"] by simp

lemma receive_all_parses:
  assumes "reading s"
  shows "parse_frames en (unread en s @ concat chunks) =
      (map snd (snd (receive_all en chunks s)) @ fst (parse_frames en (unread en (fst (receive_all en chunks s)))),
       snd (parse_frames en (unread en (fst (receive_all en chunks s)))))
    \<and> reading (fst (receive_all en chunks s))"
  using assms
proof (induction chunks arbitrary: s)
  case (Cons bs chunks)
  note IH = Cons.IH [OF receive_reading [OF Cons.prems], of en bs]
  show ?case
    using IH receive_parses [OF Cons.prems, of en bs]
      parse_frames_append [of en "unread en s @ bs" "concat chunks"]
    by simp
qed simp

text \<open>Between two rounds of the loop an unfinished message holds no complete frame.\<close>

definition settled :: "byte_order \<Rightarrow> stream \<Rightarrow> bool" where
  "settled en s = (parse_frames en (unread en s) = ([], unread en s))"

lemma receive_settled [inv_intros]:
  assumes "reading s"
  shows "settled en (fst (receive en bs s))"
proof -
  have "reading (s\<lparr>strm_inbuf := strm_inbuf s @ bs\<rparr>)" using assms by simp
  from read_loop_refines [OF this, of en] show ?thesis
    by (simp add: settled_def receive_def not_ready_parses_nothing)
qed

lemma receive_all_settled [inv_intros]:
  "reading s \<Longrightarrow> settled en s \<Longrightarrow> settled en (fst (receive_all en chunks s))"
  by (induction chunks arbitrary: s) (simp_all add: receive_settled receive_reading)

lemma settled_Start [simp]: "settled en (Start (AsioStream i))"
  by (simp add: settled_def AsioStream_def parse_frames_short)

lemma receive_all_from_start:
  "(map snd (snd (receive_all en chunks (Start (AsioStream i)))),
    unread en (fst (receive_all en chunks (Start (AsioStream i))))) =
   parse_frames en (concat chunks)"
proof -
  let ?s = "Start (AsioStream i)"
  have "settled en (fst (receive_all en chunks ?s))"
    by (simp add: inv_intros)
  then show ?thesis
    using receive_all_parses [of ?s en chunks] by (simp add: settled_def AsioStream_def)
qed

text \<open>
  C2: the round trip of the framing. However the network cuts the bytes of a sequence of
  messages into segments, a new stream that receives them hands exactly these messages to its
  callback, in order, and is left with no unread byte.
\<close>

theorem framing_roundtrip:
  assumes "concat chunks = concat (map (frame en) ms)"
    and "\<forall>m \<in> set ms. length (snd m) < 2 ^ 32"
  shows "map snd (snd (receive_all en chunks (Start (AsioStream i)))) = ms
    \<and> unread en (fst (receive_all en chunks (Start (AsioStream i)))) = []"
  using receive_all_from_start [of en chunks i] parse_frames_concat [OF assms(2), of en "[]"] assms(1)
  by (simp add: parse_frames_short)

theorem framing_roundtrip_witness:
  "map snd (snd (receive_all Little_endian [[7, 0], [0, 0, 2, 0], [0, 0, 65], [66]] (Start (AsioStream 0))))
    = [(7, [65, 66])]"
proof -
  have "concat [[7, 0], [0, 0, 2, 0], [0, 0, 65], [66]] =
      concat (map (frame Little_endian) [(7, [65, 66])])"
    by (simp add: frame_eq store_u32_def u32_to_le_def)
  from framing_roundtrip [OF this, of 0] show ?thesis by simp
qed

text \<open>
  A reader never runs ahead and never reorders: when only some first part of the
  bytes of a sequence of messages has arrived, what has been handed over is a first part of
  the sequence.
\<close>

theorem partial_bytes_partial_messages:
  assumes "concat chunks @ rest = concat (map (frame en) ms)"
    and "\<forall>m \<in> set ms. length (snd m) < 2 ^ 32"
  shows "\<exists>later. ms = map snd (snd (receive_all en chunks (Start (AsioStream i)))) @ later"
proof -
  have "parse_frames en (concat chunks @ rest) = (ms, [])"
    using parse_frames_concat [OF assms(2), of en "[]"] assms(1) by (simp add: parse_frames_short)
  then have "fst (parse_frames en (concat chunks)) @
      fst (parse_frames en (snd (parse_frames en (concat chunks)) @ rest)) = ms"
    by (simp add: parse_frames_append [of en "concat chunks" rest])
  moreover have "fst (parse_frames en (concat chunks)) =
      map snd (snd (receive_all en chunks (Start (AsioStream i))))"
    using receive_all_from_start [of en chunks i] by (metis fst_conv)
  ultimately show ?thesis by metis
qed

theorem partial_bytes_partial_messages_witness:
  "\<exists>later. [(7, [65, 66])] =
    map snd (snd (receive_all Little_endian [[7, 0], [0, 0, 2, 0]] (Start (AsioStream 0)))) @ later"
  by (rule partial_bytes_partial_messages [where rest = "[0, 0, 65, 66]"])
    (simp_all add: frame_eq store_u32_def u32_to_le_def)

text \<open>
  The size field holds the data's size modulo 2 to the 32: the receiver takes the
  data of a message of 4 GiB or more for a shorter message, followed by more frames.
\<close>

theorem oversized_message_truncated:
  "parse_frames en (frame en (object_id, data)) =
    ((object_id, take (length data mod 2 ^ 32) data)
       # fst (parse_frames en (drop (length data mod 2 ^ 32) data)),
     snd (parse_frames en (drop (length data mod 2 ^ 32) data)))"
proof -
  have "\<not> length data < length data mod 2 ^ 32" by (simp add: not_less)
  then show ?thesis
    by (simp only: frame_eq parse_frames_header unat_of_nat_u32 if_False)
qed

lemma bit_small_nat:
  assumes "n < 256" and "8 \<le> m"
  shows "\<not> bit (n :: nat) m"
proof -
  have "(256 :: nat) \<le> 2 ^ m"
    using power_increasing [OF assms(2), of "2 :: nat"] by simp
  with assms(1) show ?thesis by (simp add: bit_iff_odd)
qed

lemma byte_swap_small:
  assumes "n < 256"
  shows "u32_from_le (rev (u32_to_le (of_nat n))) = push_bit 24 (of_nat n)"
  by (intro bit_word_eqI)
    (auto simp: u32_from_le_def u32_to_le_def bit_simps bit_small_nat [OF assms])

lemma unat_byte_swap_small:
  assumes "n < 256"
  shows "unat (load_u32 Big_endian (store_u32 Little_endian (of_nat n))) = n * 2 ^ 24"
proof -
  have "load_u32 Big_endian (store_u32 Little_endian (of_nat n)) = of_nat (n * 2 ^ 24)"
    using assms by (simp add: load_u32_def store_u32_def byte_swap_small push_bit_eq_mult)
  also have "unat \<dots> = n * 2 ^ 24"
    using assms by (simp only: unat_of_nat_u32) simp
  finally show ?thesis .
qed

text \<open>
  The byte order is not converted: a message of 1 to 255 bytes sent by a little-endian
  host is never delivered by a big-endian host, which takes its size for that many times
  16777216 bytes and waits for them.
\<close>

theorem byte_order_mismatch:
  assumes "data \<noteq> []" and "length data < 256"
  shows "snd (receive Big_endian (frame Little_endian (object_id, data)) (Start (AsioStream i))) = []"
proof -
  let ?size = "load_u32 Big_endian (store_u32 Little_endian (of_nat (length data)))"
  let ?oid = "load_u32 Big_endian (store_u32 Little_endian object_id)"
  have "frame Little_endian (object_id, data) = store_u32 Big_endian ?oid @ store_u32 Big_endian ?size @ data"
    by (simp add: frame_eq)
  moreover have "length data < unat ?size"
    using assms by (simp add: unat_byte_swap_small)
  ultimately have "fst (parse_frames Big_endian (frame Little_endian (object_id, data))) = []"
    by (simp only: parse_frames_header if_True fst_conv)
  then show ?thesis
    using receive_parses [of "Start (AsioStream i)" Big_endian "frame Little_endian (object_id, data)"]
    by (simp add: AsioStream_def)
qed

theorem byte_order_mismatch_witness:
  "snd (receive Big_endian (frame Little_endian (0, [65])) (Start (AsioStream 0))) = []"
  by (rule byte_order_mismatch) simp_all

text \<open>
  After a read error no read is issued again: the handlers return, and bytes that
  arrive later are never handed to the callback.
\<close>

theorem read_error_is_final:
  "receive en bs (read_fail en s) = ((read_fail en s)\<lparr>strm_inbuf := strm_inbuf s @ bs\<rparr>, [])"
proof -
  have "strm_pending (read_fail en s) = No_read" "strm_inbuf (read_fail en s) = strm_inbuf s"
    by (cases "strm_pending s"; simp add: read_fail_def on_object_id_def on_header_def on_body_def)+
  then show ?thesis
    by (simp add: receive_def read_loop.simps [of en "_\<lparr>strm_inbuf := _\<rparr>"] read_ready_def)
qed

section \<open>Writing\<close>

text \<open>
  Runs of the operating system on the writes in progress. \<open>alone w0\<close> says that the bytes
  sent and those left of the one write make up the message, or that the write has ended.
\<close>

definition write_alone :: "bytes \<Rightarrow> bytes \<Rightarrow> stream \<times> bytes \<Rightarrow> bool" where
  "write_alone wire msg c =
     ((\<exists>left. strm_writes (fst c) = [left] \<and> snd c @ left = wire @ msg)
      \<or> strm_writes (fst c) = [] \<and>
        (strm_open (fst c) \<longrightarrow> snd c = wire @ msg) \<and> (\<exists>lost. snd c @ lost = wire @ msg))"

inductive_cases write_step_elim: "write_step (s, wire) c"

lemma write_step_alone:
  assumes "write_step c c'" and "write_alone wire msg c"
  shows "write_alone wire msg c'"
  using assms
  by (cases rule: write_step.cases) (auto simp: write_alone_def remove_nth_def on_write_def)

lemma write_steps_alone:
  assumes "write_step\<^sup>*\<^sup>* c c'" and "write_alone wire msg c"
  shows "write_alone wire msg c'"
  using assms by (induction rule: rtranclp_induct) (auto intro: write_step_alone)

text \<open>
  C22: a message written while no other write of the stream is in progress reaches the
  wire whole: however the operating system splits the write, when it has ended the wire holds
  the message's frame after what it held before, or the write failed, the socket is closed
  and only a first part of the frame was sent.
\<close>

theorem single_write_intact:
  assumes "write_step\<^sup>*\<^sup>* (Write en object_id data s, wire) (s', wire')"
    and "strm_writes s = []" and "strm_writes s' = []"
  shows "(strm_open s' \<longrightarrow> wire' = wire @ frame en (object_id, data))
    \<and> (\<exists>lost. wire' @ lost = wire @ frame en (object_id, data))"
proof -
  have "write_alone wire (frame en (object_id, data)) (Write en object_id data s, wire)"
    using assms(2) by (simp add: write_alone_def Write_def frame_def)
  from write_steps_alone [OF assms(1) this] assms(3) show ?thesis
    by (simp add: write_alone_def)
qed

text \<open>Sending one whole write, the first or the second of two, as a run of steps.\<close>

lemma write_all_of:
  assumes "strm_open s" and "i < length (strm_writes s)" and "strm_writes s ! i \<noteq> []"
  shows "write_step\<^sup>*\<^sup>* (s, wire)
    (s\<lparr>strm_writes := remove_nth i (strm_writes s)\<rparr>, wire @ strm_writes s ! i)"
proof -
  let ?s = "s\<lparr>strm_writes := (strm_writes s)[i := []]\<rparr>"
  have "write_step (s, wire) (?s, wire @ strm_writes s ! i)"
    using write_some [of s i "length (strm_writes s ! i)" wire] assms by simp
  moreover have "write_step (?s, wire @ strm_writes s ! i)
      (on_write False (?s\<lparr>strm_writes := remove_nth i (strm_writes ?s)\<rparr>), wire @ strm_writes s ! i)"
    using write_done [of i ?s "wire @ strm_writes s ! i"] assms by simp
  moreover have "remove_nth i (strm_writes ?s) = remove_nth i (strm_writes s)"
    by (simp add: remove_nth_def)
  ultimately show ?thesis
    by (simp add: on_write_def)
qed

theorem single_write_intact_witness:
  "\<exists>s'. write_step\<^sup>*\<^sup>* (Write Little_endian 7 [65] (AsioStream 0), []) (s', [7, 0, 0, 0, 1, 0, 0, 0, 65])
     \<and> strm_writes s' = [] \<and> [7, 0, 0, 0, 1, 0, 0, 0, 65] = frame Little_endian (7, [65])"
proof -
  let ?s = "Write Little_endian 7 [65] (AsioStream 0)"
  let ?t = "?s\<lparr>strm_writes := []\<rparr>"
  have bytes: "frame Little_endian (7, [65]) = [7, 0, 0, 0, 1, 0, 0, 0, 65]"
    by (simp add: frame_eq store_u32_def u32_to_le_def)
  have "write_step\<^sup>*\<^sup>* (?s, []) (?t, frame Little_endian (7, [65]))"
    using write_all_of [of ?s 0 "[]"]
    by (simp add: Write_def AsioStream_def frame_def remove_nth_def Write_buffers_def)
  then have run: "write_step\<^sup>*\<^sup>* (?s, []) (?t, [7, 0, 0, 0, 1, 0, 0, 0, 65])"
    by (simp only: bytes)
  have "strm_open ?t \<longrightarrow> [7, 0, 0, 0, 1, 0, 0, 0, 65] = [] @ frame Little_endian (7, [65])"
    by (rule single_write_intact [OF run, THEN conjunct1]) (simp_all add: AsioStream_def)
  then have "[7, 0, 0, 0, 1, 0, 0, 0, 65] = frame Little_endian (7, [65])"
    by (simp only: append_Nil) (simp add: Write_def AsioStream_def)
  with run show ?thesis by (intro exI [of _ ?t]) simp
qed

text \<open>
  C16: nothing in the code makes a write wait for the one before it. When two messages
  are written one after the other, as a client's first two calls or two writer threads of the
  server do, the operating system may send the second between the object id and the size of
  the first without any write failing; the receiver then delivers under object id 0 one byte
  of the second message's size field, whatever the two messages are.
\<close>

theorem overlapping_writes_corrupt:
  fixes en :: byte_order and data0 data1 :: bytes
  defines "s \<equiv> Write en 1 data1 (Write en 0 data0 (AsioStream 0))"
  shows "\<exists>s' wire rest. write_step\<^sup>*\<^sup>* (s, []) (s', wire) \<and> strm_writes s' = [] \<and> strm_open s'
    \<and> fst (parse_frames en wire) = (0, [hd (store_u32 en (of_nat (length data1)))]) # rest"
proof -
  let ?f0 = "store_u32 en 0" and ?f1 = "store_u32 en 1"
  let ?r0 = "store_u32 en (of_nat (length data0)) @ data0"
  let ?r1 = "store_u32 en (of_nat (length data1)) @ data1"
  have s: "strm_writes s = [?f0 @ ?r0, ?f1 @ ?r1]" "strm_open s"
    by (simp_all add: s_def Write_def AsioStream_def Write_buffers_def)
  let ?s1 = "s\<lparr>strm_writes := [?r0, ?f1 @ ?r1]\<rparr>"
  let ?s2 = "s\<lparr>strm_writes := [?r0]\<rparr>" and ?s3 = "s\<lparr>strm_writes := []\<rparr>"
  have nonempty: "store_u32 en x \<noteq> []" for x
    by (metis length_store_u32 list.size(3) zero_neq_numeral)
  have "write_step (s, []) (?s1, ?f0)"
    using write_some [of s 0 4 "[]"] s by simp
  moreover have "write_step\<^sup>*\<^sup>* (?s1, ?f0) (?s2, ?f0 @ ?f1 @ ?r1)"
    using write_all_of [of ?s1 1 ?f0] s(2) nonempty by (simp add: remove_nth_def)
  moreover have "write_step\<^sup>*\<^sup>* (?s2, ?f0 @ ?f1 @ ?r1) (?s3, (?f0 @ ?f1 @ ?r1) @ ?r0)"
    using write_all_of [of ?s2 0 "?f0 @ ?f1 @ ?r1"] s(2) nonempty by (simp add: remove_nth_def)
  ultimately have run: "write_step\<^sup>*\<^sup>* (s, []) (?s3, (?f0 @ ?f1 @ ?r1) @ ?r0)"
    by (meson converse_rtranclp_into_rtranclp rtranclp_trans)
  have "(1 :: nat) \<le> length (?r1 @ ?r0)" by simp
  then have "\<exists>rest. fst (parse_frames en ((?f0 @ ?f1 @ ?r1) @ ?r0)) =
      (0, take 1 (store_u32 en (of_nat (length data1)))) # rest"
    using parse_frames_header [of en 0 1 "?r1 @ ?r0"] by (simp add: not_less)
  moreover have "take 1 (store_u32 en x) = [hd (store_u32 en x)]" for x
    using nonempty [of x] by (cases "store_u32 en x") simp_all
  ultimately show ?thesis
    using run s(2) by (intro exI [of _ ?s3] exI [of _ "(?f0 @ ?f1 @ ?r1) @ ?r0"]) auto
qed

end
