(* ===== verification/Executor.thy ===== *)
theory Executor
  imports Endpoint Concurrent_Queues IO_Thread_Pool Nameof Invocation Asio_Stream
begin

text \<open>
  The server's runtime: \<^verbatim>\<open>core/executor/executor.h\<close>, \<^verbatim>\<open>executor.cc\<close>, \<^verbatim>\<open>dousi_request.h\<close>,
  \<^verbatim>\<open>dousi_service.h\<close> and \<^verbatim>\<open>abstract_service.h\<close>. The executor's fields are a record, each method
  a function on it; an exception or undefined behaviour is the left value of the result, and
  as no thread of the server catches anything it ends the process. The Boost queues and
  MessagePack are parameters. Statements of the log are left out: they write to the logging
  state only.
\<close>

section \<open>Requests, responses and services\<close>

record 'o DousiRequest =
  req_object_id :: u32
  req_stream_id :: u64
  req_unpacked :: 'o
  req_method_name :: string

record DousiResponse =
  rsp_object_id :: u32
  rsp_stream_id :: u64
  rsp_result :: bytes

text \<open>
  A \<^verbatim>\<open>DousiService\<close>: its name, which no constructor sets, and the address of the service
  object its shared pointer keeps alive.
\<close>

record DousiService =
  service_name :: string
  service_object :: nat

definition GetServiceName_of :: "DousiService \<Rightarrow> string" where
  "GetServiceName_of d = service_name d"

text \<open>A registered method: the bound method pointer and the bound \<^verbatim>\<open>DousiService *\<close>.\<close>

record ('s, 'v) closure =
  cl_method :: "('s, 'v) method_pointer"
  cl_service_instance :: nat

section \<open>The executor\<close>

record ('v, 'o, 'q, 'r) libs =
  lb_order :: byte_order
  lb_msgpack :: "('v, 'o) msgpack"
  lb_requests :: "('o DousiRequest, 'q) lockfree"
  lb_responses :: "(DousiResponse, 'r) lockfree"

text \<open>
  \<open>registered_methods\<close> maps a name to a \<^verbatim>\<open>std::function\<close>, which may be empty. The instances
  of \<^verbatim>\<open>DousiService\<close> live in the scopes of the user's program: \<open>instances\<close> are those alive,
  by address; \<open>objects\<close> are the service objects, by address; \<open>next_addr\<close> is a fresh one.
  \<open>acceptor\<close> is the address listened on, with whether it is still open.
\<close>

record ('s, 'v, 'q, 'r) executor =
  executor_options :: ExecutorOptions
  curr_stream_id :: u64
  created_services :: "string \<rightharpoonup> nat"
  registered_methods :: "string \<rightharpoonup> ('s, 'v) closure option"
  acceptor :: "((tcp_address \<times> u16) \<times> bool) option"
  streams :: "u64 \<rightharpoonup> stream"
  request_queue :: 'q
  response_queue :: 'r
  work_thread_pool :: nat
  write_thread_pool :: nat
  io_pool :: io_thread_pool
  listening_addr :: string
  instances :: "nat \<rightharpoonup> DousiService"
  objects :: "nat \<rightharpoonup> 's"
  next_addr :: nat

definition Executor :: "('v, 'o, 'q, 'r) libs \<Rightarrow> ExecutorOptions \<Rightarrow> ('s, 'v, 'q, 'r) executor" where
  "Executor lb options =
     \<lparr>executor_options = options, curr_stream_id = 0, created_services = Map.empty,
      registered_methods = Map.empty, acceptor = None, streams = Map.empty,
      request_queue = BoostLockFreeQueue (lb_requests lb),
      response_queue = BoostLockFreeQueue (lb_responses lb),
      work_thread_pool = unat (work_thread_num options), write_thread_pool = 8,
      io_pool = IOThreadPool (io_thread_num options), listening_addr = [],
      instances = Map.empty, objects = Map.empty, next_addr = 0\<rparr>"

definition Init :: "string \<Rightarrow> ('s, 'v, 'q, 'r) executor \<Rightarrow> ('s, 'v, 'q, 'r) executor res" where
  "Init listening_address e =
     (let e = e\<lparr>listening_addr := listening_address\<rparr>
      in res_bind (Endpoint_of_address listening_address)
           (\<lambda>endpoint. Inr (e\<lparr>acceptor := Some (GetTcpEndpoint endpoint, True)\<rparr>)))"

definition Shutdown :: "('s, 'v, 'q, 'r) executor \<Rightarrow> ('s, 'v, 'q, 'r) executor res" where
  "Shutdown e = (case acceptor e of
       None \<Rightarrow> Inl Null_deref
     | Some (addr, _) \<Rightarrow> Inr (e\<lparr>acceptor := Some (addr, False)\<rparr>))"

definition GetListeningAddr :: "('s, 'v, 'q, 'r) executor \<Rightarrow> string" where
  "GetListeningAddr e = listening_addr e"

definition RequestStreamID :: "('s, 'v, 'q, 'r) executor \<Rightarrow> u64 \<times> ('s, 'v, 'q, 'r) executor" where
  "RequestStreamID e = (curr_stream_id e, e\<lparr>curr_stream_id := curr_stream_id e + 1\<rparr>)"

text \<open>
  \<^verbatim>\<open>CreateService\<close> makes the service object and returns a \<^verbatim>\<open>DousiService\<close> by value, into a
  variable of the caller: its address is the first component.
\<close>

definition CreateService ::
  "string \<Rightarrow> 's \<Rightarrow> ('s, 'v, 'q, 'r) executor \<Rightarrow> nat \<times> ('s, 'v, 'q, 'r) executor" where
  "CreateService name service_ptr e =
     (let ob = next_addr e; inst = next_addr e + 1
      in (inst,
          e\<lparr>objects := (objects e)(ob \<mapsto> service_ptr),
            created_services := (created_services e)(name \<mapsto> ob),
            instances := (instances e)(inst \<mapsto> \<lparr>service_name = [], service_object = ob\<rparr>),
            next_addr := next_addr e + 2\<rparr>))"

text \<open>The end of the scope of the variable that holds the service.\<close>

definition DousiService_destructor :: "nat \<Rightarrow> ('s, 'v, 'q, 'r) executor \<Rightarrow> ('s, 'v, 'q, 'r) executor" where
  "DousiService_destructor inst e = e\<lparr>instances := (instances e)(inst := None)\<rparr>"

definition RegisterMethod ::
  "nat \<Rightarrow> ('s, 'v) method_pointer RemoteMethod \<Rightarrow> ('s, 'v, 'q, 'r) executor \<Rightarrow> ('s, 'v, 'q, 'r) executor" where
  "RegisterMethod service_instance remote_method e =
     e\<lparr>registered_methods := (registered_methods e)
         (GetName remote_method \<mapsto>
            Some \<lparr>cl_method = GetMethod remote_method, cl_service_instance = service_instance\<rparr>)\<rparr>"

text \<open>\<^verbatim>\<open>DousiService::RegisterMethod\<close> passes its own address.\<close>

definition DousiService_RegisterMethod ::
  "nat \<Rightarrow> ('s, 'v) method_pointer RemoteMethod \<Rightarrow> ('s, 'v, 'q, 'r) executor \<Rightarrow> ('s, 'v, 'q, 'r) executor res" where
  "DousiService_RegisterMethod this remote_method e = (case instances e this of
       None \<Rightarrow> Inl Dangling_pointer
     | Some _ \<Rightarrow> Inr (RegisterMethod this remote_method e))"

section \<open>Performing requests\<close>

text \<open>\<^verbatim>\<open>registered_methods_[name]\<close>: a name that is not there is inserted with an empty function.\<close>

definition find_method ::
  "string \<Rightarrow> ('s, 'v, 'q, 'r) executor \<Rightarrow> ('s, 'v) closure option \<times> ('s, 'v, 'q, 'r) executor" where
  "find_method name e = (case registered_methods e name of
       Some f \<Rightarrow> (f, e)
     | None \<Rightarrow> (None, e\<lparr>registered_methods := (registered_methods e)(name \<mapsto> None)\<rparr>))"

text \<open>Calling the function: through the service's address to its object.\<close>

definition call_closure ::
  "('v, 'o, 'q, 'r) libs \<Rightarrow> ('s, 'v) closure \<Rightarrow> 'o \<Rightarrow> bytes \<Rightarrow> ('s, 'v, 'q, 'r) executor \<Rightarrow>
   (bytes \<times> ('s, 'v, 'q, 'r) executor) res" where
  "call_closure lb cl unpacked result e = (case instances e (cl_service_instance cl) of
       None \<Rightarrow> Inl Dangling_pointer
     | Some inst \<Rightarrow> (case objects e (service_object inst) of
           None \<Rightarrow> Inl Null_deref
         | Some ob \<Rightarrow>
             res_bind (InvokeHelper_Invoke (lb_msgpack lb) (cl_method cl) ob unpacked result)
               (\<lambda>(result, ob'). Inr (result, e\<lparr>objects := (objects e)(service_object inst \<mapsto> ob')\<rparr>))))"

text \<open>The request up to its response, and the push of the response.\<close>

definition compute_response ::
  "('v, 'o, 'q, 'r) libs \<Rightarrow> 'o DousiRequest \<Rightarrow> ('s, 'v, 'q, 'r) executor \<Rightarrow>
   (DousiResponse \<times> ('s, 'v, 'q, 'r) executor) res" where
  "compute_response lb request e = (case find_method (req_method_name request) e of
       (None, e') \<Rightarrow> Inl (Throws Bad_function_call)
     | (Some cl, e') \<Rightarrow>
         res_bind (call_closure lb cl (req_unpacked request) [] e')
           (\<lambda>(return_value_str, e'').
              Inr (\<lparr>rsp_object_id = req_object_id request, rsp_stream_id = req_stream_id request,
                    rsp_result = return_value_str\<rparr>, e'')))"

definition push_response ::
  "('v, 'o, 'q, 'r) libs \<Rightarrow> DousiResponse \<Rightarrow> ('s, 'v, 'q, 'r) executor \<Rightarrow> ('s, 'v, 'q, 'r) executor" where
  "push_response lb response e =
     e\<lparr>response_queue := BoostLockFreeQueue_Push (lb_responses lb) response (response_queue e)\<rparr>"

definition PerformRequest ::
  "('v, 'o, 'q, 'r) libs \<Rightarrow> 'o DousiRequest \<Rightarrow> ('s, 'v, 'q, 'r) executor \<Rightarrow> ('s, 'v, 'q, 'r) executor res" where
  "PerformRequest lb request e =
     res_bind (compute_response lb request e) (\<lambda>(response, e'). Inr (push_response lb response e'))"

definition InvokeMethod ::
  "('v, 'o, 'q, 'r) libs \<Rightarrow> u64 \<Rightarrow> u32 \<Rightarrow> bytes \<Rightarrow> ('s, 'v, 'q, 'r) executor \<Rightarrow> ('s, 'v, 'q, 'r) executor res" where
  "InvokeMethod lb stream_id object_id buffer e =
     res_bind (mp_unpack (lb_msgpack lb) buffer) (\<lambda>unpacked.
     res_bind (mp_as_names (lb_msgpack lb) unpacked) (\<lambda>(service_name, name).
       let request = \<lparr>req_object_id = object_id, req_stream_id = stream_id,
                      req_unpacked = unpacked, req_method_name = name\<rparr>
       in if 0 < work_thread_num (executor_options e)
          then Inr (e\<lparr>request_queue := BoostLockFreeQueue_Push (lb_requests lb) request (request_queue e)\<rparr>)
          else PerformRequest lb request e))"

section \<open>Writing responses\<close>

text \<open>One round of \<^verbatim>\<open>LoopToWriteResponse\<close>, once a response is popped.\<close>

definition write_response ::
  "('v, 'o, 'q, 'r) libs \<Rightarrow> DousiResponse \<Rightarrow> ('s, 'v, 'q, 'r) executor \<Rightarrow> ('s, 'v, 'q, 'r) executor res" where
  "write_response lb response e = (case streams e (rsp_stream_id response) of
       None \<Rightarrow> Inl Assert_failed
     | Some stream \<Rightarrow>
         Inr (e\<lparr>streams := (streams e)(rsp_stream_id response \<mapsto>
                  Write (lb_order lb) (rsp_object_id response) (rsp_result response) stream)\<rparr>))"

section \<open>Accepting connections\<close>

text \<open>\<^verbatim>\<open>DoAccept\<close> up to the asynchronous accept, and the accept's handler.\<close>

definition DoAccept :: "('s, 'v, 'q, 'r) executor \<Rightarrow> ('s, 'v, 'q, 'r) executor res" where
  "DoAccept e = res_bind (GetNextIOService (io_pool e)) (\<lambda>(_, pool). Inr (e\<lparr>io_pool := pool\<rparr>))"

text \<open>
  \<^verbatim>\<open>Loop\<close> asks for the first connection and then runs the handlers, which are steps of their own;
  the object \<^verbatim>\<open>work_\<close> keeps \<^verbatim>\<open>io_service_.run()\<close> from returning.
\<close>

definition Loop :: "('s, 'v, 'q, 'r) executor \<Rightarrow> ('s, 'v, 'q, 'r) executor res" where
  "Loop e = DoAccept e"

definition on_accept :: "bool \<Rightarrow> ('s, 'v, 'q, 'r) executor \<Rightarrow> ('s, 'v, 'q, 'r) executor res" where
  "on_accept failed e =
     (if failed then DoAccept e
      else (case RequestStreamID e of
              (stream_id, e') \<Rightarrow>
                DoAccept (e'\<lparr>streams := (streams e')(stream_id \<mapsto> Start (AsioStream stream_id))\<rparr>)))"

section \<open>Memory: services and their objects\<close>

text \<open>
  Addresses are used once, every live service has an object, and no two services share one.
\<close>

definition memory_ok :: "('s, 'v, 'q, 'r) executor \<Rightarrow> bool" where
  "memory_ok e \<longleftrightarrow>
     (\<forall>a \<in> dom (instances e) \<union> dom (objects e). a < next_addr e)
     \<and> (\<forall>a d. instances e a = Some d \<longrightarrow> service_object d \<in> dom (objects e))
     \<and> (\<forall>a b d d'. instances e a = Some d \<longrightarrow> instances e b = Some d' \<longrightarrow>
          service_object d = service_object d' \<longrightarrow> a = b)"

lemma memory_okD:
  assumes "memory_ok e"
  shows "instances e a = Some d \<Longrightarrow> a < next_addr e"
    and "objects e x = Some ob \<Longrightarrow> x < next_addr e"
    and "instances e a = Some d \<Longrightarrow> \<exists>ob. objects e (service_object d) = Some ob"
    and "instances e a = Some d \<Longrightarrow> instances e b = Some d' \<Longrightarrow>
      service_object d = service_object d' \<Longrightarrow> a = b"
  using assms unfolding memory_ok_def by blast+

lemma memory_ok_Executor [inv_intros]: "memory_ok (Executor lb options)"
  by (simp add: memory_ok_def Executor_def)

lemma memory_ok_CreateService [inv_intros]:
  assumes "memory_ok e"
  shows "memory_ok (snd (CreateService name ob e))"
proof -
  have "service_object d < next_addr e" if "instances e a = Some d" for a d
    using memory_okD(2,3) [OF assms] that by blast
  then have fresh: "service_object d \<noteq> next_addr e" if "instances e a = Some d" for a d
    using that by fastforce
  show ?thesis
    unfolding memory_ok_def
  proof (intro conjI)
    show "\<forall>a \<in> dom (instances (snd (CreateService name ob e))) \<union> dom (objects (snd (CreateService name ob e))).
        a < next_addr (snd (CreateService name ob e))"
      using memory_okD(1,2) [OF assms] by (fastforce simp: CreateService_def Let_def)
    show "\<forall>a d. instances (snd (CreateService name ob e)) a = Some d \<longrightarrow>
        service_object d \<in> dom (objects (snd (CreateService name ob e)))"
      by (auto simp: CreateService_def Let_def dest: memory_okD(3) [OF assms])
    show "\<forall>a b d d'. instances (snd (CreateService name ob e)) a = Some d \<longrightarrow>
        instances (snd (CreateService name ob e)) b = Some d' \<longrightarrow>
        service_object d = service_object d' \<longrightarrow> a = b"
      by (auto simp: CreateService_def Let_def split: if_splits dest: fresh intro: memory_okD(4) [OF assms])
  qed
qed

lemma memory_ok_destructor [inv_intros]: "memory_ok e \<Longrightarrow> memory_ok (DousiService_destructor inst e)"
  by (auto simp: memory_ok_def DousiService_destructor_def)

lemma memory_ok_cong:
  "instances e' = instances e \<Longrightarrow> objects e' = objects e \<Longrightarrow> next_addr e' = next_addr e \<Longrightarrow>
   memory_ok e' = memory_ok e"
  by (simp add: memory_ok_def)

lemma memory_ok_RegisterMethod [inv_intros]: "memory_ok e \<Longrightarrow> memory_ok (RegisterMethod inst rm e)"
  by (simp add: RegisterMethod_def memory_ok_def)

lemma find_method_frame:
  "find_method n e = (f, e') \<Longrightarrow> instances e' = instances e \<and> objects e' = objects e
    \<and> next_addr e' = next_addr e \<and> streams e' = streams e \<and> request_queue e' = request_queue e
    \<and> response_queue e' = response_queue e \<and> curr_stream_id e' = curr_stream_id e
    \<and> executor_options e' = executor_options e \<and> io_pool e' = io_pool e"
  by (auto simp: find_method_def split: option.splits)

lemma find_method_Some_iff:
  "find_method n e = (Some cl, e') \<longleftrightarrow> registered_methods e n = Some (Some cl) \<and> e' = e"
  by (auto simp: find_method_def split: option.splits)

text \<open>What a call leaves as it was, and what it may change.\<close>

lemma call_closure_Inr:
  assumes "call_closure lb cl unpacked result e = Inr (bs, e')"
  obtains d ob ob' where "instances e (cl_service_instance cl) = Some d"
    and "objects e (service_object d) = Some ob"
    and "InvokeHelper_Invoke (lb_msgpack lb) (cl_method cl) ob unpacked result = Inr (bs, ob')"
    and "e' = e\<lparr>objects := (objects e)(service_object d \<mapsto> ob')\<rparr>"
  using assms by (auto simp: call_closure_def res_bind_Inr_iff split: option.splits)

lemma compute_response_Inr:
  assumes "compute_response lb req e = Inr (rsp, e')"
  obtains cl d ob ob' where "registered_methods e (req_method_name req) = Some (Some cl)"
    and "instances e (cl_service_instance cl) = Some d"
    and "objects e (service_object d) = Some ob"
    and "InvokeHelper_Invoke (lb_msgpack lb) (cl_method cl) ob (req_unpacked req) [] = Inr (rsp_result rsp, ob')"
    and "rsp = \<lparr>rsp_object_id = req_object_id req, rsp_stream_id = req_stream_id req, rsp_result = rsp_result rsp\<rparr>"
    and "e' = e\<lparr>objects := (objects e)(service_object d \<mapsto> ob')\<rparr>"
proof -
  obtain cl bs where cl: "registered_methods e (req_method_name req) = Some (Some cl)"
    and call: "call_closure lb cl (req_unpacked req) [] e = Inr (bs, e')"
    and rsp: "rsp = \<lparr>rsp_object_id = req_object_id req, rsp_stream_id = req_stream_id req, rsp_result = bs\<rparr>"
    using assms
    by (auto simp: compute_response_def res_bind_Inr_iff find_method_Some_iff
        split: prod.splits option.splits)
  from call show ?thesis
    by (rule call_closure_Inr) (use cl rsp in \<open>auto intro: that\<close>)
qed

lemma memory_ok_compute_response [inv_intros]:
  assumes "memory_ok e" and "compute_response lb req e = Inr (rsp, e')"
  shows "memory_ok e'"
  using assms(2) by (rule compute_response_Inr) (use assms(1) in \<open>auto simp: memory_ok_def\<close>)

section \<open>Connections\<close>

text \<open>
  The streams are those with the ids given out so far, each knows its own id, and the pool of
  event loops is in order.
\<close>

definition streams_ok :: "('s, 'v, 'q, 'r) executor \<Rightarrow> bool" where
  "streams_ok e \<longleftrightarrow>
     (\<forall>i. i \<in> dom (streams e) \<longleftrightarrow> i < curr_stream_id e)
     \<and> (\<forall>i s. streams e i = Some s \<longrightarrow> strm_id s = i)
     \<and> (\<exists>n. pool_ok n (io_pool e))"

lemma streams_ok_Executor [inv_intros]:
  "0 < io_thread_num options \<Longrightarrow> streams_ok (Executor lb options)"
  using pool_ok_IOThreadPool by (fastforce simp: streams_ok_def Executor_def)

lemma DoAccept_ok:
  assumes "pool_ok n (io_pool e)"
  shows "\<exists>pool. DoAccept e = Inr (e\<lparr>io_pool := pool\<rparr>) \<and> pool_ok n pool"
  using GetNextIOService_ok [OF assms] by (auto simp: DoAccept_def)

lemma unat_Suc_word:
  fixes c :: u64
  assumes "unat c + 1 < 2 ^ 64"
  shows "unat (c + 1) = unat c + 1"
  using assms by (simp add: unat_word_ariths)

lemma less_Suc_word:
  fixes i c :: u64
  assumes "unat c + 1 < 2 ^ 64"
  shows "i < c + 1 \<longleftrightarrow> i < c \<or> i = c"
  by (simp only: word_less_nat_alt word_unat_eq_iff unat_Suc_word [OF assms]) arith

text \<open>The new connection, before the next accept is started.\<close>

definition add_stream :: "('s, 'v, 'q, 'r) executor \<Rightarrow> ('s, 'v, 'q, 'r) executor" where
  "add_stream e = e\<lparr>curr_stream_id := curr_stream_id e + 1,
     streams := (streams e)(curr_stream_id e \<mapsto> Start (AsioStream (curr_stream_id e)))\<rparr>"

lemma on_accept_eq: "on_accept failed e = DoAccept (if failed then e else add_stream e)"
  by (simp add: on_accept_def RequestStreamID_def add_stream_def)

lemma streams_ok_add_stream [inv_intros]:
  assumes "streams_ok e" and "unat (curr_stream_id e) + 1 < 2 ^ 64"
  shows "streams_ok (add_stream e)"
  using assms(1) less_Suc_word [OF assms(2)]
  by (auto simp: streams_ok_def add_stream_def Start_def DoReadObjectID_def AsioStream_def)

lemma DoAccept_streams_ok:
  assumes "streams_ok e"
  shows "\<exists>e'. DoAccept e = Inr e' \<and> streams_ok e' \<and> streams e' = streams e
    \<and> curr_stream_id e' = curr_stream_id e"
proof -
  obtain n where "pool_ok n (io_pool e)" using assms by (auto simp: streams_ok_def)
  from DoAccept_ok [OF this] obtain pool where "DoAccept e = Inr (e\<lparr>io_pool := pool\<rparr>)" "pool_ok n pool"
    by blast
  with assms show ?thesis by (auto simp: streams_ok_def)
qed

lemma on_accept_ok:
  assumes "streams_ok e" and "unat (curr_stream_id e) + 1 < 2 ^ 64"
  shows "\<exists>e'. on_accept failed e = Inr e' \<and> streams_ok e'
    \<and> curr_stream_id e' = (if failed then curr_stream_id e else curr_stream_id e + 1)
    \<and> streams e' = (if failed then streams e
        else (streams e)(curr_stream_id e \<mapsto> Start (AsioStream (curr_stream_id e))))"
  using DoAccept_streams_ok [OF assms(1)] DoAccept_streams_ok [OF streams_ok_add_stream [OF assms]]
  by (cases failed) (auto simp: on_accept_eq add_stream_def)

fun accepts :: "nat \<Rightarrow> ('s, 'v, 'q, 'r) executor \<Rightarrow> ('s, 'v, 'q, 'r) executor res" where
  "accepts 0 e = Inr e"
| "accepts (Suc k) e = res_bind (on_accept False e) (accepts k)"

lemma accepts_from:
  assumes "streams_ok e" and "unat (curr_stream_id e) + k < 2 ^ 64"
  shows "\<exists>e'. accepts k e = Inr e' \<and> streams_ok e' \<and> unat (curr_stream_id e') = unat (curr_stream_id e) + k
    \<and> (\<forall>i \<in> dom (streams e). streams e' i = streams e i)"
  using assms
proof (induction k arbitrary: e)
  case (Suc k)
  have small: "unat (curr_stream_id e) + 1 < 2 ^ 64" using Suc.prems(2) by simp
  obtain e1 where e1: "on_accept False e = Inr e1" "streams_ok e1"
    "curr_stream_id e1 = curr_stream_id e + 1"
    "streams e1 = (streams e)(curr_stream_id e \<mapsto> Start (AsioStream (curr_stream_id e)))"
    using on_accept_ok [OF Suc.prems(1) small, of False] by auto
  have curr: "unat (curr_stream_id e1) = unat (curr_stream_id e) + 1"
    using unat_Suc_word [OF small] by (simp add: e1(3))
  with Suc.prems(2) have "unat (curr_stream_id e1) + k < 2 ^ 64" by simp
  from Suc.IH [OF e1(2) this] obtain e2 where e2: "accepts k e1 = Inr e2" "streams_ok e2"
    "unat (curr_stream_id e2) = unat (curr_stream_id e1) + k"
    "\<forall>i \<in> dom (streams e1). streams e2 i = streams e1 i" by blast
  have "curr_stream_id e \<notin> dom (streams e)"
    using Suc.prems(1) by (simp add: streams_ok_def)
  then have "\<forall>i \<in> dom (streams e). streams e2 i = streams e i"
    using e2(4) e1(4) by (auto simp: dom_def)
  with e1(1) e2 curr show ?case by simp
qed simp

text \<open>The streams of everything in flight stay where they are.\<close>

lemma streams_ok_cong:
  "streams e' = streams e \<Longrightarrow> curr_stream_id e' = curr_stream_id e \<Longrightarrow> io_pool e' = io_pool e \<Longrightarrow>
   streams_ok e' = streams_ok e"
  by (simp add: streams_ok_def)

lemma write_response_ok:
  assumes "streams_ok e" and "rsp_stream_id rsp \<in> dom (streams e)"
  shows "\<exists>e'. write_response lb rsp e = Inr e' \<and> streams_ok e' \<and> dom (streams e') = dom (streams e)"
proof -
  obtain st where st: "streams e (rsp_stream_id rsp) = Some st" using assms(2) by blast
  then have "strm_id st = rsp_stream_id rsp" using assms(1) by (simp add: streams_ok_def)
  with st assms(1) show ?thesis
    by (auto simp: write_response_def streams_ok_def Write_def)
qed

end
