(* ===== verification/Logging.thy ===== *)
theory Logging
  imports Dousi_Prelude
begin

text \<open>
  \<^verbatim>\<open>common/logging.h\<close> and \<^verbatim>\<open>common/logging.cc\<close>: the severity threshold, the logging provider
  and the life of one log line, from the \<^verbatim>\<open>DOUSI_LOG\<close> macro to the destructor that hands it to
  the provider. spdlog is not part of the repository: creating a rotating logger is a parameter
  that gives a logger or an exception, and what is handed to a logger is recorded.
\<close>

section \<open>Severities\<close>

datatype LOG_LEVEL = DEBUG | INFO | WARNING | FATAL | NOLEVEL

fun level_index :: "LOG_LEVEL \<Rightarrow> nat" where
  "level_index DEBUG = 0"
| "level_index INFO = 1"
| "level_index WARNING = 2"
| "level_index FATAL = 3"
| "level_index NOLEVEL = 4"

lemma level_index_inject [simp]: "level_index a = level_index b \<longleftrightarrow> a = b"
  by (cases a; cases b) simp_all

instantiation LOG_LEVEL :: linorder
begin

definition less_eq_LOG_LEVEL :: "LOG_LEVEL \<Rightarrow> LOG_LEVEL \<Rightarrow> bool" where
  "less_eq_LOG_LEVEL a b = (level_index a \<le> level_index b)"

definition less_LOG_LEVEL :: "LOG_LEVEL \<Rightarrow> LOG_LEVEL \<Rightarrow> bool" where
  "less_LOG_LEVEL a b = (level_index a < level_index b)"

instance
  by standard (auto simp: less_eq_LOG_LEVEL_def less_LOG_LEVEL_def)

end

datatype spd_level = spd_debug | spd_info | spd_warn | spd_critical

fun GetMappedSeverity :: "LOG_LEVEL \<Rightarrow> spd_level" where
  "GetMappedSeverity DEBUG = spd_debug"
| "GetMappedSeverity INFO = spd_info"
| "GetMappedSeverity WARNING = spd_warn"
| "GetMappedSeverity FATAL = spd_critical"
| "GetMappedSeverity NOLEVEL = spd_critical"

section \<open>The static state\<close>

text \<open>
  \<open>log_file\<close> is the file of the provider, with the rotation size and the file count it was
  created with; \<open>log_output\<close> is what the provider's \<^verbatim>\<open>log\<close> has been given, newest first;
  \<open>log_console\<close> are the messages printed to the standard output.
\<close>

record log_line =
  line_level :: spd_level
  line_file :: string
  line_number :: int
  line_text :: string

record logging =
  severity_threshold :: LOG_LEVEL
  logging_provider :: "(string \<times> u64 \<times> u64) option"
  spd_set_level :: "spd_level option"
  log_output :: "log_line list"
  log_console :: "string list"
  spd_shut_down :: bool

definition logging_initial :: logging where
  "logging_initial =
     \<lparr>severity_threshold = NOLEVEL, logging_provider = None, spd_set_level = None,
      log_output = [], log_console = [], spd_shut_down = False\<rparr>"

text \<open>
  The rotation size: \<^verbatim>\<open>1024 * 1024 * 1024\<close> is an \<^verbatim>\<open>int\<close>, its product with the
  \<^verbatim>\<open>uint32_t\<close> parameter is computed in 32 bits and then widened to \<^verbatim>\<open>size_t\<close>.
\<close>

definition roll_size :: "u32 \<Rightarrow> u64" where
  "roll_size log_file_roll_size_mb = ucast ((1024 * 1024 * 1024 :: u32) * log_file_roll_size_mb)"

text \<open>
  \<open>rotating\<close> stands for \<^verbatim>\<open>spdlog::rotating_logger_mt\<close>: \<open>None\<close> when it makes the logger, the
  text of the \<^verbatim>\<open>spdlog_ex\<close> it throws otherwise. The file count is a \<^verbatim>\<open>uint32_t\<close> passed as a
  \<^verbatim>\<open>size_t\<close>.
\<close>

definition StartDousiLog ::
  "(string \<Rightarrow> u64 \<Rightarrow> u64 \<Rightarrow> string option) \<Rightarrow> string \<Rightarrow> LOG_LEVEL \<Rightarrow> u32 \<Rightarrow> u32 \<Rightarrow> logging \<Rightarrow> logging" where
  "StartDousiLog rotating log_file_name severity log_file_roll_size_mb log_file_roll_cout l =
     (let l = l\<lparr>severity_threshold := severity\<rparr>;
          max_size = roll_size log_file_roll_size_mb;
          max_files = ucast log_file_roll_cout
      in case logging_provider l of
           Some _ \<Rightarrow> l
         | None \<Rightarrow>
             (case rotating log_file_name max_size max_files of
                None \<Rightarrow> l\<lparr>logging_provider := Some (log_file_name, max_size, max_files),
                          spd_set_level := Some (GetMappedSeverity severity)\<rparr>
              | Some what \<Rightarrow> l\<lparr>log_console := (''DousiLog failed: '' @ what) # log_console l\<rparr>))"

definition ShutDownDousiLog :: "logging \<Rightarrow> logging" where
  "ShutDownDousiLog l = l\<lparr>spd_shut_down := True\<rparr>"

definition IsLevelEnabled :: "logging \<Rightarrow> LOG_LEVEL \<Rightarrow> bool" where
  "IsLevelEnabled l log_level = (severity_threshold l \<le> log_level)"

section \<open>One log line\<close>

record dousi_log =
  is_enabled :: bool
  log_level :: LOG_LEVEL
  filename :: string
  dl_line_number :: int
  ss :: string

definition DousiLog :: "logging \<Rightarrow> string \<Rightarrow> int \<Rightarrow> LOG_LEVEL \<Rightarrow> dousi_log" where
  "DousiLog l file_name line severity =
     \<lparr>is_enabled = severity_threshold l \<le> severity, log_level = severity, filename = file_name,
      dl_line_number = line, ss = []\<rparr>"

definition IsEnabled :: "dousi_log \<Rightarrow> bool" where
  "IsEnabled d = is_enabled d"

definition stream_to :: "dousi_log \<Rightarrow> string \<Rightarrow> dousi_log" where
  "stream_to d t = (if IsEnabled d then d\<lparr>ss := ss d @ t\<rparr> else d)"

text \<open>
  The destructor: an enabled line dereferences the provider. \<open>throws\<close> stands for what
  \<^verbatim>\<open>logging_provider->log\<close> may throw, which is printed instead.
\<close>

definition DousiLog_destructor ::
  "(log_line \<Rightarrow> string option) \<Rightarrow> dousi_log \<Rightarrow> logging \<Rightarrow> logging res" where
  "DousiLog_destructor throws d l =
     (if is_enabled d then
        (let line = \<lparr>line_level = GetMappedSeverity (log_level d), line_file = filename d,
                     line_number = dl_line_number d, line_text = ss d\<rparr>
         in case logging_provider l of
              None \<Rightarrow> Inl Null_deref
            | Some _ \<Rightarrow>
                (case throws line of
                   None \<Rightarrow> Inr (l\<lparr>log_output := line # log_output l\<rparr>)
                 | Some what \<Rightarrow>
                     Inr (l\<lparr>log_console := (''logging_provider->log failed: '' @ what) # log_console l\<rparr>)))
      else Inr l)"

text \<open>\<^verbatim>\<open>DOUSI_LOG(level) << t1 << t2 ...\<close>\<close>

definition DOUSI_LOG ::
  "(log_line \<Rightarrow> string option) \<Rightarrow> string \<Rightarrow> int \<Rightarrow> LOG_LEVEL \<Rightarrow> string list \<Rightarrow> logging \<Rightarrow> logging res" where
  "DOUSI_LOG throws file line level ts l =
     (if IsLevelEnabled l level
      then DousiLog_destructor throws (foldl stream_to (DousiLog l file line level) ts) l
      else Inr l)"

text \<open>\<^verbatim>\<open>DOUSI_CHECK(condition) << t1 << t2 ...\<close>; \<open>text\<close> is the condition as written.\<close>

definition DOUSI_CHECK ::
  "(log_line \<Rightarrow> string option) \<Rightarrow> string \<Rightarrow> int \<Rightarrow> bool \<Rightarrow> string \<Rightarrow> string list \<Rightarrow> logging \<Rightarrow> logging res" where
  "DOUSI_CHECK throws file line condition cond_text ts l =
     (if condition then Inr l
      else DousiLog_destructor throws
             (foldl stream_to (DousiLog l file line FATAL)
                (('' Check failed: '' @ cond_text @ '' '') # ts)) l)"

section \<open>Lemmas\<close>

lemma stream_to_enabled [simp]: "is_enabled (stream_to d t) = is_enabled d"
  by (simp add: stream_to_def IsEnabled_def)

lemma foldl_stream_to:
  "foldl stream_to d ts = (if is_enabled d then d\<lparr>ss := ss d @ concat ts\<rparr> else d)"
  by (induction ts arbitrary: d) (simp_all add: stream_to_def IsEnabled_def)

lemma DOUSI_LOG_eq:
  "DOUSI_LOG throws file line level ts l =
    (if severity_threshold l \<le> level
     then (let x = \<lparr>line_level = GetMappedSeverity level, line_file = file, line_number = line,
                    line_text = concat ts\<rparr>
           in case logging_provider l of
                None \<Rightarrow> Inl Null_deref
              | Some _ \<Rightarrow>
                  (case throws x of
                     None \<Rightarrow> Inr (l\<lparr>log_output := x # log_output l\<rparr>)
                   | Some what \<Rightarrow>
                       Inr (l\<lparr>log_console := (''logging_provider->log failed: '' @ what) # log_console l\<rparr>)))
     else Inr l)"
  by (simp add: DOUSI_LOG_def IsLevelEnabled_def foldl_stream_to DousiLog_def
      DousiLog_destructor_def)

text \<open>
  The state in which logging cannot crash: there is a provider, or nothing is enabled.
\<close>

definition log_safe :: "logging \<Rightarrow> bool" where
  "log_safe l = (logging_provider l \<noteq> None \<or> severity_threshold l = NOLEVEL)"

lemma log_safe_initial [inv_intros]: "log_safe logging_initial"
  by (simp add: log_safe_def logging_initial_def)

lemma log_safe_ShutDown [inv_intros]: "log_safe l \<Longrightarrow> log_safe (ShutDownDousiLog l)"
  by (simp add: log_safe_def ShutDownDousiLog_def)

lemma log_safe_Start [inv_intros]:
  assumes "\<forall>f m n. rotating f m n = None"
  shows "log_safe (StartDousiLog rotating f sev mb n l)"
  using assms by (simp add: log_safe_def StartDousiLog_def Let_def split: option.split)

lemma below_NOLEVEL: "level < NOLEVEL \<Longrightarrow> \<not> NOLEVEL \<le> level"
  by (simp add: not_le)

lemma log_safe_DOUSI_LOG:
  assumes "log_safe l" and "level < NOLEVEL"
  shows "\<exists>l'. DOUSI_LOG throws file line level ts l = Inr l' \<and> log_safe l'
    \<and> severity_threshold l' = severity_threshold l \<and> logging_provider l' = logging_provider l"
  using assms below_NOLEVEL
  by (auto simp: DOUSI_LOG_eq Let_def log_safe_def split: option.split)

section \<open>Properties\<close>

text \<open>The calls a program makes of the logging, and their effect one after the other.\<close>

datatype log_call =
    Call_start string LOG_LEVEL u32 u32
  | Call_log string int LOG_LEVEL "string list"
  | Call_shutdown

fun perform_call ::
  "(string \<Rightarrow> u64 \<Rightarrow> u64 \<Rightarrow> string option) \<Rightarrow> (log_line \<Rightarrow> string option) \<Rightarrow> log_call \<Rightarrow> logging \<Rightarrow> logging res" where
  "perform_call rotating throws (Call_start f sev mb n) l = Inr (StartDousiLog rotating f sev mb n l)"
| "perform_call rotating throws (Call_log f i level ts) l = DOUSI_LOG throws f i level ts l"
| "perform_call rotating throws Call_shutdown l = Inr (ShutDownDousiLog l)"

fun perform_calls ::
  "(string \<Rightarrow> u64 \<Rightarrow> u64 \<Rightarrow> string option) \<Rightarrow> (log_line \<Rightarrow> string option) \<Rightarrow> log_call list \<Rightarrow> logging \<Rightarrow> logging res" where
  "perform_calls rotating throws [] l = Inr l"
| "perform_calls rotating throws (c # cs) l =
     res_bind (perform_call rotating throws c l) (perform_calls rotating throws cs)"

definition proper_level :: "log_call \<Rightarrow> bool" where
  "proper_level c = (case c of Call_log _ _ level _ \<Rightarrow> level < NOLEVEL | _ \<Rightarrow> True)"

lemma log_call_safe:
  assumes "\<forall>f m n. rotating f m n = None" and "log_safe l" and "proper_level c"
  shows "\<exists>l'. perform_call rotating throws c l = Inr l' \<and> log_safe l'"
  using assms log_safe_DOUSI_LOG [of l]
  by (cases c) (fastforce simp: proper_level_def intro: inv_intros)+

lemma log_calls_safe:
  assumes "\<forall>f m n. rotating f m n = None" and "log_safe l" and "\<forall>c \<in> set cs. proper_level c"
  shows "\<exists>l'. perform_calls rotating throws cs l = Inr l' \<and> log_safe l'"
  using assms(2,3)
proof (induction cs arbitrary: l)
  case (Cons c cs)
  obtain l' where l': "perform_call rotating throws c l = Inr l'" "log_safe l'"
    using log_call_safe [OF assms(1) Cons.prems(1), of c throws] Cons.prems(2) by auto
  with Cons.IH [of l'] Cons.prems(2) show ?case by simp
qed simp

text \<open>
  C38: as long as the rotating logger can be made, no sequence of starts, shutdowns and
  log lines of the four levels ever faults, lines before the first start included.
\<close>

theorem logging_never_faults:
  assumes "\<forall>f m n. rotating f m n = None" and "\<forall>c \<in> set cs. proper_level c"
  shows "\<exists>l. perform_calls rotating throws cs logging_initial = Inr l"
  using log_calls_safe [OF assms(1) log_safe_initial assms(2)] by blast

theorem logging_never_faults_witness:
  "\<exists>l. perform_calls (\<lambda>_ _ _. None) (\<lambda>_. None)
     [Call_log ''a.cc'' 1 FATAL [''x''], Call_start ''/tmp/l'' WARNING 10 3, Call_log ''a.cc'' 2 INFO []]
     logging_initial = Inr l"
  by (rule logging_never_faults) (simp_all add: proper_level_def less_LOG_LEVEL_def)

text \<open>
  When the first start fails to make the rotating logger (a file that cannot be
  opened, say), the threshold is set all the same and there is no provider: the next log line
  at or above the threshold dereferences a null pointer.
\<close>

theorem failed_start_crashes_next_line:
  assumes "logging_provider l = None" and "rotating f (roll_size mb) (ucast n) = Some what"
    and "sev \<le> level"
  shows "DOUSI_LOG throws file line level ts (StartDousiLog rotating f sev mb n l) = Inl Null_deref"
  using assms by (simp add: DOUSI_LOG_eq StartDousiLog_def Let_def)

theorem failed_start_crashes_next_line_witness:
  "DOUSI_LOG (\<lambda>_. None) ''rpc_client.h'' 14 FATAL [''x'']
     (StartDousiLog (\<lambda>_ _ _. Some ''cannot open'') ''/tmp/dousi/rpclient.log'' WARNING 10 3 logging_initial)
   = Inl Null_deref"
  by (rule failed_start_crashes_next_line) (simp_all add: logging_initial_def less_eq_LOG_LEVEL_def)

text \<open>
  Only the first successful start chooses the file, its rotation and the level of the
  provider; a later start changes nothing but the threshold, whatever file and sizes it names.
\<close>

theorem first_start_wins:
  assumes "logging_provider l = None" and "rotating f (roll_size mb) (ucast n) = None"
  shows "StartDousiLog rotating' f' sev' mb' n' (StartDousiLog rotating f sev mb n l) =
    l\<lparr>severity_threshold := sev', logging_provider := Some (f, roll_size mb, ucast n),
      spd_set_level := Some (GetMappedSeverity sev)\<rparr>"
  using assms by (simp add: StartDousiLog_def Let_def)

text \<open>The two starts of a Java client: the debug log it asks for second is never opened.\<close>

theorem first_start_wins_witness:
  "logging_provider (StartDousiLog (\<lambda>_ _ _. None) ''tmp/dousi/java-client.log'' DEBUG 10 3
     (StartDousiLog (\<lambda>_ _ _. None) ''/tmp/dousi/java-native-client.log'' WARNING 10 3 logging_initial))
   = Some (''/tmp/dousi/java-native-client.log'', roll_size 10, 3)"
  by (subst first_start_wins) (simp_all add: logging_initial_def)

text \<open>
  The size parameter, named in megabytes, counts gigabytes modulo 4: 10 asks for
  2 GiB, 4 asks for files of no bytes at all.
\<close>

theorem roll_size_wraps:
  "unat (roll_size mb) = 2 ^ 30 * (unat mb mod 4)"
proof -
  have "unat (roll_size mb) = (2 ^ 30 * unat mb) mod (2 ^ 30 * 4)"
    by (simp add: roll_size_def unat_ucast_u32_u64 unat_mult_lem unat_word_ariths)
  also have "\<dots> = 2 ^ 30 * (unat mb mod 4)"
    by (rule mult_mod_right [symmetric])
  finally show ?thesis .
qed

end
