(* ===== verification/Rpc_Server.thy ===== *)
theory Rpc_Server
  imports Executor Logging
begin

text \<open>
  \<^verbatim>\<open>rpc/rpc_server.h\<close>: the server a program makes. It starts the log and owns an executor; the
  state is the executor with the process's logging state. \<^verbatim>\<open>Loop\<close> starts accepting; what
  happens then is driven by events.
\<close>

record ('s, 'v, 'q, 'r) rpc_server =
  srv_executor :: "('s, 'v, 'q, 'r) executor"
  srv_logging :: logging

definition RpcServer ::
  "('v, 'o, 'q, 'r) libs \<Rightarrow> (string \<Rightarrow> u64 \<Rightarrow> u64 \<Rightarrow> string option) \<Rightarrow> string \<Rightarrow> logging \<Rightarrow>
   ('s, 'v, 'q, 'r) rpc_server res" where
  "RpcServer lb rotating listening_address l =
     (let l' = StartDousiLog rotating ''/tmp/dousi/rpcserver.log'' WARNING 10 3 l
      in res_bind (Init listening_address (Executor lb default_options))
           (\<lambda>e. Inr \<lparr>srv_executor = e, srv_logging = l'\<rparr>))"

text \<open>The service's name is what \<^verbatim>\<open>NAMEOF_TYPE\<close> makes of its type.\<close>

definition RpcServer_CreateService ::
  "string \<Rightarrow> 's \<Rightarrow> ('s, 'v, 'q, 'r) rpc_server \<Rightarrow> nat \<times> ('s, 'v, 'q, 'r) rpc_server" where
  "RpcServer_CreateService type_name service s =
     (case CreateService type_name service (srv_executor s) of
        (inst, e) \<Rightarrow> (inst, s\<lparr>srv_executor := e\<rparr>))"

definition RpcServer_RegisterMethod ::
  "nat \<Rightarrow> ('s, 'v) method_pointer RemoteMethod \<Rightarrow> ('s, 'v, 'q, 'r) rpc_server \<Rightarrow>
   ('s, 'v, 'q, 'r) rpc_server res" where
  "RpcServer_RegisterMethod inst remote_method s =
     res_bind (DousiService_RegisterMethod inst remote_method (srv_executor s))
       (\<lambda>e. Inr (s\<lparr>srv_executor := e\<rparr>))"

definition end_of_scope :: "nat \<Rightarrow> ('s, 'v, 'q, 'r) rpc_server \<Rightarrow> ('s, 'v, 'q, 'r) rpc_server" where
  "end_of_scope inst s = s\<lparr>srv_executor := DousiService_destructor inst (srv_executor s)\<rparr>"

definition RpcServer_Loop :: "('s, 'v, 'q, 'r) rpc_server \<Rightarrow> ('s, 'v, 'q, 'r) rpc_server res" where
  "RpcServer_Loop s = res_bind (Loop (srv_executor s)) (\<lambda>e. Inr (s\<lparr>srv_executor := e\<rparr>))"

definition RpcServer_destructor :: "('s, 'v, 'q, 'r) rpc_server \<Rightarrow> ('s, 'v, 'q, 'r) rpc_server res" where
  "RpcServer_destructor s = res_bind (Shutdown (srv_executor s)) (\<lambda>e. Inr (s\<lparr>srv_executor := e\<rparr>))"

section \<open>Lemmas\<close>

lemma RpcServer_of_address:
  assumes "CHR '':'' \<notin> set h" and "length h < npos" and "n < 2 ^ 31"
  shows "RpcServer lb rotating (h @ '':'' @ to_string n) l =
    Inr \<lparr>srv_executor = (Executor lb default_options)\<lparr>listening_addr := h @ '':'' @ to_string n,
           acceptor := Some ((Any_v4, of_nat n), True)\<rparr>,
         srv_logging = StartDousiLog rotating ''/tmp/dousi/rpcserver.log'' WARNING 10 3 l\<rparr>"
  using Endpoint_of_address_colon [OF assms(1,2), of "to_string n"] assms(3)
  by (simp add: RpcServer_def Init_def Let_def stoi_to_string GetTcpEndpoint_def)

section \<open>Properties\<close>

text \<open>
  Whatever host the listening address names, the server listens on every address of
  the machine: for a host without a colon and a port of at most 65535, the acceptor is bound to
  the port of any IPv4 address, although the executor remembers and reports the address given.
\<close>

theorem server_listens_on_any_host:
  assumes "CHR '':'' \<notin> set h" and "length h < npos" and "n < 65536"
  shows "\<exists>s. RpcServer lb rotating (h @ '':'' @ to_string n) l = Inr s
    \<and> acceptor (srv_executor s) = Some ((Any_v4, of_nat n), True)
    \<and> unat (of_nat n :: u16) = n
    \<and> GetListeningAddr (srv_executor s) = h @ '':'' @ to_string n"
proof -
  have "n < 2 ^ 31" using assms(3) by simp
  then show ?thesis
    using assms(3) by (subst RpcServer_of_address [OF assms(1,2)]) (simp_all add: GetListeningAddr_def unat_of_nat)
qed

text \<open>A server told to listen on the loopback interface only, as the examples are.\<close>

theorem server_listens_on_any_host_witness:
  "\<forall>lb l. \<exists>s. RpcServer lb (\<lambda>f m n. None) (''127.0.0.1'' @ '':'' @ to_string 10001) l = Inr s
    \<and> acceptor (srv_executor s) = Some ((Any_v4, 10001), True)
    \<and> GetListeningAddr (srv_executor s) = ''127.0.0.1'' @ '':'' @ to_string 10001"
  using server_listens_on_any_host [of "''127.0.0.1''" 10001] by (auto simp: npos_def)

end
