(* ===== verification/Msgpack_Wire.thy ===== *)
theory Msgpack_Wire
  imports Invocation Host_Bytes
begin

text \<open>
  An instance of the MessagePack contract: the format's 32-bit encodings of strings, integers
  and booleans, the array of two the test program's \<^verbatim>\<open>Person\<close> is, and flat arrays of all these,
  with a decoder that reads exactly these. The repository
  calls the msgpack-c library, which is not part of it; this theory is a codec of the same
  format, on which the contract's laws hold and on which witnesses compute.
\<close>

datatype wire_value = WStr string | WInt u32 | WBool bool | WPerson string u32

datatype wire_object = Obj_value wire_value | Obj_array "wire_value list"

definition byte_of_char :: "char \<Rightarrow> byte" where
  "byte_of_char c = of_char c"

definition char_of_byte :: "byte \<Rightarrow> char" where
  "char_of_byte b = char_of (unat b)"

section \<open>Encoding\<close>

definition be32 :: "nat \<Rightarrow> bytes" where
  "be32 n = store_u32 Big_endian (of_nat n)"

fun wire_pack :: "wire_value \<Rightarrow> bytes" where
  "wire_pack (WStr s) = 0xdb # be32 (length s) @ map byte_of_char s"
| "wire_pack (WInt i) = 0xd2 # store_u32 Big_endian i"
| "wire_pack (WBool b) = [if b then 0xc3 else 0xc2]"
| "wire_pack (WPerson name age) =
     0x92 # (0xdb # be32 (length name) @ map byte_of_char name) @ (0xd2 # store_u32 Big_endian age)"

definition wire_pack_tuple :: "wire_value list \<Rightarrow> bytes" where
  "wire_pack_tuple vs = 0xdd # be32 (length vs) @ concat (map wire_pack vs)"

section \<open>Decoding\<close>

definition read_u32 :: "bytes \<Rightarrow> (u32 \<times> bytes) option" where
  "read_u32 bs = (if length bs < 4 then None else Some (load_u32 Big_endian (take 4 bs), drop 4 bs))"

definition read_scalar :: "bytes \<Rightarrow> (wire_value \<times> bytes) option" where
  "read_scalar bs = (case bs of
       [] \<Rightarrow> None
     | tag # rest \<Rightarrow>
         if tag = 0xdb then
           (case read_u32 rest of
              None \<Rightarrow> None
            | Some (n, body) \<Rightarrow>
                if length body < unat n then None
                else Some (WStr (map char_of_byte (take (unat n) body)), drop (unat n) body))
         else if tag = 0xd2 then
           (case read_u32 rest of None \<Rightarrow> None | Some (i, rest') \<Rightarrow> Some (WInt i, rest'))
         else if tag = 0xc3 then Some (WBool True, rest)
         else if tag = 0xc2 then Some (WBool False, rest)
         else None)"

definition read_value :: "bytes \<Rightarrow> (wire_value \<times> bytes) option" where
  "read_value bs =
     (if bs \<noteq> [] \<and> hd bs = 0x92 then
        (case read_scalar (tl bs) of
           Some (WStr name, rest) \<Rightarrow>
             (case read_scalar rest of
                Some (WInt age, rest') \<Rightarrow> Some (WPerson name age, rest')
              | _ \<Rightarrow> None)
         | _ \<Rightarrow> None)
      else read_scalar bs)"

fun read_values :: "nat \<Rightarrow> bytes \<Rightarrow> wire_value list option" where
  "read_values 0 bs = Some []"
| "read_values (Suc n) bs =
     (case read_value bs of
        None \<Rightarrow> None
      | Some (v, rest) \<Rightarrow> map_option (Cons v) (read_values n rest))"

definition wire_unpack :: "bytes \<Rightarrow> wire_object res" where
  "wire_unpack bs =
     (if bs \<noteq> [] \<and> hd bs = 0xdd then
        (case read_u32 (tl bs) of
           None \<Rightarrow> Inl (Throws Msgpack_error)
         | Some (n, rest) \<Rightarrow>
             (case read_values (unat n) rest of
                None \<Rightarrow> Inl (Throws Msgpack_error)
              | Some vs \<Rightarrow> Inr (Obj_array vs)))
      else
        (case read_value bs of
           None \<Rightarrow> Inl (Throws Msgpack_error)
         | Some (v, _) \<Rightarrow> Inr (Obj_value v)))"

fun wire_has_type :: "cpp_type \<Rightarrow> wire_value \<Rightarrow> bool" where
  "wire_has_type t (WStr s) = (t = std_string \<and> length s < 2 ^ 32)"
| "wire_has_type t (WInt i) = (t = Base ''int'')"
| "wire_has_type t (WBool b) = (t = Base ''bool'')"
| "wire_has_type t (WPerson name age) = (t = Base ''Person'' \<and> length name < 2 ^ 32)"

fun wire_as :: "cpp_type \<Rightarrow> wire_object \<Rightarrow> wire_value res" where
  "wire_as t (Obj_value v) = (if wire_has_type t v then Inr v else Inl (Throws Msgpack_error))"
| "wire_as t (Obj_array vs) = Inl (Throws Msgpack_error)"

fun wire_as_tuple :: "cpp_type list \<Rightarrow> wire_object \<Rightarrow> wire_value list res" where
  "wire_as_tuple tys (Obj_value v) = Inl (Throws Msgpack_error)"
| "wire_as_tuple tys (Obj_array vs) =
     (if length tys \<le> length vs \<and> list_all2 wire_has_type tys (take (length tys) vs)
      then Inr (take (length tys) vs) else Inl (Throws Msgpack_error))"

fun wire_as_names :: "wire_object \<Rightarrow> (string \<times> string) res" where
  "wire_as_names (Obj_array (WStr s # WStr m # _)) = Inr (s, m)"
| "wire_as_names _ = Inl (Throws Msgpack_error)"

definition wire_msgpack :: "(wire_value, wire_object) msgpack" where
  "wire_msgpack =
     \<lparr>mp_string = WStr, mp_pack_tuple = wire_pack_tuple, mp_pack = wire_pack, mp_unpack = wire_unpack,
      mp_as_names = wire_as_names, mp_as_tuple = wire_as_tuple, mp_as = wire_as\<rparr>"

section \<open>The contract\<close>

lemma of_char_less_256: "(of_char c :: nat) < 256"
  using nat_of_char_less_256 [of c] by simp

lemma char_byte_char [simp]: "char_of_byte (byte_of_char c) = c"
proof -
  have "unat (of_char c :: byte) = of_char c mod 256"
    by (simp add: unat_of_nat flip: of_nat_of_char [where 'a = byte])
  then show ?thesis
    using of_char_less_256 [of c] by (simp add: char_of_byte_def byte_of_char_def)
qed

lemma char_bytes_chars [simp]: "map char_of_byte (map byte_of_char s) = s"
  by (induction s) simp_all

lemma read_u32_store [simp]: "read_u32 (store_u32 Big_endian x @ bs) = Some (x, bs)"
  by (simp add: read_u32_def)

lemma read_u32_be32 [simp]: "n < 2 ^ 32 \<Longrightarrow> read_u32 (be32 n @ bs) = Some (of_nat n, bs)"
  by (simp add: be32_def)

lemma read_scalar_string [simp]:
  "length s < 2 ^ 32 \<Longrightarrow> read_scalar (0xdb # be32 (length s) @ map byte_of_char s @ bs) = Some (WStr s, bs)"
  by (simp add: read_scalar_def unat_of_nat_u32 del: map_map)

lemma read_scalar_int [simp]: "read_scalar (0xd2 # store_u32 Big_endian i @ bs) = Some (WInt i, bs)"
  by (simp add: read_scalar_def)

lemma read_scalar_bool [simp]: "read_scalar ((if b then 0xc3 else 0xc2) # bs) = Some (WBool b, bs)"
  by (simp add: read_scalar_def)

lemma read_value_pack [simp]:
  "wire_has_type t v \<Longrightarrow> read_value (wire_pack v @ bs) = Some (v, bs)"
  by (cases v) (simp_all add: read_value_def)

lemma read_values_pack:
  "list_all2 wire_has_type tys vs \<Longrightarrow>
   read_values (length vs) (concat (map wire_pack vs) @ bs) = Some vs"
  by (induction tys vs rule: list_all2_induct) auto

lemma wire_unpack_tuple:
  assumes "list_all2 wire_has_type tys vs" and "length vs < 2 ^ 32"
  shows "wire_unpack (wire_pack_tuple vs) = Inr (Obj_array vs)"
  using read_values_pack [OF assms(1), of "[]"] assms(2)
  by (simp add: wire_unpack_def wire_pack_tuple_def unat_of_nat_u32)

lemma wire_pack_tag: "wire_pack v \<noteq> [] \<and> hd (wire_pack v) \<noteq> 0xdd"
  by (cases v) simp_all

lemma wire_unpack_value:
  assumes "wire_has_type t v"
  shows "wire_unpack (wire_pack v) = Inr (Obj_value v)"
  using read_value_pack [OF assms, of "[]"] wire_pack_tag [of v]
  by (simp add: wire_unpack_def)

interpretation wire: msgpack_codec wire_msgpack wire_has_type
proof unfold_locales
  fix tys vs
  assume "list_all2 wire_has_type tys vs" and "length vs < 2 ^ 32"
  then show "\<exists>ob. mp_unpack wire_msgpack (mp_pack_tuple wire_msgpack vs) = Inr ob \<and>
      mp_as_tuple wire_msgpack tys ob = Inr vs"
    by (simp add: wire_msgpack_def wire_unpack_tuple list_all2_lengthD)
next
  fix tys s m vs ob
  assume "list_all2 wire_has_type tys (mp_string wire_msgpack s # mp_string wire_msgpack m # vs)"
    and "length vs + 2 < 2 ^ 32"
    and "mp_unpack wire_msgpack
      (mp_pack_tuple wire_msgpack (mp_string wire_msgpack s # mp_string wire_msgpack m # vs)) = Inr ob"
  then show "mp_as_names wire_msgpack ob = Inr (s, m)"
    using wire_unpack_tuple [of tys "WStr s # WStr m # vs"] by (auto simp: wire_msgpack_def)
next
  fix t v
  assume "wire_has_type t v"
  then show "\<exists>ob. mp_unpack wire_msgpack (mp_pack wire_msgpack v) = Inr ob \<and> mp_as wire_msgpack t ob = Inr v"
    by (simp add: wire_msgpack_def wire_unpack_value)
next
  show "mp_unpack wire_msgpack [] = Inl (Throws Msgpack_error)"
    by (simp add: wire_msgpack_def wire_unpack_def read_value_def read_scalar_def)
qed

end
