(* ===== verification/Basic_Services.thy ===== *)
theory Basic_Services
  imports Rpc_Server Msgpack_Wire
begin

text \<open>
  The services and the two servers of the repository: \<^verbatim>\<open>src/examples\<close> (services.h, server.cc)
  and \<^verbatim>\<open>src/tests/test_utils\<close> (basic\_services.h, basic\_server\_for\_test.cc). They run on the
  repository's locked queue and on the MessagePack codec of \<open>Msgpack_Wire\<close>. A signed overflow
  is undefined behaviour.
\<close>

section \<open>The services\<close>

datatype service_state =
    Adder_object
  | Calculator_object
  | Echoer_object
  | UserDefinedClass_object
  | VoidReturnService_object string

definition int_result :: "int \<Rightarrow> u32 res" where
  "int_result n = (if - (2 ^ 31) \<le> n \<and> n < 2 ^ 31 then Inr (word_of_int n) else Inl Signed_overflow)"

definition Adder_add :: "service_state \<Rightarrow> wire_value list \<Rightarrow> (wire_value \<times> service_state) res" where
  "Adder_add this args = (case args of
       [WInt x, WInt y] \<Rightarrow> res_bind (int_result (sint x + sint y)) (\<lambda>r. Inr (WInt r, this))
     | _ \<Rightarrow> Inl (Throws Msgpack_error))"

definition Adder_sub :: "service_state \<Rightarrow> wire_value list \<Rightarrow> (wire_value \<times> service_state) res" where
  "Adder_sub this args = (case args of
       [WInt x, WInt y] \<Rightarrow> res_bind (int_result (sint x - sint y)) (\<lambda>r. Inr (WInt r, this))
     | _ \<Rightarrow> Inl (Throws Msgpack_error))"

definition Calculator_add :: "service_state \<Rightarrow> wire_value list \<Rightarrow> (wire_value \<times> service_state) res" where
  "Calculator_add this args = (case args of
       [WInt x, WInt y] \<Rightarrow> res_bind (int_result (sint x + sint y)) (\<lambda>r. Inr (WInt r, this))
     | _ \<Rightarrow> Inl (Throws Msgpack_error))"

definition Calculator_sub :: "service_state \<Rightarrow> wire_value list \<Rightarrow> (wire_value \<times> service_state) res" where
  "Calculator_sub this args = (case args of
       [WInt x, WInt y] \<Rightarrow> res_bind (int_result (sint x - sint y)) (\<lambda>r. Inr (WInt r, this))
     | _ \<Rightarrow> Inl (Throws Msgpack_error))"

definition Echoer_echo :: "service_state \<Rightarrow> wire_value list \<Rightarrow> (wire_value \<times> service_state) res" where
  "Echoer_echo this args = (case args of
       [WStr str] \<Rightarrow> Inr (WStr str, this)
     | _ \<Rightarrow> Inl (Throws Msgpack_error))"

definition VoidReturnService_Perform :: "service_state \<Rightarrow> wire_value list \<Rightarrow> service_state res" where
  "VoidReturnService_Perform this args = (case (this, args) of
       (VoidReturnService_object _, [WStr str]) \<Rightarrow> Inr (VoidReturnService_object str)
     | _ \<Rightarrow> Inl (Throws Msgpack_error))"

definition VoidReturnService_Get :: "service_state \<Rightarrow> wire_value list \<Rightarrow> (wire_value \<times> service_state) res" where
  "VoidReturnService_Get this args = (case (this, args) of
       (VoidReturnService_object data, []) \<Rightarrow> Inr (WStr data, this)
     | _ \<Rightarrow> Inl (Throws Msgpack_error))"

definition UserDefinedClass_IncrAge :: "service_state \<Rightarrow> wire_value list \<Rightarrow> (wire_value \<times> service_state) res" where
  "UserDefinedClass_IncrAge this args = (case args of
       [WPerson name age, WInt delta] \<Rightarrow>
         res_bind (int_result (sint age + sint delta)) (\<lambda>r. Inr (WPerson name r, this))
     | _ \<Rightarrow> Inl (Throws Msgpack_error))"

definition cpp_int :: cpp_type where
  "cpp_int = Base ''int''"

definition ptr_add :: "(service_state, wire_value) method_pointer" where
  "ptr_add = \<lparr>mt_type = MemFn ''Adder'' cpp_int [cpp_int, cpp_int], mt_body = Returning Adder_add\<rparr>"

definition ptr_sub :: "(service_state, wire_value) method_pointer" where
  "ptr_sub = \<lparr>mt_type = MemFn ''Adder'' cpp_int [cpp_int, cpp_int], mt_body = Returning Adder_sub\<rparr>"

definition ptr_Calculator_add :: "(service_state, wire_value) method_pointer" where
  "ptr_Calculator_add = \<lparr>mt_type = MemFn ''Calculator'' cpp_int [cpp_int, cpp_int], mt_body = Returning Calculator_add\<rparr>"

definition ptr_Calculator_sub :: "(service_state, wire_value) method_pointer" where
  "ptr_Calculator_sub = \<lparr>mt_type = MemFn ''Calculator'' cpp_int [cpp_int, cpp_int], mt_body = Returning Calculator_sub\<rparr>"

definition ptr_echo :: "(service_state, wire_value) method_pointer" where
  "ptr_echo = \<lparr>mt_type = MemFn ''Echoer'' std_string [LRef (Const std_string)],
     mt_body = Returning Echoer_echo\<rparr>"

definition ptr_IncrAge :: "(service_state, wire_value) method_pointer" where
  "ptr_IncrAge = \<lparr>mt_type = MemFn ''UserDefinedClass'' (Base ''Person'') [LRef (Const (Base ''Person'')), cpp_int],
     mt_body = Returning UserDefinedClass_IncrAge\<rparr>"

definition ptr_Perform :: "(service_state, wire_value) method_pointer" where
  "ptr_Perform = \<lparr>mt_type = MemFn ''VoidReturnService'' Void [LRef (Const std_string)],
     mt_body = Returning_void VoidReturnService_Perform\<rparr>"

definition ptr_Get :: "(service_state, wire_value) method_pointer" where
  "ptr_Get = \<lparr>mt_type = MemFn ''VoidReturnService'' std_string [],
     mt_body = Returning VoidReturnService_Get\<rparr>"

section \<open>The libraries and the servers\<close>

type_synonym wire_libs = "(wire_value, wire_object, wire_object DousiRequest std_locked_queue,
  DousiResponse std_locked_queue) libs"

definition wire_libs :: wire_libs where
  "wire_libs = \<lparr>lb_order = Little_endian, lb_msgpack = wire_msgpack,
     lb_requests = locked_as_lockfree, lb_responses = locked_as_lockfree\<rparr>"

lemma wire_libs_simps:
  "lb_order wire_libs = Little_endian" "lb_msgpack wire_libs = wire_msgpack"
  "BoostLockFreeQueue (lb_requests wire_libs) = StdLockedQueue"
  "BoostLockFreeQueue (lb_responses wire_libs) = StdLockedQueue"
  "BoostLockFreeQueue_Push (lb_requests wire_libs) = StdLockedQueue_Push"
  "BoostLockFreeQueue_Push (lb_responses wire_libs) = StdLockedQueue_Push"
  "lf_pop (lb_requests wire_libs) = StdLockedQueue_TryPop"
  "lf_pop (lb_responses wire_libs) = StdLockedQueue_TryPop"
  by (simp_all add: fun_eq_iff wire_libs_def locked_as_lockfree_def BoostLockFreeQueue_def BoostLockFreeQueue_Push_def)

type_synonym wire_server = "(service_state, wire_value, wire_object DousiRequest std_locked_queue,
  DousiResponse std_locked_queue) rpc_server"

definition start_ok :: "string \<Rightarrow> u64 \<Rightarrow> u64 \<Rightarrow> string option" where
  "start_ok f m n = None"

definition example_setup :: "wire_server res" where
  "example_setup =
     res_bind (RpcServer wire_libs start_ok ''127.0.0.1:10001'' logging_initial) (\<lambda>s.
     case RpcServer_CreateService ''Adder'' Adder_object s of (adder_service, s) \<Rightarrow>
     res_bind (RpcServer_RegisterMethod adder_service (Remote ''&Adder::add'' ptr_add) s) (\<lambda>s.
     res_bind (RpcServer_RegisterMethod adder_service (Remote ''&Adder::sub'' ptr_sub) s) (\<lambda>s.
     case RpcServer_CreateService ''Echoer'' Echoer_object s of (echo_service, s) \<Rightarrow>
     RpcServer_RegisterMethod echo_service (Remote ''&Echoer::echo'' ptr_echo) s)))"

definition example_server :: "wire_server res" where
  "example_server = res_bind example_setup RpcServer_Loop"

text \<open>Each service of the test server is a local variable of a block of its own.\<close>

definition test_setup :: "wire_server res" where
  "test_setup =
     res_bind (RpcServer wire_libs start_ok ''127.0.0.1:10002'' logging_initial) (\<lambda>s.
     case RpcServer_CreateService ''Echoer'' Echoer_object s of (echoer, s) \<Rightarrow>
     res_bind (RpcServer_RegisterMethod echoer (Remote ''&Echoer::echo'' ptr_echo) s) (\<lambda>s.
     case RpcServer_CreateService ''Calculator'' Calculator_object (end_of_scope echoer s) of (calculator, s) \<Rightarrow>
     res_bind (RpcServer_RegisterMethod calculator (Remote ''&Calculator::add'' ptr_Calculator_add) s) (\<lambda>s.
     res_bind (RpcServer_RegisterMethod calculator (Remote ''&Calculator::sub'' ptr_Calculator_sub) s) (\<lambda>s.
     case RpcServer_CreateService ''UserDefinedClass'' UserDefinedClass_object
         (end_of_scope calculator s) of (user_defined, s) \<Rightarrow>
     res_bind (RpcServer_RegisterMethod user_defined (Remote ''&UserDefinedClass::IncrAge'' ptr_IncrAge) s) (\<lambda>s.
     case RpcServer_CreateService ''VoidReturnService'' (VoidReturnService_object ''123'')
         (end_of_scope user_defined s) of (void_return, s) \<Rightarrow>
     res_bind (RpcServer_RegisterMethod void_return (Remote ''&VoidReturnService::Perform'' ptr_Perform) s) (\<lambda>s.
     res_bind (RpcServer_RegisterMethod void_return (Remote ''&VoidReturnService::Get'' ptr_Get) s) (\<lambda>s.
     Inr (end_of_scope void_return s))))))))"

definition test_server :: "wire_server res" where
  "test_server = res_bind test_setup RpcServer_Loop"

section \<open>What the servers' setup leaves\<close>

lemma Remote_names [simp]:
  "Remote ''&Adder::add'' m = \<lparr>method_name = ''add'', method_ptr = m\<rparr>"
  "Remote ''&Adder::sub'' m = \<lparr>method_name = ''sub'', method_ptr = m\<rparr>"
  "Remote ''&Calculator::add'' m = \<lparr>method_name = ''add'', method_ptr = m\<rparr>"
  "Remote ''&Calculator::sub'' m = \<lparr>method_name = ''sub'', method_ptr = m\<rparr>"
  "Remote ''&Echoer::echo'' m = \<lparr>method_name = ''echo'', method_ptr = m\<rparr>"
  "Remote ''&UserDefinedClass::IncrAge'' m = \<lparr>method_name = ''IncrAge'', method_ptr = m\<rparr>"
  "Remote ''&VoidReturnService::Perform'' m = \<lparr>method_name = ''Perform'', method_ptr = m\<rparr>"
  "Remote ''&VoidReturnService::Get'' m = \<lparr>method_name = ''Get'', method_ptr = m\<rparr>"
  using pretty_name_member [of "''add''" "''Adder:''"] pretty_name_member [of "''sub''" "''Adder:''"]
    pretty_name_member [of "''add''" "''Calculator:''"] pretty_name_member [of "''sub''" "''Calculator:''"]
    pretty_name_member [of "''echo''" "''Echoer:''"]
    pretty_name_member [of "''IncrAge''" "''UserDefinedClass:''"]
    pretty_name_member [of "''Perform''" "''VoidReturnService:''"]
    pretty_name_member [of "''Get''" "''VoidReturnService:''"]
  by (simp_all add: Remote_def NAMEOF_def is_name_char_def is_name_start_def is_decimal_def char_between_def)

lemma ports [simp]: "to_string 10001 = ''10001''" "to_string 10002 = ''10002''"
  by (simp_all add: to_string.simps digit_char_def char_of_def bit_0)

lemma listening_server:
  assumes "n < 2 ^ 31"
  shows "RpcServer wire_libs start_ok (''127.0.0.1:'' @ to_string n) logging_initial =
    Inr \<lparr>srv_executor = (Executor wire_libs default_options)\<lparr>listening_addr := ''127.0.0.1:'' @ to_string n,
           acceptor := Some ((Any_v4, of_nat n), True)\<rparr>,
         srv_logging = StartDousiLog start_ok ''/tmp/dousi/rpcserver.log'' WARNING 10 3 logging_initial\<rparr>"
  using RpcServer_of_address [of "''127.0.0.1''" n wire_libs start_ok logging_initial] assms
  by (simp add: npos_def)

lemmas listening_servers = listening_server [of 10001, simplified] listening_server [of 10002, simplified]

lemmas server_setup = res_bind.simps RpcServer_CreateService_def CreateService_def
  RpcServer_RegisterMethod_def DousiService_RegisterMethod_def RegisterMethod_def GetName_def GetMethod_def
  end_of_scope_def DousiService_destructor_def Let_def

text \<open>The executors when the services are registered.\<close>

definition example_executor ::
  "(service_state, wire_value, wire_object DousiRequest std_locked_queue, DousiResponse std_locked_queue) executor" where
  "example_executor = (Executor wire_libs default_options)
     \<lparr>listening_addr := ''127.0.0.1:10001'', acceptor := Some ((Any_v4, 10001), True),
      objects := [0 \<mapsto> Adder_object, 2 \<mapsto> Echoer_object],
      created_services := [''Adder'' \<mapsto> 0, ''Echoer'' \<mapsto> 2],
      instances := [1 \<mapsto> \<lparr>service_name = [], service_object = 0\<rparr>, 3 \<mapsto> \<lparr>service_name = [], service_object = 2\<rparr>],
      registered_methods :=
        [''add'' \<mapsto> Some \<lparr>cl_method = ptr_add, cl_service_instance = 1\<rparr>,
         ''sub'' \<mapsto> Some \<lparr>cl_method = ptr_sub, cl_service_instance = 1\<rparr>,
         ''echo'' \<mapsto> Some \<lparr>cl_method = ptr_echo, cl_service_instance = 3\<rparr>],
      next_addr := 4\<rparr>"

definition test_executor ::
  "(service_state, wire_value, wire_object DousiRequest std_locked_queue, DousiResponse std_locked_queue) executor" where
  "test_executor = (Executor wire_libs default_options)
     \<lparr>listening_addr := ''127.0.0.1:10002'', acceptor := Some ((Any_v4, 10002), True),
      objects := [0 \<mapsto> Echoer_object, 2 \<mapsto> Calculator_object, 4 \<mapsto> UserDefinedClass_object,
        6 \<mapsto> VoidReturnService_object ''123''],
      created_services := [''Echoer'' \<mapsto> 0, ''Calculator'' \<mapsto> 2, ''UserDefinedClass'' \<mapsto> 4,
        ''VoidReturnService'' \<mapsto> 6],
      instances := Map.empty,
      registered_methods :=
        [''echo'' \<mapsto> Some \<lparr>cl_method = ptr_echo, cl_service_instance = 1\<rparr>,
         ''add'' \<mapsto> Some \<lparr>cl_method = ptr_Calculator_add, cl_service_instance = 3\<rparr>,
         ''sub'' \<mapsto> Some \<lparr>cl_method = ptr_Calculator_sub, cl_service_instance = 3\<rparr>,
         ''IncrAge'' \<mapsto> Some \<lparr>cl_method = ptr_IncrAge, cl_service_instance = 5\<rparr>,
         ''Perform'' \<mapsto> Some \<lparr>cl_method = ptr_Perform, cl_service_instance = 7\<rparr>,
         ''Get'' \<mapsto> Some \<lparr>cl_method = ptr_Get, cl_service_instance = 7\<rparr>],
      next_addr := 8\<rparr>"

lemma example_setup_eq: "\<exists>s. example_setup = Inr s \<and> srv_executor s = example_executor"
  by (simp add: listening_servers example_setup_def server_setup example_executor_def Executor_def eval_nat_numeral)

lemma test_setup_eq: "\<exists>s. test_setup = Inr s \<and> srv_executor s = test_executor"
  by (simp add: listening_servers test_setup_def server_setup test_executor_def Executor_def eval_nat_numeral)

text \<open>The loop's first accept takes the first event loop and changes nothing else.\<close>

lemma RpcServer_Loop_starts:
  assumes "io_pool (srv_executor s) = IOThreadPool sz" and "0 < sz"
  shows "\<exists>pool s'. RpcServer_Loop s = Inr s' \<and> srv_executor s' = (srv_executor s)\<lparr>io_pool := pool\<rparr>
    \<and> pool_ok sz pool"
  using DoAccept_ok [of sz "srv_executor s"] pool_ok_IOThreadPool [OF assms(2)] assms(1)
  by (auto simp: RpcServer_Loop_def Loop_def)

lemma example_server_eq:
  "\<exists>pool s. example_server = Inr s \<and> srv_executor s = example_executor\<lparr>io_pool := pool\<rparr> \<and> pool_ok 8 pool"
proof -
  obtain s where s: "example_setup = Inr s" "srv_executor s = example_executor"
    using example_setup_eq by blast
  then have "io_pool (srv_executor s) = IOThreadPool 8"
    by (simp add: example_executor_def Executor_def default_options_def)
  from RpcServer_Loop_starts [OF this] obtain pool s' where s': "RpcServer_Loop s = Inr s'"
    "srv_executor s' = (srv_executor s)\<lparr>io_pool := pool\<rparr>" "pool_ok 8 pool"
    by auto
  have "example_server = Inr s'"
    by (simp add: example_server_def s(1) s'(1))
  with s' s(2) show ?thesis by auto
qed

lemma test_server_eq:
  "\<exists>pool s. test_server = Inr s \<and> srv_executor s = test_executor\<lparr>io_pool := pool\<rparr> \<and> pool_ok 8 pool"
proof -
  obtain s where s: "test_setup = Inr s" "srv_executor s = test_executor"
    using test_setup_eq by blast
  then have "io_pool (srv_executor s) = IOThreadPool 8"
    by (simp add: test_executor_def Executor_def default_options_def)
  from RpcServer_Loop_starts [OF this] obtain pool s' where s': "RpcServer_Loop s = Inr s'"
    "srv_executor s' = (srv_executor s)\<lparr>io_pool := pool\<rparr>" "pool_ok 8 pool"
    by auto
  have "test_server = Inr s'"
    by (simp add: test_server_def s(1) s'(1))
  with s' s(2) show ?thesis by auto
qed

lemma executors_memory_ok: "memory_ok example_executor" "memory_ok test_executor"
  by (auto simp: memory_ok_def example_executor_def test_executor_def)

end
