(* ===== verification/Executor_Calls.thy ===== *)
theory Executor_Calls
  imports Basic_Services
begin

text \<open>
  What the executor does with one message: the call it performs, on which object, with which
  response; the messages that end the server; the connections it gives ids to.
\<close>

section \<open>One call\<close>

text \<open>
  What a call has to be: the method is registered, its service still lives, and the object is
  there.
\<close>

definition bound_to ::
  "string \<Rightarrow> ('s, 'v) closure \<Rightarrow> DousiService \<Rightarrow> 's \<Rightarrow> ('s, 'v, 'q, 'r) executor \<Rightarrow> bool" where
  "bound_to name cl d ob e \<longleftrightarrow> registered_methods e name = Some (Some cl)
     \<and> instances e (cl_service_instance cl) = Some d \<and> objects e (service_object d) = Some ob"

text \<open>The local call, and the response it leaves in the queue.\<close>

definition call_and_respond ::
  "('v, 'o, 'q, 'r) libs \<Rightarrow> u64 \<Rightarrow> u32 \<Rightarrow> ('s, 'v) closure \<Rightarrow> DousiService \<Rightarrow> 's \<Rightarrow> 'v list \<Rightarrow>
   ('s, 'v, 'q, 'r) executor \<Rightarrow> ('s, 'v, 'q, 'r) executor res" where
  "call_and_respond lb stream_id object_id cl d ob args e =
     res_bind (call_result (lb_msgpack lb) (cl_method cl) ob args []) (\<lambda>(bs, ob').
       Inr (push_response lb \<lparr>rsp_object_id = object_id, rsp_stream_id = stream_id, rsp_result = bs\<rparr>
             (e\<lparr>objects := (objects e)(service_object d \<mapsto> ob')\<rparr>)))"

lemma PerformRequest_bound:
  assumes "bound_to name cl d ob e"
    and "\<And>so result. InvokeHelper_Invoke (lb_msgpack lb) (cl_method cl) so unpacked result =
      call_result (lb_msgpack lb) (cl_method cl) so args result"
  shows "PerformRequest lb \<lparr>req_object_id = oid, req_stream_id = sid, req_unpacked = unpacked, req_method_name = name\<rparr> e =
    call_and_respond lb sid oid cl d ob args e"
  using assms
  by (simp add: PerformRequest_def compute_response_def find_method_def call_closure_def bound_to_def
      call_and_respond_def res_bind_assoc case_prod_unfold)

lemma InvokeMethod_packed:
  assumes "msgpack_codec (lb_msgpack lb) has_type"
    and "bound_to name cl d ob e"
    and "args_fit (lb_msgpack lb) has_type service name (cl_method cl) args"
  shows "\<exists>request.
    InvokeMethod lb sid oid
      (PackArgsToBuffer (lb_msgpack lb) (mp_string (lb_msgpack lb) service # mp_string (lb_msgpack lb) name # args)) e =
      (if 0 < work_thread_num (executor_options e)
       then Inr (e\<lparr>request_queue := BoostLockFreeQueue_Push (lb_requests lb) request (request_queue e)\<rparr>)
       else call_and_respond lb sid oid cl d ob args e)
    \<and> req_stream_id request = sid \<and> req_object_id request = oid \<and> req_method_name request = name
    \<and> (\<forall>e1 ob1. bound_to name cl d ob1 e1 \<longrightarrow>
        PerformRequest lb request e1 = call_and_respond lb sid oid cl d ob1 args e1)"
proof -
  obtain unpacked where u:
    "mp_unpack (lb_msgpack lb)
      (PackArgsToBuffer (lb_msgpack lb) (mp_string (lb_msgpack lb) service # mp_string (lb_msgpack lb) name # args)) =
      Inr unpacked"
    "mp_as_names (lb_msgpack lb) unpacked = Inr (service, name)"
    "\<And>so result. InvokeHelper_Invoke (lb_msgpack lb) (cl_method cl) so unpacked result =
      call_result (lb_msgpack lb) (cl_method cl) so args result"
    using msgpack_codec.packed_call [OF assms(1,3)] by blast
  let ?r = "\<lparr>req_object_id = oid, req_stream_id = sid, req_unpacked = unpacked, req_method_name = name\<rparr>"
  have perform: "PerformRequest lb ?r e1 = call_and_respond lb sid oid cl d ob1 args e1"
    if "bound_to name cl d ob1 e1" for e1 ob1
    using PerformRequest_bound [OF that u(3)] .
  show ?thesis
    using u(1,2) perform assms(2) by (intro exI [of _ ?r]) (simp add: InvokeMethod_def Let_def)
qed

text \<open>
  C9: a remote call is the local call: a message of a packed service name, method name
  and arguments that fit the registered method makes the executor call this method on its
  service's object with exactly these arguments, keep the object's new state, and queue one
  response with the message's object id and stream id and the packed returned value (nothing
  for a void method); without a worker pool this happens at once, with one the request is queued
  and this happens when a worker performs it. A fault of the method is the server's.
\<close>

theorem remote_call_is_local_call:
  assumes "msgpack_codec (lb_msgpack lb) has_type"
    and "bound_to name cl d ob e"
    and "args_fit (lb_msgpack lb) has_type service name (cl_method cl) args"
  shows "\<exists>request.
    InvokeMethod lb sid oid
      (PackArgsToBuffer (lb_msgpack lb) (mp_string (lb_msgpack lb) service # mp_string (lb_msgpack lb) name # args)) e =
      (if 0 < work_thread_num (executor_options e)
       then Inr (e\<lparr>request_queue := BoostLockFreeQueue_Push (lb_requests lb) request (request_queue e)\<rparr>)
       else call_and_respond lb sid oid cl d ob args e)
    \<and> req_stream_id request = sid \<and> req_object_id request = oid \<and> req_method_name request = name
    \<and> (\<forall>e1 ob1. bound_to name cl d ob1 e1 \<longrightarrow>
        PerformRequest lb request e1 = call_and_respond lb sid oid cl d ob1 args e1)"
  by (rule InvokeMethod_packed [OF assms])

lemma wire_call:
  "PackArgsToBuffer (lb_msgpack wire_libs) (mp_string (lb_msgpack wire_libs) s # mp_string (lb_msgpack wire_libs) n # args) =
    wire_pack_tuple (WStr s # WStr n # args)"
  by (simp add: wire_libs_def wire_msgpack_def PackArgsToBuffer_def)

lemma wire_codec: "msgpack_codec (lb_msgpack wire_libs) wire_has_type"
  by (simp add: wire_libs_def wire.msgpack_codec_axioms)

definition add_closure :: "(service_state, wire_value) closure" where
  "add_closure = \<lparr>cl_method = ptr_add, cl_service_instance = 1\<rparr>"

lemma bound_example:
  "bound_to ''add'' add_closure \<lparr>service_name = [], service_object = 0\<rparr> Adder_object example_executor"
  by (simp add: bound_to_def example_executor_def add_closure_def)

lemma fits_example:
  "args_fit (lb_msgpack wire_libs) wire_has_type service ''add'' (cl_method add_closure) [WInt x, WInt y] \<longleftrightarrow>
    length service < 2 ^ 32"
  by (simp add: args_fit_def wire_libs_def wire_msgpack_def add_closure_def ptr_add_def BaseFunctionTraits_def
      cpp_int_def std_string_def)

text \<open>The example server computes 20 + 22.\<close>

theorem remote_call_is_local_call_witness:
  "\<exists>request. InvokeMethod wire_libs 7 3 (wire_pack_tuple [WStr ''Adder'', WStr ''add'', WInt 20, WInt 22]) example_executor =
      Inr (example_executor\<lparr>request_queue := StdLockedQueue_Push request (request_queue example_executor)\<rparr>)
    \<and> PerformRequest wire_libs request example_executor =
      Inr (push_response wire_libs \<lparr>rsp_object_id = 3, rsp_stream_id = 7, rsp_result = wire_pack (WInt 42)\<rparr>
            example_executor)"
proof -
  have fit: "args_fit (lb_msgpack wire_libs) wire_has_type ''Adder'' ''add'' (cl_method add_closure) [WInt 20, WInt 22]"
    by (simp only: fits_example) simp
  have pool: "0 < work_thread_num (executor_options example_executor)"
    by (simp add: example_executor_def Executor_def default_options_def)
  have same: "(objects example_executor)(0 \<mapsto> Adder_object) = objects example_executor"
    by (simp add: example_executor_def fun_eq_iff)
  have "call_and_respond wire_libs 7 3 add_closure \<lparr>service_name = [], service_object = 0\<rparr> Adder_object
      [WInt 20, WInt 22] example_executor =
    Inr (push_response wire_libs \<lparr>rsp_object_id = 3, rsp_stream_id = 7, rsp_result = wire_pack (WInt 42)\<rparr>
      example_executor)"
    by (simp add: call_and_respond_def call_result_def add_closure_def ptr_add_def Adder_add_def int_result_def
        wire_libs_def wire_msgpack_def same)
  then show ?thesis
    using remote_call_is_local_call [OF wire_codec bound_example fit, of 7 3] pool bound_example
    by (auto simp: PackArgsToBuffer_def wire_libs_def wire_msgpack_def BoostLockFreeQueue_Push_def locked_as_lockfree_def)
qed

section \<open>Which method is called\<close>


text \<open>
  A subtraction registered by another service under the name of the addition of \<^verbatim>\<open>Adder\<close>
  answers the calls of \<^verbatim>\<open>Adder::add\<close>: 50 and 8 give 42.
\<close>

definition direct_executor ::
  "(service_state, wire_value, wire_object DousiRequest std_locked_queue, DousiResponse std_locked_queue) executor" where
  "direct_executor = example_executor\<lparr>executor_options := default_options\<lparr>work_thread_num := 0\<rparr>\<rparr>"


section \<open>Messages that end the server\<close>

text \<open>
  C33: a message is trusted: an empty one makes the unpacking throw in the thread that
  reads the connection; one that names a method that is not registered makes the call of an
  empty function throw, at once without a worker pool and in the worker with one. Nothing
  catches the exception, so one message of any client ends the server.
\<close>

theorem bad_message_ends_server:
  assumes "msgpack_codec (lb_msgpack lb) has_type"
    and "list_all2 has_type tys (mp_string (lb_msgpack lb) service # mp_string (lb_msgpack lb) name # args)"
    and "length args + 2 < 2 ^ 32"
    and "registered_methods e name = None"
  shows "InvokeMethod lb sid oid [] e = Inl (Throws Msgpack_error)
    \<and> (\<exists>request.
      InvokeMethod lb sid oid
        (PackArgsToBuffer (lb_msgpack lb) (mp_string (lb_msgpack lb) service # mp_string (lb_msgpack lb) name # args)) e =
        (if 0 < work_thread_num (executor_options e)
         then Inr (e\<lparr>request_queue := BoostLockFreeQueue_Push (lb_requests lb) request (request_queue e)\<rparr>)
         else Inl (Throws Bad_function_call))
      \<and> PerformRequest lb request e = Inl (Throws Bad_function_call))"
proof -
  let ?mp = "lb_msgpack lb"
  let ?vs = "mp_string ?mp service # mp_string ?mp name # args"
  have "length ?vs < 2 ^ 32" using assms(3) by simp
  then obtain unpacked where u: "mp_unpack ?mp (mp_pack_tuple ?mp ?vs) = Inr unpacked"
    using msgpack_codec.tuple_roundtrip [OF assms(1,2)] by blast
  then have names: "mp_as_names ?mp unpacked = Inr (service, name)"
    using msgpack_codec.names_of_tuple [OF assms(1,2,3)] by blast
  let ?r = "\<lparr>req_object_id = oid, req_stream_id = sid, req_unpacked = unpacked, req_method_name = name\<rparr>"
  have "PerformRequest lb ?r e = Inl (Throws Bad_function_call)"
    using assms(4) by (simp add: PerformRequest_def compute_response_def find_method_def)
  then show ?thesis
    using u names msgpack_codec.unpack_nothing [OF assms(1)]
    by (intro conjI exI [of _ ?r]) (simp_all add: InvokeMethod_def PackArgsToBuffer_def Let_def)
qed

text \<open>A call of a method \<^verbatim>\<open>mul\<close> the example server does not have.\<close>

theorem bad_message_ends_server_witness:
  "InvokeMethod wire_libs 7 3 (wire_pack_tuple [WStr ''Adder'', WStr ''mul'', WInt 6, WInt 7]) direct_executor =
    Inl (Throws Bad_function_call)"
proof -
  have typed: "list_all2 wire_has_type [std_string, std_string, cpp_int, cpp_int]
      (mp_string (lb_msgpack wire_libs) ''Adder'' # mp_string (lb_msgpack wire_libs) ''mul'' # [WInt 6, WInt 7])"
    by (simp add: wire_libs_def wire_msgpack_def cpp_int_def)
  have short: "length [WInt 6, WInt 7] + 2 < 2 ^ 32" by simp
  have unknown: "registered_methods direct_executor ''mul'' = None"
    by (simp add: direct_executor_def example_executor_def)
  have "\<not> 0 < work_thread_num (executor_options direct_executor)"
    by (simp add: direct_executor_def)
  then show ?thesis
    using conjunct2 [OF bad_message_ends_server [OF wire_codec typed short unknown, of 7 3]]
    by (simp only: wire_call if_False) blast
qed

section \<open>Services that are gone\<close>

text \<open>
  Every call of the test server goes through a dangling pointer: each of its services
  is a local variable of a block that has ended when the loop starts, while the registered
  methods keep the address; a request for a registered method reaches the dead service, and
  one for any other name throws.
\<close>

theorem test_server_dangles:
  "\<exists>s. test_server = Inr s
    \<and> dom (registered_methods (srv_executor s)) = {''echo'', ''add'', ''sub'', ''IncrAge'', ''Perform'', ''Get''}
    \<and> (\<forall>request. PerformRequest wire_libs request (srv_executor s) =
        Inl (if req_method_name request \<in> dom (registered_methods (srv_executor s))
             then Dangling_pointer else Throws Bad_function_call))"
proof -
  obtain pool s where s: "test_server = Inr s" "srv_executor s = test_executor\<lparr>io_pool := pool\<rparr>"
    using test_server_eq by blast
  have dom: "dom (registered_methods (srv_executor s)) = {''echo'', ''add'', ''sub'', ''IncrAge'', ''Perform'', ''Get''}"
    by (auto simp: s(2) test_executor_def)
  have "PerformRequest wire_libs request (srv_executor s) =
      Inl (if req_method_name request \<in> dom (registered_methods (srv_executor s))
           then Dangling_pointer else Throws Bad_function_call)" for request
    by (simp add: dom PerformRequest_def compute_response_def find_method_def call_closure_def s(2)
        test_executor_def)
  with s(1) dom show ?thesis by blast
qed

section \<open>Isolation\<close>

text \<open>Requests performed one after the other.\<close>

fun perform_all ::
  "('v, 'o, 'q, 'r) libs \<Rightarrow> 'o DousiRequest list \<Rightarrow> ('s, 'v, 'q, 'r) executor \<Rightarrow> ('s, 'v, 'q, 'r) executor res" where
  "perform_all lb [] e = Inr e"
| "perform_all lb (r # rs) e = res_bind (PerformRequest lb r e) (perform_all lb rs)"

lemma PerformRequest_Inr:
  assumes "PerformRequest lb r e = Inr e'"
  obtains rsp cl d ob ob' where "registered_methods e (req_method_name r) = Some (Some cl)"
    and "instances e (cl_service_instance cl) = Some d" and "objects e (service_object d) = Some ob"
    and "rsp_object_id rsp = req_object_id r" and "rsp_stream_id rsp = req_stream_id r"
    and "InvokeHelper_Invoke (lb_msgpack lb) (cl_method cl) ob (req_unpacked r) [] = Inr (rsp_result rsp, ob')"
    and "e' = push_response lb rsp (e\<lparr>objects := (objects e)(service_object d \<mapsto> ob')\<rparr>)"
proof -
  obtain rsp e1 where "compute_response lb r e = Inr (rsp, e1)" and e': "e' = push_response lb rsp e1"
    using assms by (auto simp: PerformRequest_def res_bind_Inr_iff)
  from this(1) show ?thesis
  proof (rule compute_response_Inr)
    fix cl d ob ob'
    assume *: "registered_methods e (req_method_name r) = Some (Some cl)"
      "instances e (cl_service_instance cl) = Some d" "objects e (service_object d) = Some ob"
      "InvokeHelper_Invoke (lb_msgpack lb) (cl_method cl) ob (req_unpacked r) [] = Inr (rsp_result rsp, ob')"
      and rsp: "rsp = \<lparr>rsp_object_id = req_object_id r, rsp_stream_id = req_stream_id r, rsp_result = rsp_result rsp\<rparr>"
      and e1: "e1 = e\<lparr>objects := (objects e)(service_object d \<mapsto> ob')\<rparr>"
    have "rsp_object_id rsp = req_object_id r" "rsp_stream_id rsp = req_stream_id r"
      using arg_cong [OF rsp, of rsp_object_id] arg_cong [OF rsp, of rsp_stream_id] by simp_all
    then show ?thesis using that * e' e1 by blast
  qed
qed

lemma PerformRequest_frame:
  assumes "PerformRequest lb r e = Inr e'"
  shows "registered_methods e' = registered_methods e \<and> instances e' = instances e
    \<and> dom (objects e') = dom (objects e) \<and> next_addr e' = next_addr e \<and> streams e' = streams e
    \<and> curr_stream_id e' = curr_stream_id e \<and> io_pool e' = io_pool e
    \<and> request_queue e' = request_queue e \<and> executor_options e' = executor_options e"
  using assms by (rule PerformRequest_Inr) (auto simp: push_response_def)

lemma memory_ok_PerformRequest [inv_intros]:
  assumes "memory_ok e" and "PerformRequest lb r e = Inr e'"
  shows "memory_ok e'"
  using assms(1) PerformRequest_frame [OF assms(2)] by (simp add: memory_ok_def)

text \<open>A request that is not for a method of the service at address \<open>a\<close>.\<close>

definition not_for :: "nat \<Rightarrow> ('s, 'v, 'q, 'r) executor \<Rightarrow> 'o DousiRequest \<Rightarrow> bool" where
  "not_for a e r \<longleftrightarrow> (case registered_methods e (req_method_name r) of
       Some (Some cl) \<Rightarrow> cl_service_instance cl \<noteq> a
     | _ \<Rightarrow> True)"

lemma PerformRequest_other_object:
  assumes "memory_ok e" and "instances e a = Some d" and "not_for a e r"
    and "PerformRequest lb r e = Inr e'"
  shows "objects e' (service_object d) = objects e (service_object d)"
  using assms(4)
proof (rule PerformRequest_Inr)
  fix rsp cl d' ob ob'
  assume cl: "registered_methods e (req_method_name r) = Some (Some cl)"
    and d': "instances e (cl_service_instance cl) = Some d'"
    and e': "e' = push_response lb rsp (e\<lparr>objects := (objects e)(service_object d' \<mapsto> ob')\<rparr>)"
  have "cl_service_instance cl \<noteq> a" using assms(3) cl by (simp add: not_for_def)
  then have "service_object d' \<noteq> service_object d"
    using memory_okD(4) [OF assms(1) d' assms(2)] by blast
  then show ?thesis by (simp add: e' push_response_def)
qed

lemma perform_all_other_object:
  assumes "memory_ok e" and "instances e a = Some d" and "\<forall>r \<in> set rs. not_for a e r"
    and "perform_all lb rs e = Inr e'"
  shows "objects e' (service_object d) = objects e (service_object d)"
  using assms
proof (induction rs arbitrary: e)
  case (Cons r rs)
  obtain e1 where e1: "PerformRequest lb r e = Inr e1" "perform_all lb rs e1 = Inr e'"
    using Cons.prems(4) by (auto simp: res_bind_Inr_iff)
  note frame = PerformRequest_frame [OF e1(1)]
  have "objects e1 (service_object d) = objects e (service_object d)"
    using PerformRequest_other_object [OF Cons.prems(1,2) _ e1(1)] Cons.prems(3) by simp
  moreover have "objects e' (service_object d) = objects e1 (service_object d)"
    using Cons.IH [OF memory_ok_PerformRequest [OF Cons.prems(1) e1(1)] _ _ e1(2)] frame Cons.prems(2,3)
    by (simp add: not_for_def)
  ultimately show ?case by simp
qed simp

text \<open>
  C26: services do not share state: in every executor that the services' creation and
  destruction and calls can lead to, no sequence of calls of other services' methods changes the
  object of a live service.
\<close>

theorem services_isolated:
  assumes "memory_ok e" and "instances e a = Some d" and "\<forall>r \<in> set rs. not_for a e r"
    and "perform_all lb rs e = Inr e'"
  shows "objects e' (service_object d) = objects e (service_object d)"
  by (rule perform_all_other_object [OF assms])

text \<open>An addition and a subtraction leave the echo service's object as it was.\<close>

theorem services_isolated_witness:
  "\<exists>e' r. perform_all wire_libs [r, r] example_executor = Inr e' \<and> req_method_name r = ''add''
    \<and> objects e' 2 = Some Echoer_object"
proof -
  let ?d = "\<lparr>service_name = [], service_object = 0\<rparr> :: DousiService"
  let ?d2 = "\<lparr>service_name = [], service_object = 2\<rparr> :: DousiService"
  let ?r = "\<lparr>req_object_id = 0, req_stream_id = 0,
    req_unpacked = Obj_array [WStr ''Adder'', WStr ''add'', WInt 20, WInt 22], req_method_name = ''add''\<rparr>"
  have step: "\<exists>e'. PerformRequest wire_libs ?r e = Inr e' \<and> bound_to ''add'' add_closure ?d Adder_object e'"
    if "bound_to ''add'' add_closure ?d Adder_object e" for e
    using that
    by (simp add: bound_to_def PerformRequest_def compute_response_def find_method_def call_closure_def
        InvokeHelper_Invoke_def add_closure_def ptr_add_def Adder_add_def int_result_def wire_libs_def
        wire_msgpack_def BaseFunctionTraits_def cpp_int_def std_string_def push_response_def)
  obtain e1 where e1: "PerformRequest wire_libs ?r example_executor = Inr e1"
    "bound_to ''add'' add_closure ?d Adder_object e1"
    using step [OF bound_example] by blast
  obtain e2 where e2: "PerformRequest wire_libs ?r e1 = Inr e2"
    using step [OF e1(2)] by blast
  have run: "perform_all wire_libs [?r, ?r] example_executor = Inr e2"
    by (simp add: e1(1) e2)
  have echoer: "instances example_executor 3 = Some ?d2"
    and others: "\<forall>r \<in> set [?r, ?r]. not_for 3 example_executor r"
    by (simp_all add: example_executor_def not_for_def)
  have "objects e2 (service_object ?d2) = objects example_executor (service_object ?d2)"
    by (rule services_isolated [OF executors_memory_ok(1) echoer others run])
  then have "objects e2 2 = Some Echoer_object" by (simp add: example_executor_def)
  with run show ?thesis by (intro exI [of _ e2] exI [of _ ?r]) simp
qed

section \<open>Connections\<close>

text \<open>
  Every connection has an id of its own: after k accepts by a new executor with at
  least one event loop, k below 2 to the 64, the streams are exactly those with the ids 0 to
  k - 1, each stream carries the id it is registered under, and no accept faults.
\<close>

theorem connections_numbered:
  assumes "0 < io_thread_num options" and "k < 2 ^ 64"
  shows "\<exists>e. accepts k (Executor lb options :: ('s, 'v, 'q, 'r) executor) = Inr e
    \<and> dom (streams e) = {i. unat i < k}
    \<and> (\<forall>i st. streams e i = Some st \<longrightarrow> strm_id st = i)"
proof -
  let ?e = "Executor lb options :: ('s, 'v, 'q, 'r) executor"
  have new: "unat (curr_stream_id ?e) = 0" by (simp add: Executor_def)
  moreover have "streams_ok ?e" by (rule streams_ok_Executor [OF assms(1)])
  ultimately obtain e where e: "accepts k ?e = Inr e" "streams_ok e" "unat (curr_stream_id e) = k"
    using accepts_from [of ?e k] assms(2) by auto
  then have "dom (streams e) = {i. unat i < k}"
    by (auto simp: streams_ok_def word_less_nat_alt)
  with e show ?thesis by (auto simp: streams_ok_def)
qed

theorem connections_numbered_witness:
  "\<exists>e. accepts 3 (Executor wire_libs default_options :: (service_state, wire_value, _, _) executor) = Inr e \<and> dom (streams e) = {i. unat i < 3}"
proof -
  have "0 < io_thread_num default_options" by (simp add: default_options_def)
  from connections_numbered [OF this, of 3 wire_libs] show ?thesis by (auto)
qed

end
