(* ===== verification/Executor_Threads.thy ===== *)
theory Executor_Threads
  imports Executor_Calls "HOL-Library.Multiset"
begin

text \<open>
  The server's threads: the event loops that accept connections and read messages, the workers
  of \<^verbatim>\<open>LoopToPerformRequest\<close> and the writers of \<^verbatim>\<open>LoopToWriteResponse\<close>, as a step relation
  whose interleavings are all orders of the steps. A queue operation, a call of a method (with the
  lookup before it, in a map that no thread changes) and the completion of a read are one step each.
  Between the call of a method and the push of its response other threads may go on, so responses are
  queued in any order. A step that faults ends the process. The lemmas are proved in a locale over the two
  queues' contract.
\<close>

section \<open>Bytes from a connection\<close>

fun invoke_messages ::
  "('v, 'o, 'q, 'r) libs \<Rightarrow> message list \<Rightarrow> ('s, 'v, 'q, 'r) executor \<Rightarrow> ('s, 'v, 'q, 'r) executor res" where
  "invoke_messages lb [] e = Inr e"
| "invoke_messages lb ((stream_id, object_id, buffer) # ms) e =
     res_bind (InvokeMethod lb stream_id object_id buffer e) (invoke_messages lb ms)"

lemma invoke_messages_Nil: "invoke_messages lb [] = Inr"
  by (rule ext) simp

text \<open>The stream reads what it can, and each message goes to the callback \<^verbatim>\<open>DoAccept\<close> gave it.\<close>

definition on_bytes ::
  "('v, 'o, 'q, 'r) libs \<Rightarrow> u64 \<Rightarrow> bytes \<Rightarrow> ('s, 'v, 'q, 'r) executor \<Rightarrow> ('s, 'v, 'q, 'r) executor res" where
  "on_bytes lb stream_id bs e = (case streams e stream_id of
       None \<Rightarrow> Inr e
     | Some st \<Rightarrow>
         invoke_messages lb (snd (receive (lb_order lb) bs st))
           (e\<lparr>streams := (streams e)(stream_id \<mapsto> fst (receive (lb_order lb) bs st))\<rparr>))"

text \<open>A request is known to its client by the connection and the object id.\<close>

type_synonym call_key = "u64 \<times> u32"

definition message_key :: "message \<Rightarrow> call_key" where
  "message_key m = (fst m, fst (snd m))"

definition req_key :: "'o DousiRequest \<Rightarrow> call_key" where
  "req_key r = (req_stream_id r, req_object_id r)"

definition rsp_key :: "DousiResponse \<Rightarrow> call_key" where
  "rsp_key r = (rsp_stream_id r, rsp_object_id r)"

definition received_keys ::
  "('v, 'o, 'q, 'r) libs \<Rightarrow> u64 \<Rightarrow> bytes \<Rightarrow> ('s, 'v, 'q, 'r) executor \<Rightarrow> call_key list" where
  "received_keys lb stream_id bs e = (case streams e stream_id of
       None \<Rightarrow> []
     | Some st \<Rightarrow> map message_key (snd (receive (lb_order lb) bs st)))"

section \<open>The threads\<close>

text \<open>
  What each worker has at hand, a request it has popped or a response it is about to push, and what
  each writer is writing.
\<close>

datatype 'o job = Performs "'o DousiRequest" | Pushes DousiResponse

record ('s, 'v, 'o, 'q, 'r) server_threads =
  shared :: "('s, 'v, 'q, 'r) executor"
  workers :: "'o job option list"
  writers :: "DousiResponse option list"

definition start_threads :: "('s, 'v, 'q, 'r) executor \<Rightarrow> ('s, 'v, 'o, 'q, 'r) server_threads" where
  "start_threads e =
     \<lparr>shared = e, workers = replicate (work_thread_pool e) None, writers = replicate (write_thread_pool e) None\<rparr>"

datatype event = Received call_key | Responded call_key

text \<open>One step of the loop of a worker, and one of the loop of a writer.\<close>

inductive internal_step ::
  "('v, 'o, 'q, 'r) libs \<Rightarrow> ('s, 'v, 'o, 'q, 'r) server_threads \<Rightarrow> event list \<Rightarrow>
   ('s, 'v, 'o, 'q, 'r) server_threads res \<Rightarrow> bool" for lb where
  worker_pops:
    "i < length (workers t) \<Longrightarrow> workers t ! i = None \<Longrightarrow>
     lf_pop (lb_requests lb) (request_queue (shared t)) = Some (r, q) \<Longrightarrow>
     internal_step lb t [] (Inr (t\<lparr>shared := (shared t)\<lparr>request_queue := q\<rparr>, workers := (workers t)[i := Some (Performs r)]\<rparr>))"
| worker_performs:
    "i < length (workers t) \<Longrightarrow> workers t ! i = Some (Performs r) \<Longrightarrow>
     internal_step lb t []
       (res_bind (compute_response lb r (shared t))
         (\<lambda>(x, e). Inr (t\<lparr>shared := e, workers := (workers t)[i := Some (Pushes x)]\<rparr>)))"
| worker_pushes:
    "i < length (workers t) \<Longrightarrow> workers t ! i = Some (Pushes x) \<Longrightarrow>
     internal_step lb t []
       (Inr (t\<lparr>shared := push_response lb x (shared t), workers := (workers t)[i := None]\<rparr>))"
| writer_pops:
    "i < length (writers t) \<Longrightarrow> writers t ! i = None \<Longrightarrow>
     lf_pop (lb_responses lb) (response_queue (shared t)) = Some (x, q) \<Longrightarrow>
     internal_step lb t [] (Inr (t\<lparr>shared := (shared t)\<lparr>response_queue := q\<rparr>, writers := (writers t)[i := Some x]\<rparr>))"
| writer_writes:
    "i < length (writers t) \<Longrightarrow> writers t ! i = Some x \<Longrightarrow>
     internal_step lb t [Responded (rsp_key x)]
       (res_bind (write_response lb x (shared t)) (\<lambda>e. Inr (t\<lparr>shared := e, writers := (writers t)[i := None]\<rparr>)))"

text \<open>
  A connection comes in, or bytes of one do. The ids of connections do not run over: the
  acceptor is not followed beyond 2 to the 64 connections.
\<close>

inductive external_step ::
  "('v, 'o, 'q, 'r) libs \<Rightarrow> ('s, 'v, 'o, 'q, 'r) server_threads \<Rightarrow> event list \<Rightarrow>
   ('s, 'v, 'o, 'q, 'r) server_threads res \<Rightarrow> bool" for lb where
  connection:
    "unat (curr_stream_id (shared t)) + 1 < 2 ^ 64 \<Longrightarrow>
     external_step lb t [] (res_bind (on_accept failed (shared t)) (\<lambda>e. Inr (t\<lparr>shared := e\<rparr>)))"
| bytes_arrive:
    "external_step lb t (map Received (received_keys lb stream_id bs (shared t)))
       (res_bind (on_bytes lb stream_id bs (shared t)) (\<lambda>e. Inr (t\<lparr>shared := e\<rparr>)))"

inductive server_run ::
  "('v, 'o, 'q, 'r) libs \<Rightarrow> ('s, 'v, 'o, 'q, 'r) server_threads \<Rightarrow> event list \<Rightarrow>
   ('s, 'v, 'o, 'q, 'r) server_threads res \<Rightarrow> bool" for lb where
  run_start: "server_run lb t [] (Inr t)"
| run_internal: "server_run lb t evs (Inr t') \<Longrightarrow> internal_step lb t' ev r \<Longrightarrow> server_run lb t (evs @ ev) r"
| run_external: "server_run lb t evs (Inr t') \<Longrightarrow> external_step lb t' ev r \<Longrightarrow> server_run lb t (evs @ ev) r"

inductive_cases internal_step_elim: "internal_step lb t ev r"
inductive_cases external_step_elim: "external_step lb t ev r"

section \<open>What is in flight\<close>

fun busy :: "'a option list \<Rightarrow> 'a list" where
  "busy [] = []"
| "busy (None # xs) = busy xs"
| "busy (Some x # xs) = x # busy xs"

lemma busy_replicate_None [simp]: "busy (replicate n None) = []"
  by (induction n) simp_all

lemma busy_take:
  "i < length xs \<Longrightarrow> xs ! i = None \<Longrightarrow> mset (busy (xs[i := Some r])) = add_mset r (mset (busy xs))"
proof (induction xs arbitrary: i rule: busy.induct)
  case (2 xs)
  then show ?case by (cases i) simp_all
next
  case (3 x xs)
  then show ?case by (cases i) simp_all
qed simp

lemma busy_release:
  "i < length xs \<Longrightarrow> xs ! i = Some r \<Longrightarrow> mset (busy xs) = add_mset r (mset (busy (xs[i := None])))"
proof (induction xs arbitrary: i rule: busy.induct)
  case (2 xs)
  then show ?case by (cases i) simp_all
next
  case (3 x xs)
  then show ?case by (cases i) simp_all
qed simp

lemma busy_length_take:
  "i < length xs \<Longrightarrow> xs ! i = None \<Longrightarrow> length (busy (xs[i := Some r])) = Suc (length (busy xs))"
  using arg_cong [OF busy_take, of i xs size r] by simp

lemma busy_length_release:
  "i < length xs \<Longrightarrow> xs ! i = Some r \<Longrightarrow> length (busy xs) = Suc (length (busy (xs[i := None])))"
  using arg_cong [OF busy_release, of i xs r size] by simp

lemma busy_Nil_iff: "busy xs = [] \<longleftrightarrow> (\<forall>x \<in> set xs. x = None)"
  by (induction xs rule: busy.induct) auto

text \<open>The requests and the responses at the workers' hands.\<close>

fun performing :: "'o job option list \<Rightarrow> 'o DousiRequest list" where
  "performing [] = []"
| "performing (Some (Performs r) # ws) = r # performing ws"
| "performing (_ # ws) = performing ws"

fun pushing :: "'o job option list \<Rightarrow> DousiResponse list" where
  "pushing [] = []"
| "pushing (Some (Pushes x) # ws) = x # pushing ws"
| "pushing (_ # ws) = pushing ws"

lemma jobs_None: "\<forall>w \<in> set ws. w = None \<Longrightarrow> performing ws = [] \<and> pushing ws = []"
  by (induction ws) auto

lemma jobs_replicate [simp]: "performing (replicate n None) = []" "pushing (replicate n None) = []"
  by (induction n) simp_all

lemma job_taken:
  "i < length ws \<Longrightarrow> ws ! i = None \<Longrightarrow>
   mset (performing (ws[i := Some (Performs r)])) = add_mset r (mset (performing ws))
   \<and> pushing (ws[i := Some (Performs r)]) = pushing ws"
proof (induction ws arbitrary: i)
  case (Cons w ws)
  then show ?case by (cases i; cases "(w # ws)" rule: performing.cases; cases "(w # ws)" rule: pushing.cases) auto
qed simp

lemma job_performed:
  "i < length ws \<Longrightarrow> ws ! i = Some (Performs r) \<Longrightarrow>
   mset (performing ws) = add_mset r (mset (performing (ws[i := Some (Pushes x)])))
   \<and> mset (pushing (ws[i := Some (Pushes x)])) = add_mset x (mset (pushing ws))"
proof (induction ws arbitrary: i)
  case (Cons w ws)
  then show ?case by (cases i; cases "(w # ws)" rule: performing.cases; cases "(w # ws)" rule: pushing.cases) auto
qed simp

lemma job_pushed:
  "i < length ws \<Longrightarrow> ws ! i = Some (Pushes x) \<Longrightarrow>
   performing (ws[i := None]) = performing ws \<and> mset (pushing ws) = add_mset x (mset (pushing (ws[i := None])))"
proof (induction ws arbitrary: i)
  case (Cons w ws)
  then show ?case by (cases i; cases "(w # ws)" rule: performing.cases; cases "(w # ws)" rule: pushing.cases) auto
qed simp

text \<open>Their numbers and members.\<close>

lemmas job_sizes =
  job_taken [THEN conjunct1, THEN arg_cong [where f = size], simplified]
  job_performed [THEN conjunct1, THEN arg_cong [where f = size], simplified]
  job_performed [THEN conjunct2, THEN arg_cong [where f = size], simplified]
  job_pushed [THEN conjunct2, THEN arg_cong [where f = size], simplified]

lemmas job_sets =
  job_taken [THEN conjunct1, THEN arg_cong [where f = set_mset], simplified]
  job_performed [THEN conjunct1, THEN arg_cong [where f = set_mset], simplified]
  job_performed [THEN conjunct2, THEN arg_cong [where f = set_mset], simplified]
  job_pushed [THEN conjunct2, THEN arg_cong [where f = set_mset], simplified]

lemma job_at_hand: "i < length ws \<Longrightarrow> ws ! i = Some (Performs r) \<Longrightarrow> r \<in> set (performing ws)"
  using job_sets(2) by blast

text \<open>A call changes the objects only, and its response has the request's key.\<close>

lemma compute_response_frame:
  assumes "compute_response lb r e = Inr (x, e1)"
  obtains obs where "e1 = e\<lparr>objects := obs\<rparr>" and "rsp_key x = req_key r"
  using assms
proof (rule compute_response_Inr)
  fix cl d ob ob'
  assume x: "x = \<lparr>rsp_object_id = req_object_id r, rsp_stream_id = req_stream_id r, rsp_result = rsp_result x\<rparr>"
    and e1: "e1 = e\<lparr>objects := (objects e)(service_object d \<mapsto> ob')\<rparr>"
  have "rsp_object_id x = req_object_id r" "rsp_stream_id x = req_stream_id r"
    using arg_cong [OF x, of rsp_object_id] arg_cong [OF x, of rsp_stream_id] by simp_all
  with that [OF e1] show ?thesis by (simp add: rsp_key_def req_key_def)
qed

text \<open>The calls queued for or held by the threads.\<close>

definition queued ::
  "('q \<Rightarrow> 'o DousiRequest list) \<Rightarrow> ('r \<Rightarrow> DousiResponse list) \<Rightarrow> ('s, 'v, 'q, 'r) executor \<Rightarrow> call_key multiset" where
  "queued rq rs e = image_mset req_key (mset (rq (request_queue e))) + image_mset rsp_key (mset (rs (response_queue e)))"

definition in_flight ::
  "('q \<Rightarrow> 'o DousiRequest list) \<Rightarrow> ('r \<Rightarrow> DousiResponse list) \<Rightarrow> ('s, 'v, 'o, 'q, 'r) server_threads \<Rightarrow> call_key multiset" where
  "in_flight rq rs t = queued rq rs (shared t) + image_mset req_key (mset (performing (workers t)))
     + image_mset rsp_key (mset (pushing (workers t))) + image_mset rsp_key (mset (busy (writers t)))"

text \<open>The steps the threads still have to make for what is in flight.\<close>

definition work_left ::
  "('q \<Rightarrow> 'o DousiRequest list) \<Rightarrow> ('r \<Rightarrow> DousiResponse list) \<Rightarrow> ('s, 'v, 'o, 'q, 'r) server_threads \<Rightarrow> nat" where
  "work_left rq rs t = 5 * length (rq (request_queue (shared t))) + 4 * length (performing (workers t))
     + 3 * length (pushing (workers t)) + 2 * length (rs (response_queue (shared t))) + length (busy (writers t))"

text \<open>
  The invariant: the connections are in order, everything in flight is of a connection that
  is there, there are as many workers as configured, and without workers no request is queued.
\<close>

definition threads_ok ::
  "('q \<Rightarrow> 'o DousiRequest list) \<Rightarrow> ('r \<Rightarrow> DousiResponse list) \<Rightarrow> ('s, 'v, 'o, 'q, 'r) server_threads \<Rightarrow> bool" where
  "threads_ok rq rs t \<longleftrightarrow> streams_ok (shared t)
     \<and> (\<forall>k \<in># in_flight rq rs t. fst k \<in> dom (streams (shared t)))
     \<and> length (workers t) = unat (work_thread_num (executor_options (shared t)))
     \<and> (workers t = [] \<longrightarrow> rq (request_queue (shared t)) = [])"

lemma threads_ok_change:
  assumes "threads_ok rq rs t" and "streams_ok (shared t')"
    and "dom (streams (shared t)) \<subseteq> dom (streams (shared t'))"
    and "set_mset (in_flight rq rs t') \<subseteq> set_mset (in_flight rq rs t) \<union> new"
    and "\<forall>k \<in> new. fst k \<in> dom (streams (shared t'))"
    and "length (workers t') = length (workers t)"
    and "executor_options (shared t') = executor_options (shared t)"
    and "workers t = [] \<Longrightarrow> rq (request_queue (shared t)) = [] \<Longrightarrow> rq (request_queue (shared t')) = []"
  shows "threads_ok rq rs t'"
proof -
  have "fst k \<in> dom (streams (shared t'))" if "k \<in># in_flight rq rs t'" for k
  proof (cases "k \<in> new")
    case True
    then show ?thesis using assms(5) by blast
  next
    case False
    then have "k \<in># in_flight rq rs t" using that assms(4) by blast
    then show ?thesis using assms(1,3) unfolding threads_ok_def by blast
  qed
  then show ?thesis
    using assms(1,2,6,7,8) by (auto simp: threads_ok_def simp del: length_0_conv simp flip: length_0_conv)
qed

text \<open>An executor before its first request.\<close>

definition serving ::
  "('q \<Rightarrow> 'o DousiRequest list) \<Rightarrow> ('r \<Rightarrow> DousiResponse list) \<Rightarrow> ('s, 'v, 'q, 'r) executor \<Rightarrow> bool" where
  "serving rq rs e \<longleftrightarrow> streams_ok e \<and> queued rq rs e = {#}
     \<and> work_thread_pool e = unat (work_thread_num (executor_options e)) \<and> 0 < write_thread_pool e"

fun received :: "event list \<Rightarrow> call_key multiset" where
  "received [] = {#}"
| "received (Received k # evs) = add_mset k (received evs)"
| "received (Responded k # evs) = received evs"

fun responded :: "event list \<Rightarrow> call_key multiset" where
  "responded [] = {#}"
| "responded (Received k # evs) = responded evs"
| "responded (Responded k # evs) = add_mset k (responded evs)"

lemma received_append [simp]: "received (xs @ ys) = received xs + received ys"
  by (induction xs rule: received.induct) simp_all

lemma responded_append [simp]: "responded (xs @ ys) = responded xs + responded ys"
  by (induction xs rule: responded.induct) simp_all

lemma received_map [simp]: "received (map Received ks) = mset ks" "responded (map Received ks) = {#}"
  by (induction ks) simp_all

lemma in_flight_trans:
  fixes a b c :: "call_key multiset"
  assumes "a + r = b + s" and "b + r' = c + s'"
  shows "a + (r + r') = c + (s + s')"
proof -
  have "a + (r + r') = (b + s) + r'" by (simp add: assms(1) [symmetric] ac_simps)
  also have "\<dots> = (b + r') + s" by (simp add: ac_simps)
  finally show ?thesis by (simp add: assms(2) ac_simps)
qed

section \<open>Lemmas over the queues' contract\<close>

locale executor_queues =
  req: growing_boost_queue "lb_requests lb" rq + rsp: growing_boost_queue "lb_responses lb" rs
  for lb :: "('v, 'o, 'q, 'r) libs"
    and rq :: "'q \<Rightarrow> 'o DousiRequest list"
    and rs :: "'r \<Rightarrow> DousiResponse list"
begin

lemma perform_queued:
  assumes "PerformRequest lb r e = Inr e'"
  shows "\<exists>x. rsp_key x = req_key r \<and> rs (response_queue e') = rs (response_queue e) @ [x]"
  using assms
proof (rule PerformRequest_Inr)
  fix x cl d ob ob'
  assume "rsp_object_id x = req_object_id r" "rsp_stream_id x = req_stream_id r"
    and e': "e' = push_response lb x (e\<lparr>objects := (objects e)(service_object d \<mapsto> ob')\<rparr>)"
  then have "rsp_key x = req_key r" by (simp add: rsp_key_def req_key_def)
  then show ?thesis by (auto simp: e' push_response_def rsp.contents_push)
qed

lemma perform_in_flight:
  assumes "PerformRequest lb r e = Inr e'"
  shows "queued rq rs e' = add_mset (req_key r) (queued rq rs e)"
  using perform_queued [OF assms] PerformRequest_frame [OF assms] by (auto simp: queued_def)

lemma invoke_queued:
  assumes "InvokeMethod lb sid oid buffer e = Inr e'"
  shows "queued rq rs e' = add_mset (sid, oid) (queued rq rs e)
    \<and> streams e' = streams e \<and> curr_stream_id e' = curr_stream_id e \<and> io_pool e' = io_pool e
    \<and> executor_options e' = executor_options e
    \<and> (work_thread_num (executor_options e) = 0 \<longrightarrow> request_queue e' = request_queue e)"
proof -
  obtain unpacked service name where
    *: "(if 0 < work_thread_num (executor_options e)
      then Inr (e\<lparr>request_queue := BoostLockFreeQueue_Push (lb_requests lb)
        \<lparr>req_object_id = oid, req_stream_id = sid, req_unpacked = unpacked, req_method_name = name\<rparr> (request_queue e)\<rparr>)
      else PerformRequest lb \<lparr>req_object_id = oid, req_stream_id = sid, req_unpacked = unpacked, req_method_name = name\<rparr> e) = Inr e'"
    using assms by (auto simp: InvokeMethod_def res_bind_Inr_iff Let_def)
  show ?thesis
  proof (cases "0 < work_thread_num (executor_options e)")
    case True
    with * have "e' = e\<lparr>request_queue := BoostLockFreeQueue_Push (lb_requests lb)
        \<lparr>req_object_id = oid, req_stream_id = sid, req_unpacked = unpacked, req_method_name = name\<rparr> (request_queue e)\<rparr>"
      by simp
    with True show ?thesis by (auto simp: queued_def req.contents_push req_key_def)
  next
    case False
    with * have p: "PerformRequest lb \<lparr>req_object_id = oid, req_stream_id = sid, req_unpacked = unpacked, req_method_name = name\<rparr> e = Inr e'"
      by simp
    from perform_in_flight [OF p] PerformRequest_frame [OF p] show ?thesis by (simp add: req_key_def)
  qed
qed

lemma invoke_messages_queued:
  assumes "invoke_messages lb ms e = Inr e'"
  shows "queued rq rs e' = mset (map message_key ms) + queued rq rs e
    \<and> streams e' = streams e \<and> curr_stream_id e' = curr_stream_id e \<and> io_pool e' = io_pool e
    \<and> executor_options e' = executor_options e
    \<and> (work_thread_num (executor_options e) = 0 \<longrightarrow> request_queue e' = request_queue e)"
  using assms
proof (induction ms arbitrary: e)
  case (Cons m ms)
  obtain sid oid buffer where m: "m = (sid, oid, buffer)" by (cases m)
  obtain e1 where e1: "InvokeMethod lb sid oid buffer e = Inr e1" "invoke_messages lb ms e1 = Inr e'"
    using Cons.prems by (auto simp: res_bind_Inr_iff m)
  from invoke_queued [OF e1(1)] Cons.IH [OF e1(2)] show ?case
    by (simp add: message_key_def m)
qed simp

lemma on_bytes_frame:
  assumes "on_bytes lb sid bs e = Inr e'" and "streams_ok e"
  shows "queued rq rs e' = mset (received_keys lb sid bs e) + queued rq rs e
    \<and> dom (streams e') = dom (streams e) \<and> streams_ok e' \<and> executor_options e' = executor_options e
    \<and> (work_thread_num (executor_options e) = 0 \<longrightarrow> request_queue e' = request_queue e)
    \<and> (\<forall>k \<in> set (received_keys lb sid bs e). fst k \<in> dom (streams e))"
proof (cases "streams e sid")
  case None
  with assms show ?thesis by (simp add: on_bytes_def received_keys_def)
next
  case (Some st)
  let ?e = "e\<lparr>streams := (streams e)(sid \<mapsto> fst (receive (lb_order lb) bs st))\<rparr>"
  let ?ms = "snd (receive (lb_order lb) bs st)"
  have run: "invoke_messages lb ?ms ?e = Inr e'"
    using assms(1) Some by (simp add: on_bytes_def)
  have id: "strm_id st = sid" using assms(2) Some by (simp add: streams_ok_def)
  have ok: "streams_ok ?e"
    using assms(2) Some id by (auto simp: streams_ok_def)
  have "fst m = sid" if "m \<in> set ?ms" for m
    using read_loop_message_ids [of m "lb_order lb" "st\<lparr>strm_inbuf := strm_inbuf st @ bs\<rparr>"] that id
    by (simp add: receive_def)
  then have keys: "\<forall>k \<in> set (received_keys lb sid bs e). fst k \<in> dom (streams e)"
    using Some by (auto simp: received_keys_def message_key_def)
  note frame = invoke_messages_queued [OF run]
  have "streams_ok e'"
    using ok frame streams_ok_cong [of e' ?e] by simp
  moreover have "dom (streams e') = dom (streams e)"
    using frame Some by auto
  ultimately show ?thesis
    using frame keys Some by (simp add: received_keys_def queued_def)
qed

lemma on_accept_frame:
  assumes "on_accept failed e = Inr e'" and "streams_ok e" and "unat (curr_stream_id e) + 1 < 2 ^ 64"
  shows "streams_ok e' \<and> dom (streams e) \<subseteq> dom (streams e') \<and> request_queue e' = request_queue e
    \<and> response_queue e' = response_queue e \<and> executor_options e' = executor_options e"
  using assms on_accept_ok [OF assms(2,3), of failed]
  by (auto simp: on_accept_eq DoAccept_def res_bind_Inr_iff add_stream_def split: if_splits prod.splits)

subsection \<open>Nothing is lost and nothing is made up\<close>

lemma internal_step_in_flight:
  assumes "internal_step lb t ev (Inr t')"
  shows "in_flight rq rs t + received ev = in_flight rq rs t' + responded ev"
  using assms
proof (cases rule: internal_step.cases)
  case (worker_pops i r q)
  then show ?thesis by (simp add: in_flight_def queued_def req.pop_Some job_taken)
next
  case (worker_performs i r)
  then obtain x e where e: "compute_response lb r (shared t) = Inr (x, e)"
    "t' = t\<lparr>shared := e, workers := (workers t)[i := Some (Pushes x)]\<rparr>"
    by (auto simp: Inr_res_bind_iff)
  from e(1) obtain obs where "e = (shared t)\<lparr>objects := obs\<rparr>" "rsp_key x = req_key r"
    by (rule compute_response_frame)
  with e(2) worker_performs job_performed [OF worker_performs(3,4), of x] show ?thesis
    by (simp add: in_flight_def queued_def)
next
  case (worker_pushes i x)
  with job_pushed [OF worker_pushes(3,4)] show ?thesis
    by (simp add: in_flight_def queued_def push_response_def rsp.contents_push)
next
  case (writer_pops i x q)
  then show ?thesis by (simp add: in_flight_def queued_def rsp.pop_Some busy_take)
next
  case (writer_writes i x)
  then obtain e where e: "write_response lb x (shared t) = Inr e"
    "t' = t\<lparr>shared := e, writers := (writers t)[i := None]\<rparr>"
    by (auto simp: Inr_res_bind_iff)
  then have "queued rq rs e = queued rq rs (shared t)"
    by (auto simp: write_response_def queued_def split: option.splits)
  with e writer_writes show ?thesis
    by (simp add: in_flight_def busy_release)
qed

lemma internal_step_work:
  assumes "internal_step lb t ev (Inr t')"
  shows "work_left rq rs t' < work_left rq rs t"
  using assms
proof (cases rule: internal_step.cases)
  case (worker_pops i r q)
  with job_sizes(1) [OF worker_pops(3,4), of r] job_taken [OF worker_pops(3,4), of r] show ?thesis
    by (simp add: work_left_def req.pop_Some)
next
  case (worker_performs i r)
  then obtain x e where e: "compute_response lb r (shared t) = Inr (x, e)"
    "t' = t\<lparr>shared := e, workers := (workers t)[i := Some (Pushes x)]\<rparr>"
    by (auto simp: Inr_res_bind_iff)
  from e(1) obtain obs where "e = (shared t)\<lparr>objects := obs\<rparr>" by (rule compute_response_frame)
  with e(2) job_sizes(2,3) [OF worker_performs(3,4), of x] show ?thesis by (simp add: work_left_def)
next
  case (worker_pushes i x)
  with job_pushed [OF worker_pushes(3,4)] job_sizes(4) [OF worker_pushes(3,4)] show ?thesis
    by (simp add: work_left_def push_response_def rsp.contents_push)
next
  case (writer_pops i x q)
  with busy_length_take [of i "writers t" x] show ?thesis
    by (simp add: work_left_def rsp.pop_Some)
next
  case (writer_writes i x)
  then obtain e where e: "write_response lb x (shared t) = Inr e"
    "t' = t\<lparr>shared := e, writers := (writers t)[i := None]\<rparr>"
    by (auto simp: Inr_res_bind_iff)
  then have "request_queue e = request_queue (shared t) \<and> response_queue e = response_queue (shared t)"
    by (auto simp: write_response_def split: option.splits)
  with e writer_writes busy_length_release [of i "writers t" x] show ?thesis
    by (simp add: work_left_def)
qed

subsection \<open>The invariant\<close>

lemma write_response_in_order:
  assumes "threads_ok rq rs t" and "i < length (writers t)" and "writers t ! i = Some x"
  shows "\<exists>e'. write_response lb x (shared t) = Inr e' \<and> streams_ok e' \<and> dom (streams e') = dom (streams (shared t))"
proof (rule write_response_ok)
  show "streams_ok (shared t)" using assms(1) by (simp add: threads_ok_def)
  have "rsp_key x \<in># in_flight rq rs t"
    by (simp add: in_flight_def busy_release [OF assms(2,3)])
  then show "rsp_stream_id x \<in> dom (streams (shared t))"
    using assms(1) by (auto simp: threads_ok_def rsp_key_def dest: bspec)
qed

lemma internal_step_ok:
  assumes "internal_step lb t ev (Inr t')" and "threads_ok rq rs t"
  shows "threads_ok rq rs t'"
proof -
  have "received ev = {#}" using assms(1) by (rule internal_step_elim) auto
  then have less: "set_mset (in_flight rq rs t') \<subseteq> set_mset (in_flight rq rs t) \<union> {}"
    using arg_cong [OF internal_step_in_flight [OF assms(1)], of set_mset] by auto
  have ok: "streams_ok (shared t)" using assms(2) by (simp add: threads_ok_def)
  note change = threads_ok_change [OF assms(2) _ _ less]
  show ?thesis
    using assms(1)
  proof (cases rule: internal_step.cases)
    case (worker_pops i r q)
    then show ?thesis
      using ok by (intro change) (auto simp: streams_ok_def)
  next
    case (worker_performs i r)
    then obtain x e where e: "compute_response lb r (shared t) = Inr (x, e)"
      "t' = t\<lparr>shared := e, workers := (workers t)[i := Some (Pushes x)]\<rparr>"
      by (auto simp: Inr_res_bind_iff)
    from e(1) obtain obs where "e = (shared t)\<lparr>objects := obs\<rparr>" by (rule compute_response_frame)
    with e(2) ok show ?thesis by (intro change) (auto simp: streams_ok_def)
  next
    case (worker_pushes i x)
    with ok show ?thesis by (intro change) (auto simp: streams_ok_def push_response_def)
  next
    case (writer_pops i x q)
    then show ?thesis
      using ok by (intro change) (auto simp: streams_ok_def)
  next
    case (writer_writes i x)
    then obtain e where e: "write_response lb x (shared t) = Inr e"
      "t' = t\<lparr>shared := e, writers := (writers t)[i := None]\<rparr>"
      by (auto simp: Inr_res_bind_iff)
    have "streams_ok e \<and> dom (streams e) = dom (streams (shared t))"
      using write_response_in_order [OF assms(2) writer_writes(3,4)] e(1) by auto
    moreover have "request_queue e = request_queue (shared t) \<and> executor_options e = executor_options (shared t)"
      using e(1) by (auto simp: write_response_def split: option.splits)
    ultimately show ?thesis
      using e(2) by (intro change) auto
  qed
qed

lemma external_step_ok:
  assumes "external_step lb t ev (Inr t')" and "threads_ok rq rs t"
  shows "threads_ok rq rs t' \<and> in_flight rq rs t + received ev = in_flight rq rs t' + responded ev"
  using assms(1)
proof (cases rule: external_step.cases)
  case (connection failed)
  then obtain e where e: "on_accept failed (shared t) = Inr e" "t' = t\<lparr>shared := e\<rparr>"
    by (auto simp: Inr_res_bind_iff)
  have "streams_ok (shared t)" using assms(2) by (simp add: threads_ok_def)
  note frame = on_accept_frame [OF e(1) this connection(3)]
  have same: "in_flight rq rs t' = in_flight rq rs t"
    using frame e(2) by (simp add: in_flight_def queued_def)
  have "threads_ok rq rs t'"
    by (rule threads_ok_change [OF assms(2), where new = "{}"]) (use frame e(2) same in auto)
  with same connection(1) show ?thesis by simp
next
  case (bytes_arrive sid bs)
  then obtain e where e: "on_bytes lb sid bs (shared t) = Inr e" "t' = t\<lparr>shared := e\<rparr>"
    by (auto simp: Inr_res_bind_iff)
  have "streams_ok (shared t)" using assms(2) by (simp add: threads_ok_def)
  note frame = on_bytes_frame [OF e(1) this]
  have more: "in_flight rq rs t' = mset (received_keys lb sid bs (shared t)) + in_flight rq rs t"
    using frame e(2) by (simp add: in_flight_def)
  have no_pool: "workers t = [] \<Longrightarrow> work_thread_num (executor_options (shared t)) = 0"
    using assms(2) by (simp add: threads_ok_def word_unat_eq_iff)
  have "set_mset (in_flight rq rs t') \<subseteq> set_mset (in_flight rq rs t) \<union> set (received_keys lb sid bs (shared t))"
    by (auto simp: more)
  from threads_ok_change [OF assms(2) _ _ this] have "threads_ok rq rs t'"
    using frame e(2) no_pool by simp
  with more bytes_arrive(1) show ?thesis by simp
qed

lemma server_run_ok:
  assumes "server_run lb t evs r" and "threads_ok rq rs t" and "r = Inr t'"
  shows "threads_ok rq rs t' \<and> in_flight rq rs t + received evs = in_flight rq rs t' + responded evs"
  using assms
proof (induction arbitrary: t' rule: server_run.induct)
  case (run_internal t evs t1 ev r)
  then have "internal_step lb t1 ev (Inr t')" by simp
  from internal_step_ok [OF this] in_flight_trans [OF _ internal_step_in_flight [OF this]]
    run_internal.IH [OF run_internal.prems(1) refl]
  show ?case by simp
next
  case (run_external t evs t1 ev r)
  then have "external_step lb t1 ev (Inr t')" by simp
  from external_step_ok [OF this] in_flight_trans [of _ _ "in_flight rq rs t1"]
    run_external.IH [OF run_external.prems(1) refl]
  show ?case by simp
qed simp

lemma start_threads_ok:
  assumes "serving rq rs e"
  shows "threads_ok rq rs (start_threads e) \<and> in_flight rq rs (start_threads e) = {#}"
  using assms by (simp add: threads_ok_def in_flight_def start_threads_def queued_def serving_def)

subsection \<open>The threads come to rest only when nothing is in flight\<close>

lemma queue_pops: "rq q = x # xs \<Longrightarrow> \<exists>q'. lf_pop (lb_requests lb) q = Some (x, q')"
  "rs p = y # ys \<Longrightarrow> \<exists>p'. lf_pop (lb_responses lb) p = Some (y, p')"
  using req.pop_head rsp.pop_head by blast+

lemma at_rest:
  assumes ok: "threads_ok rq rs t" and "writers t \<noteq> []" and rest: "\<nexists>ev r. internal_step lb t ev r"
  shows "in_flight rq rs t = {#}"
proof -
  have "writers t ! i = None" if "i < length (writers t)" for i
    using rest writer_writes [OF that] by (cases "writers t ! i") auto
  then have writers: "busy (writers t) = []" and w0: "0 < length (writers t)" "writers t ! 0 = None"
    using assms(2) by (auto simp: busy_Nil_iff in_set_conv_nth)
  have workers_None: "workers t ! i = None" if "i < length (workers t)" for i
  proof (cases "workers t ! i")
    case (Some j)
    with rest worker_performs [OF that] worker_pushes [OF that] show ?thesis by (cases j) auto
  qed simp
  then have workers: "performing (workers t) = [] \<and> pushing (workers t) = []"
    by (intro jobs_None) (auto simp: in_set_conv_nth)
  have "rs (response_queue (shared t)) = []"
  proof (cases "rs (response_queue (shared t))")
    case (Cons y ys)
    with queue_pops(2) rest writer_pops [OF w0] show ?thesis by metis
  qed simp
  moreover have "rq (request_queue (shared t)) = []"
  proof (cases "workers t = []")
    case True
    with ok show ?thesis by (simp add: threads_ok_def)
  next
    case False
    then have "0 < length (workers t)" by simp
    note pops = worker_pops [OF this workers_None [OF this]]
    show ?thesis
    proof (cases "rq (request_queue (shared t))")
      case (Cons x xs)
      with queue_pops(1) rest pops show ?thesis by metis
    qed simp
  qed
  ultimately show ?thesis
    by (simp add: in_flight_def queued_def writers workers)
qed

lemma nothing_left:
  assumes "in_flight rq rs t = {#}"
  shows "\<nexists>ev r. internal_step lb t ev r"
proof
  assume "\<exists>ev r. internal_step lb t ev r"
  then obtain ev r where "internal_step lb t ev r" by blast
  then show False
  proof (cases rule: internal_step.cases)
    case (worker_pops i r q)
    from req.pop_Some [OF worker_pops(5)] assms show False by (simp add: in_flight_def queued_def)
  next
    case (worker_performs i r)
    from job_performed [OF worker_performs(3,4)] assms show False by (auto simp: in_flight_def)
  next
    case (worker_pushes i x)
    from job_pushed [OF worker_pushes(3,4)] assms show False by (simp add: in_flight_def)
  next
    case (writer_pops i x q)
    from rsp.pop_Some [OF writer_pops(5)] assms show False by (simp add: in_flight_def queued_def)
  next
    case (writer_writes i x)
    from busy_release [OF writer_writes(3,4)] assms show False by (simp add: in_flight_def)
  qed
qed

lemma internal_steps_end: "wf {(t', t). \<exists>ev. internal_step lb t ev (Inr t')}"
  by (rule wf_subset [OF wf_measure [of "work_left rq rs"]]) (auto dest: internal_step_work)

lemma writers_kept:
  assumes "server_run lb t evs r" and "r = Inr t'"
  shows "length (writers t') = length (writers t)"
  using assms
proof (induction arbitrary: t' rule: server_run.induct)
  case (run_internal t evs t1 ev r)
  then have "internal_step lb t1 ev (Inr t')" by simp
  then have "length (writers t') = length (writers t1)"
    by (rule internal_step_elim) (auto simp: Inr_res_bind_iff)
  with run_internal.IH show ?case by simp
next
  case (run_external t evs t1 ev r)
  then have "external_step lb t1 ev (Inr t')" by simp
  then have "length (writers t') = length (writers t1)"
    by (rule external_step_elim) (auto simp: Inr_res_bind_iff)
  with run_external.IH show ?case by simp
qed simp

end

interpretation wire_queues: executor_queues wire_libs slq_data slq_data
  by unfold_locales (simp_all add: wire_libs_def locked_boost.boost_new locked_boost.boost_push
      locked_boost.boost_pop locked_boost.boost_pop_fails locked_boost.boost_empty locked_boost.boost_push_succeeds)

section \<open>Steps of a run\<close>

lemma run_worker_pops:
  assumes "server_run lb t0 evs (Inr t)" and "i < length (workers t)" and "workers t ! i = None"
    and "lf_pop (lb_requests lb) (request_queue (shared t)) = Some (r, q)"
    and "t' = t\<lparr>shared := (shared t)\<lparr>request_queue := q\<rparr>, workers := (workers t)[i := Some (Performs r)]\<rparr>"
  shows "server_run lb t0 evs (Inr t')"
  using run_internal [OF assms(1) worker_pops [OF assms(2-4)]] by (simp add: assms(5))

text \<open>A worker that is not interrupted does what \<^verbatim>\<open>PerformRequest\<close> does.\<close>

lemma run_worker_performs:
  assumes "server_run lb t0 evs (Inr t)" and "i < length (workers t)" and "workers t ! i = Some (Performs r)"
    and "PerformRequest lb r (shared t) = Inr e"
    and "t' = t\<lparr>shared := e, workers := (workers t)[i := None]\<rparr>"
  shows "server_run lb t0 evs (Inr t')"
proof -
  obtain x e1 where x: "compute_response lb r (shared t) = Inr (x, e1)" "e = push_response lb x e1"
    using assms(4) by (auto simp: PerformRequest_def res_bind_Inr_iff)
  let ?t = "t\<lparr>shared := e1, workers := (workers t)[i := Some (Pushes x)]\<rparr>"
  have "server_run lb t0 evs (Inr ?t)"
    using run_internal [OF assms(1) worker_performs [OF assms(2,3)]] by (simp add: x(1))
  from run_internal [OF this worker_pushes [where i = i and x = x]] assms(2) show ?thesis
    by (simp add: assms(5) x(2))
qed

section \<open>A run of the example server\<close>

definition add_buffer :: bytes where
  "add_buffer = wire_pack_tuple [WStr ''Adder'', WStr ''add'', WInt 20, WInt 22]"

lemma length_add_buffer: "length add_buffer < 2 ^ 32"
  by (simp add: add_buffer_def wire_pack_tuple_def be32_def)

text \<open>The call 20 + 22 of one client: the executor when it is accepted and when its bytes have come.\<close>

definition one_client :: "io_thread_pool \<Rightarrow> (service_state, wire_value, wire_object DousiRequest std_locked_queue,
  DousiResponse std_locked_queue) executor" where
  "one_client pool = (add_stream example_executor)\<lparr>io_pool := pool\<rparr>"

lemma one_client_simps [simp]:
  "streams (one_client pool) = [0 \<mapsto> Start (AsioStream 0)]"
  "request_queue (one_client pool) = StdLockedQueue" "response_queue (one_client pool) = StdLockedQueue"
  "registered_methods (one_client pool) = registered_methods example_executor"
  "instances (one_client pool) = instances example_executor"
  "objects (one_client pool) = objects example_executor"
  "executor_options (one_client pool) = default_options"
  by (simp_all add: one_client_def add_stream_def example_executor_def Executor_def wire_libs_def
      BoostLockFreeQueue_def locked_as_lockfree_def)

lemma one_client_accepted: "\<exists>pool. on_accept False example_executor = Inr (one_client pool)"
proof -
  have "pool_ok 8 (io_pool (add_stream example_executor))"
    by (simp add: add_stream_def example_executor_def Executor_def default_options_def inv_intros)
  from DoAccept_ok [OF this] show ?thesis by (auto simp: on_accept_eq one_client_def)
qed

lemma one_client_receives:
  "received_keys wire_libs 0 (frame Little_endian (3, add_buffer)) (one_client pool) = [(0, 3)]"
  "on_bytes wire_libs 0 (frame Little_endian (3, add_buffer)) (one_client pool) =
    InvokeMethod wire_libs 0 3 add_buffer
      ((one_client pool)\<lparr>streams := [0 \<mapsto> fst (receive Little_endian (frame Little_endian (3, add_buffer)) (Start (AsioStream 0)))]\<rparr>)"
proof -
  have new: "unread Little_endian (Start (AsioStream 0)) = []" "strm_id (Start (AsioStream 0)) = 0"
    by (simp_all add: AsioStream_def Start_def DoReadObjectID_def unread_def)
  have "snd (receive Little_endian (frame Little_endian (3, add_buffer)) (Start (AsioStream 0))) = [(0, 3, add_buffer)]"
    using receive_one_frame [OF reading_Start new(1) length_add_buffer] new(2) by simp
  then show "received_keys wire_libs 0 (frame Little_endian (3, add_buffer)) (one_client pool) = [(0, 3)]"
    "on_bytes wire_libs 0 (frame Little_endian (3, add_buffer)) (one_client pool) =
    InvokeMethod wire_libs 0 3 add_buffer
      ((one_client pool)\<lparr>streams := [0 \<mapsto> fst (receive Little_endian (frame Little_endian (3, add_buffer)) (Start (AsioStream 0)))]\<rparr>)"
    by (simp_all add: received_keys_def on_bytes_def message_key_def wire_libs_simps invoke_messages_Nil res_bind_Inr_right)
qed

text \<open>A run in which a client has connected and its message of 20 + 22 has been queued, and what it will be.\<close>

lemma example_received:
  fixes t0 :: "(service_state, wire_value, wire_object, _, _) server_threads"
  assumes t0: "t0 = start_threads example_executor"
  obtains e st pool r where "e = (one_client pool)\<lparr>streams := [0 \<mapsto> st]\<rparr>"
    and "server_run wire_libs t0 [Received (0, 3)] (Inr (t0\<lparr>shared := e\<lparr>request_queue := StdLockedQueue_Push r StdLockedQueue\<rparr>\<rparr>))"
    and "\<And>e1. bound_to ''add'' add_closure \<lparr>service_name = [], service_object = 0\<rparr> Adder_object e1 \<Longrightarrow>
      PerformRequest wire_libs r e1 =
        call_and_respond wire_libs 0 3 add_closure \<lparr>service_name = [], service_object = 0\<rparr> Adder_object [WInt 20, WInt 22] e1"
proof -
  define st where "st = fst (receive Little_endian (frame Little_endian (3, add_buffer)) (Start (AsioStream 0)))"
  obtain pool where accept: "on_accept False example_executor = Inr (one_client pool)"
    using one_client_accepted by blast
  define e where "e = (one_client pool)\<lparr>streams := [0 \<mapsto> st]\<rparr>"
  let ?d = "\<lparr>service_name = [], service_object = 0\<rparr> :: DousiService"
  have fit: "args_fit (lb_msgpack wire_libs) wire_has_type ''Adder'' ''add'' (cl_method add_closure) [WInt 20, WInt 22]"
    by (simp only: fits_example) simp
  have bound_e: "bound_to ''add'' add_closure ?d Adder_object e"
    using bound_example by (simp add: bound_to_def e_def)
  have pool: "0 < work_thread_num (executor_options e)" and queue: "request_queue e = StdLockedQueue"
    by (simp_all add: e_def default_options_def)
  obtain r where r: "InvokeMethod wire_libs 0 3 add_buffer e = Inr (e\<lparr>request_queue := StdLockedQueue_Push r StdLockedQueue\<rparr>)"
    and perform: "\<And>e1. bound_to ''add'' add_closure ?d Adder_object e1 \<Longrightarrow>
      PerformRequest wire_libs r e1 = call_and_respond wire_libs 0 3 add_closure ?d Adder_object [WInt 20, WInt 22] e1"
    using InvokeMethod_packed [OF wire_codec bound_e fit, of 0 3]
    unfolding wire_call add_buffer_def [symmetric] if_P [OF pool] queue wire_libs_simps(3-8) by blast
  have start: "shared t0 = example_executor" by (simp add: t0 start_threads_def)
  have small: "unat (curr_stream_id (shared t0)) + 1 < 2 ^ 64"
    by (simp add: start example_executor_def Executor_def)
  let ?t1 = "t0\<lparr>shared := one_client pool\<rparr>"
  have run1: "server_run wire_libs t0 [] (Inr ?t1)"
    using run_external [OF run_start connection [OF small, where failed = False]] accept by (simp add: start)
  have "server_run wire_libs t0 [Received (0, 3)] (Inr (t0\<lparr>shared := e\<lparr>request_queue := StdLockedQueue_Push r StdLockedQueue\<rparr>\<rparr>))"
    using run_external [OF run1 bytes_arrive [where t = ?t1 and stream_id = 0 and bs = "frame Little_endian (3, add_buffer)"]] r
    by (simp add: one_client_receives flip: st_def e_def)
  with perform show ?thesis by (rule that [OF e_def, rotated])
qed

lemma example_run:
  "(\<exists>t x. server_run wire_libs (start_threads example_executor) [Received (0, 3)] (Inr t)
      \<and> length (writers t) = 8 \<and> writers t ! 0 = Some x)
    \<and> (\<exists>t. server_run wire_libs (start_threads example_executor) [Received (0, 3), Responded (0, 3)] (Inr t)
      \<and> in_flight slq_data slq_data t = {#})"
proof -
  define t0 where "t0 = (start_threads example_executor :: (service_state, wire_value, wire_object, _, _) server_threads)"
  let ?d = "\<lparr>service_name = [], service_object = 0\<rparr> :: DousiService"
  obtain e st pool r where e_def: "e = (one_client pool)\<lparr>streams := [0 \<mapsto> st]\<rparr>"
    and run2: "server_run wire_libs t0 [Received (0, 3)] (Inr (t0\<lparr>shared := e\<lparr>request_queue := StdLockedQueue_Push r StdLockedQueue\<rparr>\<rparr>))"
    and perform: "\<And>e1. bound_to ''add'' add_closure ?d Adder_object e1 \<Longrightarrow>
      PerformRequest wire_libs r e1 = call_and_respond wire_libs 0 3 add_closure ?d Adder_object [WInt 20, WInt 22] e1"
    by (rule example_received [OF t0_def]) (rule that)
  have threads: "workers t0 = replicate 4 None" "writers t0 = replicate 8 None" "shared t0 = example_executor"
    by (simp_all add: t0_def start_threads_def example_executor_def Executor_def default_options_def)
  have idle: "t0\<lparr>shared := X, workers := (replicate 4 None)[0 := None]\<rparr> = t0\<lparr>shared := X\<rparr>"
    "t0\<lparr>shared := X, writers := (replicate 8 None)[0 := None]\<rparr> = t0\<lparr>shared := X\<rparr>" for X
    by (rule server_threads.equality; simp add: threads eval_nat_numeral)+
  have pop: "StdLockedQueue_TryPop (StdLockedQueue_Push x StdLockedQueue) = Some (x, StdLockedQueue)" for x :: 'x
    by (simp add: StdLockedQueue_TryPop_def StdLockedQueue_Push_def StdLockedQueue_def notify_one_def)
  let ?e3 = "e\<lparr>request_queue := StdLockedQueue\<rparr>"
  let ?t3 = "t0\<lparr>shared := ?e3, workers := (replicate 4 None)[0 := Some (Performs r)]\<rparr>"
  have run3: "server_run wire_libs t0 [Received (0, 3)] (Inr ?t3)"
    by (rule run_worker_pops [OF run2, where i = 0 and r = r and q = StdLockedQueue])
      (simp_all add: threads pop wire_libs_simps)
  let ?x = "\<lparr>rsp_object_id = 3, rsp_stream_id = 0, rsp_result = wire_pack (WInt 42)\<rparr>"
  have same: "(objects ?e3)(0 \<mapsto> Adder_object) = objects ?e3"
    by (simp add: e_def example_executor_def fun_eq_iff)
  have "bound_to ''add'' add_closure ?d Adder_object ?e3"
    using bound_example by (simp add: bound_to_def e_def)
  from perform [OF this] same have perform: "PerformRequest wire_libs r ?e3 =
      Inr (?e3\<lparr>response_queue := StdLockedQueue_Push ?x StdLockedQueue\<rparr>)"
    by (simp add: call_and_respond_def call_result_def add_closure_def ptr_add_def Adder_add_def int_result_def
        push_response_def wire_libs_simps wire_msgpack_def e_def del: wire_pack.simps)
  let ?e4 = "?e3\<lparr>response_queue := StdLockedQueue_Push ?x StdLockedQueue\<rparr>"
  have run4: "server_run wire_libs t0 [Received (0, 3)] (Inr (t0\<lparr>shared := ?e4\<rparr>))"
    by (rule run_worker_performs [OF run3, where i = 0 and r = r and e = ?e4])
      (use perform idle in \<open>simp_all add: threads\<close>)
  let ?e5 = "?e3\<lparr>response_queue := StdLockedQueue\<rparr>"
  let ?t5 = "t0\<lparr>shared := ?e5, writers := (replicate 8 None)[0 := Some ?x]\<rparr>"
  have run5: "server_run wire_libs t0 [Received (0, 3)] (Inr ?t5)"
    using run_internal [OF run4 writer_pops [where t = "t0\<lparr>shared := ?e4\<rparr>" and i = 0 and x = ?x and q = StdLockedQueue]]
    by (simp add: threads pop wire_libs_simps)
  obtain e6 where e6: "write_response wire_libs ?x ?e5 = Inr e6"
    "request_queue e6 = StdLockedQueue" "response_queue e6 = StdLockedQueue"
    by (simp add: write_response_def e_def)
  have "server_run wire_libs t0 [Received (0, 3), Responded (0, 3)] (Inr (t0\<lparr>shared := e6\<rparr>))"
    using run_internal [OF run5 writer_writes [where t = ?t5 and i = 0 and x = ?x]] e6(1)
    by (simp add: threads rsp_key_def idle)
  moreover have "in_flight slq_data slq_data (t0\<lparr>shared := e6\<rparr>) = {#}"
    using e6(2,3) by (simp add: in_flight_def queued_def threads StdLockedQueue_def)
  moreover have "length (writers ?t5) = 8 \<and> writers ?t5 ! 0 = Some ?x" by simp
  ultimately show ?thesis using run5 unfolding t0_def by blast
qed

lemma serving_example: "serving slq_data slq_data example_executor"
  by (auto simp: serving_def streams_ok_def queued_def example_executor_def Executor_def default_options_def
      wire_libs_simps StdLockedQueue_def intro!: exI [of _ 8] pool_ok_IOThreadPool)

section \<open>Properties\<close>

text \<open>
  C8: every request is answered at most once and none is lost, whatever the
  interleaving of event loops, workers and writers: in every run from an executor with empty
  queues, the calls received so far are, with their connection and object id and counted with
  multiplicity, those answered so far and those still queued for or held by a thread.
\<close>

theorem calls_conserved:
  assumes "executor_queues lb rq rs" and "serving rq rs e"
    and "server_run lb (start_threads e) evs (Inr t)"
  shows "received evs = responded evs + in_flight rq rs t"
  using executor_queues.server_run_ok [OF assms(1,3) _ refl] executor_queues.start_threads_ok [OF assms(1,2)]
  by (simp add: add.commute)

text \<open>The example server receives one call and answers it.\<close>

theorem calls_conserved_witness:
  "\<exists>t. server_run wire_libs (start_threads example_executor) [Received (0, 3), Responded (0, 3)] (Inr t)
    \<and> received [Received (0, 3), Responded (0, 3)] =
      responded [Received (0, 3), Responded (0, 3)] + in_flight slq_data slq_data t"
proof -
  obtain t where t: "server_run wire_libs (start_threads example_executor) [Received (0, 3), Responded (0, 3)] (Inr t)"
    using example_run by blast
  with calls_conserved [OF wire_queues.executor_queues_axioms serving_example t] show ?thesis by blast
qed

text \<open>
  C23: the assertion of \<^verbatim>\<open>LoopToWriteResponse\<close> holds: in every state the server can reach,
  the connection a writer's response belongs to is registered, so the write does not fail.
\<close>

theorem response_stream_found:
  assumes "executor_queues lb rq rs" and "serving rq rs e"
    and "server_run lb (start_threads e) evs (Inr t)"
    and "i < length (writers t)" and "writers t ! i = Some x"
  shows "\<exists>e'. write_response lb x (shared t) = Inr e'"
proof -
  have "threads_ok rq rs t"
    using executor_queues.server_run_ok [OF assms(1,3) _ refl] executor_queues.start_threads_ok [OF assms(1,2)]
    by blast
  from executor_queues.write_response_in_order [OF assms(1) this assms(4,5)] show ?thesis by blast
qed

theorem response_stream_found_witness:
  "\<exists>t x. server_run wire_libs (start_threads example_executor) [Received (0, 3)] (Inr t)
    \<and> writers t ! 0 = Some x \<and> (\<exists>e'. write_response wire_libs x (shared t) = Inr e')"
proof -
  obtain t x where t: "server_run wire_libs (start_threads example_executor) [Received (0, 3)] (Inr t)"
    "length (writers t) = 8" "writers t ! 0 = Some x"
    using example_run by blast
  then have "0 < length (writers t)" by simp
  from response_stream_found [OF wire_queues.executor_queues_axioms serving_example t(1) this t(3)] t(1,3)
  show ?thesis by blast
qed

text \<open>
  C12: the threads do not stop while there is something to do, and they do not spin: from
  no state is there an infinite sequence of steps of workers and writers alone, and in a
  reachable state where no worker and no writer can make a step, every call received has been
  answered.
\<close>

theorem threads_answer_everything:
  assumes "executor_queues lb rq rs" and "serving rq rs e"
    and "server_run lb (start_threads e) evs (Inr t)"
  shows "wf {(t', t). \<exists>ev. internal_step lb t ev (Inr t')}
    \<and> ((\<nexists>ev r. internal_step lb t ev r) \<longrightarrow> received evs = responded evs)"
proof (intro conjI impI)
  show "wf {(t', t). \<exists>ev. internal_step lb t ev (Inr t')}"
    by (rule executor_queues.internal_steps_end [OF assms(1)])
  assume rest: "\<nexists>ev r. internal_step lb t ev r"
  have ok: "threads_ok rq rs t \<and> in_flight rq rs (start_threads e) + received evs = in_flight rq rs t + responded evs"
    and start: "in_flight rq rs (start_threads e) = {#}"
    using executor_queues.server_run_ok [OF assms(1,3) _ refl] executor_queues.start_threads_ok [OF assms(1,2)]
    by blast+
  have "writers t \<noteq> []"
    using executor_queues.writers_kept [OF assms(1,3) refl] assms(2)
    by (auto simp: start_threads_def serving_def)
  with executor_queues.at_rest [OF assms(1)] ok rest have "in_flight rq rs t = {#}" by blast
  with ok start show "received evs = responded evs" by simp
qed

theorem threads_answer_everything_witness:
  "\<exists>t. server_run wire_libs (start_threads example_executor) [Received (0, 3), Responded (0, 3)] (Inr t)
    \<and> (\<nexists>ev r. internal_step wire_libs t ev r)
    \<and> received [Received (0, 3), Responded (0, 3)] = responded [Received (0, 3), Responded (0, 3)]"
proof -
  obtain t where t: "server_run wire_libs (start_threads example_executor) [Received (0, 3), Responded (0, 3)] (Inr t)"
    "in_flight slq_data slq_data t = {#}"
    using example_run by blast
  note rest = wire_queues.nothing_left [OF t(2)]
  with threads_answer_everything [OF wire_queues.executor_queues_axioms serving_example t(1)] t(1)
  show ?thesis by blast
qed

end
