(* ===== verification/Submitter.thy ===== *)
theory Submitter
  imports Endpoint Logging Asio_Stream Nameof Invocation
begin

text \<open>
  The client's runtime: \<^verbatim>\<open>core/submitter/submitter.h\<close> and \<^verbatim>\<open>submitter.cc\<close>,
  \<^verbatim>\<open>dousi_future.h\<close>, \<^verbatim>\<open>service_handle.h\<close> and \<^verbatim>\<open>rpc/rpc_client.h\<close>. A submitter numbers the
  calls with 64 bits, writes each as one message whose id field has 32, and caches the
  responses by the id they carry; a future polls the cache for its 64-bit id. Informational lines
  of the log are left out, the check in the callback is not.
\<close>

section \<open>The submitter\<close>

datatype ClientLanguage = CPP | JAVA

text \<open>
  \<open>on_rpc_returned_callback\<close> is a \<^verbatim>\<open>std::function\<close>, which may be empty; \<open>java_state\<close> is the
  state it acts on.
\<close>

record 'j submitter =
  curr_object_id :: u64
  cached_objects :: "u64 \<rightharpoonup> bytes"
  submitter_stream :: "stream option"
  io_service_thread :: bool
  client_language :: ClientLanguage
  on_rpc_returned_callback :: "('j \<Rightarrow> u32 \<Rightarrow> bytes \<Rightarrow> 'j res) option"
  java_state :: 'j

definition Submitter_of :: "ClientLanguage \<Rightarrow> ('j \<Rightarrow> u32 \<Rightarrow> bytes \<Rightarrow> 'j res) option \<Rightarrow> 'j \<Rightarrow> 'j submitter" where
  "Submitter_of language callback j =
     \<lparr>curr_object_id = 0, cached_objects = Map.empty, submitter_stream = None,
      io_service_thread = False, client_language = language, on_rpc_returned_callback = callback,
      java_state = j\<rparr>"

definition Submitter :: "'j \<Rightarrow> 'j submitter" where
  "Submitter j = Submitter_of CPP None j"

definition Submitter_destructor :: "'j submitter \<Rightarrow> 'j submitter" where
  "Submitter_destructor s = s\<lparr>io_service_thread := False\<rparr>"

definition RequestObjectID :: "'j submitter \<Rightarrow> u64 \<times> 'j submitter" where
  "RequestObjectID s = (curr_object_id s, s\<lparr>curr_object_id := curr_object_id s + 1\<rparr>)"

text \<open>The object id is narrowed to the 32 bits of \<^verbatim>\<open>AsioStream::Write\<close>'s parameter.\<close>

definition Submit :: "byte_order \<Rightarrow> u64 \<Rightarrow> string \<Rightarrow> bytes \<Rightarrow> 'j submitter \<Rightarrow> 'j submitter res" where
  "Submit en object_id unused_name buffer s = (case submitter_stream s of
       None \<Rightarrow> Inl Null_deref
     | Some stream \<Rightarrow> Inr (s\<lparr>submitter_stream := Some (Write en (ucast object_id) buffer stream)\<rparr>))"

text \<open>
  \<open>connects\<close> says whether \<^verbatim>\<open>boost::asio::connect\<close> succeeds for the resolved endpoints; it throws
  if not.
\<close>

definition DoConnect :: "('e \<Rightarrow> bool) \<Rightarrow> 'e \<Rightarrow> 'j submitter \<Rightarrow> 'j submitter res" where
  "DoConnect connects endpoints s =
     (if connects endpoints then Inr (s\<lparr>submitter_stream := Some (AsioStream 0)\<rparr>)
      else Inl (Throws System_error))"

definition Submitter_Init ::
  "(string \<Rightarrow> string \<Rightarrow> 'e res) \<Rightarrow> ('e \<Rightarrow> bool) \<Rightarrow> string \<Rightarrow> 'j submitter \<Rightarrow> 'j submitter res" where
  "Submitter_Init resolver connects server_address s =
     res_bind (Endpoint_of_address server_address) (\<lambda>endpoint.
     res_bind (Resolve resolver endpoint) (\<lambda>endpoints.
     res_bind (DoConnect connects endpoints s) (\<lambda>s.
     case submitter_stream s of
       None \<Rightarrow> Inl Null_deref
     | Some stream \<Rightarrow> Inr (s\<lparr>submitter_stream := Some (Start stream), io_service_thread := True\<rparr>))))"

definition Submitter_Shutdown :: "'j submitter \<Rightarrow> 'j submitter" where
  "Submitter_Shutdown s = s"

text \<open>A response of a C++ client goes to the cache, its 32-bit id widened.\<close>

definition cache_object :: "u32 \<Rightarrow> bytes \<Rightarrow> 'j submitter \<Rightarrow> 'j submitter" where
  "cache_object object_id buffer s = s\<lparr>cached_objects := (cached_objects s)(ucast object_id \<mapsto> buffer)\<rparr>"

text \<open>The stream's invocation callback; the check logs and goes on.\<close>

definition invocation_callback ::
  "(log_line \<Rightarrow> string option) \<Rightarrow> string \<Rightarrow> u64 \<Rightarrow> u32 \<Rightarrow> bytes \<Rightarrow> logging \<times> 'j submitter \<Rightarrow>
   (logging \<times> 'j submitter) res" where
  "invocation_callback throws file stream_id object_id buffer c = (case c of (l, s) \<Rightarrow>
     if client_language s = JAVA then
       res_bind (DOUSI_CHECK throws file 116 (on_rpc_returned_callback s \<noteq> None)
           ''on_rpc_returned_callback_ != nullptr''
           [''on_rpc_returned_callback_ should not be null in Java Client.''] l) (\<lambda>l.
       case on_rpc_returned_callback s of
         None \<Rightarrow> Inl (Throws Bad_function_call)
       | Some f \<Rightarrow>
           res_bind (f (java_state s) object_id buffer) (\<lambda>j. Inr (l, s\<lparr>java_state := j\<rparr>)))
     else Inr (l, cache_object object_id buffer s))"

text \<open>
  \<^verbatim>\<open>GetObject<T>\<close>: polls the cache, which the network thread fills during the sleeps, then
  decodes. The outer \<open>None\<close> is a call that never returns.
\<close>

definition cached :: "u64 \<Rightarrow> 'j submitter \<Rightarrow> bytes option" where
  "cached object_id s = cached_objects s object_id"

definition GetObject ::
  "('v, 'o) msgpack \<Rightarrow> cpp_type \<Rightarrow> (nat \<Rightarrow> 'j submitter \<Rightarrow> 'j submitter) \<Rightarrow> u64 \<Rightarrow> 'j submitter \<Rightarrow>
   'v res option" where
  "GetObject mp ObjectType others object_id s =
     (case poll (cached object_id) others 0 s of
        None \<Rightarrow> None
      | Some serialized_bytes \<Rightarrow>
          Some (res_bind (mp_unpack mp serialized_bytes) (\<lambda>unpacked. mp_as mp ObjectType unpacked)))"

section \<open>Futures\<close>

record 'v dousi_future =
  fut_type :: cpp_type
  has_data :: bool
  data_ptr :: "'v option"
  fut_object_id :: u64

definition DousiFuture :: "cpp_type \<Rightarrow> u64 \<Rightarrow> 'v dousi_future" where
  "DousiFuture T object_id = \<lparr>fut_type = T, has_data = False, data_ptr = None, fut_object_id = object_id\<rparr>"

definition Get ::
  "('v, 'o) msgpack \<Rightarrow> (nat \<Rightarrow> 'j submitter \<Rightarrow> 'j submitter) \<Rightarrow> 'j submitter \<Rightarrow> 'v dousi_future \<Rightarrow>
   ('v option res \<times> 'v dousi_future) option" where
  "Get mp others s f =
     (if has_data f then Some (Inr (data_ptr f), f)
      else (case GetObject mp (fut_type f) others (fut_object_id f) s of
              None \<Rightarrow> None
            | Some (Inl e) \<Rightarrow> Some (Inl e, f)
            | Some (Inr v) \<Rightarrow> Some (Inr (Some v), f\<lparr>data_ptr := Some v, has_data := True\<rparr>)))"

definition HasData :: "'v dousi_future \<Rightarrow> bool" where
  "HasData f = has_data f"

section \<open>Service handles\<close>

record service_handle =
  sh_service_name :: string

definition ServiceHandle :: "string \<Rightarrow> service_handle" where
  "ServiceHandle service_name = \<lparr>sh_service_name = service_name\<rparr>"

definition GetServiceName :: "service_handle \<Rightarrow> string" where
  "GetServiceName h = sh_service_name h"

text \<open>The two overloads differ in the future they return: of a void call it is one of \<^verbatim>\<open>bool\<close>.\<close>

fun InternalCall ::
  "byte_order \<Rightarrow> ('v, 'o) msgpack \<Rightarrow> ('s, 'v) method_pointer RemoteMethod \<Rightarrow> 'v list \<Rightarrow> return_tag \<Rightarrow>
   'j submitter \<Rightarrow> ('v dousi_future \<times> 'j submitter) res" where
  "InternalCall en mp m args_tuple NonVoidReturnTag s =
     (case RequestObjectID s of (object_id, s) \<Rightarrow>
        let buffer = PackArgsToBuffer mp args_tuple
        in res_bind (Submit en object_id (GetName m) buffer s) (\<lambda>s.
             Inr (DousiFuture (ReturnType (FunctionTraits (mt_type (GetMethod m)))) object_id, s)))"
| "InternalCall en mp m args_tuple VoidReturnTag s =
     (case RequestObjectID s of (object_id, s) \<Rightarrow>
        let buffer = PackArgsToBuffer mp args_tuple
        in res_bind (Submit en object_id (GetName m) buffer s) (\<lambda>s.
             Inr (DousiFuture (Base ''bool'') object_id, s)))"

definition CallWithMethodName ::
  "byte_order \<Rightarrow> ('v, 'o) msgpack \<Rightarrow> ('s, 'v) method_pointer RemoteMethod \<Rightarrow> 'v list \<Rightarrow>
   'j submitter \<Rightarrow> ('v dousi_future \<times> 'j submitter) res" where
  "CallWithMethodName en mp m args s =
     InternalCall en mp m args (VoidReturnTrait (ReturnType (FunctionTraits (mt_type (GetMethod m))))) s"

definition Call ::
  "byte_order \<Rightarrow> ('v, 'o) msgpack \<Rightarrow> service_handle \<Rightarrow> ('s, 'v) method_pointer RemoteMethod \<Rightarrow> 'v list \<Rightarrow>
   'j submitter \<Rightarrow> ('v dousi_future \<times> 'j submitter) res" where
  "Call en mp h m args s =
     CallWithMethodName en mp m (mp_string mp (sh_service_name h) # mp_string mp (GetName m) # args) s"

definition GetService :: "string \<Rightarrow> 'j submitter \<Rightarrow> service_handle" where
  "GetService service_name s = ServiceHandle service_name"

section \<open>RpcClient\<close>

record 'j rpc_client =
  cli_submitter :: "'j submitter"
  cli_logging :: logging

definition RpcClient ::
  "(string \<Rightarrow> u64 \<Rightarrow> u64 \<Rightarrow> string option) \<Rightarrow> (string \<Rightarrow> string \<Rightarrow> 'e res) \<Rightarrow> ('e \<Rightarrow> bool) \<Rightarrow>
   string \<Rightarrow> 'j \<Rightarrow> logging \<Rightarrow> 'j rpc_client res" where
  "RpcClient rotating resolver connects server_address j l =
     (let l = StartDousiLog rotating ''/tmp/dousi/rpclient.log'' WARNING 10 3 l
      in res_bind (Submitter_Init resolver connects server_address (Submitter j))
           (\<lambda>s. Inr \<lparr>cli_submitter = s, cli_logging = l\<rparr>))"

definition RpcClient_GetService :: "string \<Rightarrow> 'j rpc_client \<Rightarrow> service_handle" where
  "RpcClient_GetService service_name c = GetService service_name (cli_submitter c)"

definition RpcClient_destructor :: "'j rpc_client \<Rightarrow> 'j rpc_client" where
  "RpcClient_destructor c =
     c\<lparr>cli_submitter := Submitter_destructor (Submitter_Shutdown (cli_submitter c))\<rparr>"

section \<open>Lemmas\<close>

text \<open>The type of the future of a call.\<close>

definition future_type :: "('s, 'v) method_pointer \<Rightarrow> cpp_type" where
  "future_type m = (case VoidReturnTrait (ReturnType (FunctionTraits (mt_type m))) of
       VoidReturnTag \<Rightarrow> Base ''bool''
     | NonVoidReturnTag \<Rightarrow> ReturnType (FunctionTraits (mt_type m)))"

text \<open>The bytes of a call: the service's name, the method's and the arguments as one tuple.\<close>

definition call_buffer ::
  "('v, 'o) msgpack \<Rightarrow> service_handle \<Rightarrow> ('s, 'v) method_pointer RemoteMethod \<Rightarrow> 'v list \<Rightarrow> bytes" where
  "call_buffer mp h m args =
     PackArgsToBuffer mp (mp_string mp (sh_service_name h) # mp_string mp (GetName m) # args)"

lemma Call_eq:
  assumes "submitter_stream s = Some stream"
  shows "Call en mp h m args s =
    Inr (DousiFuture (future_type (GetMethod m)) (curr_object_id s),
         s\<lparr>curr_object_id := curr_object_id s + 1,
           submitter_stream := Some (Write en (ucast (curr_object_id s)) (call_buffer mp h m args) stream)\<rparr>)"
  using assms
  by (cases "VoidReturnTrait (ReturnType (FunctionTraits (mt_type (GetMethod m))))")
    (simp_all add: Call_def CallWithMethodName_def RequestObjectID_def Submit_def Let_def
      future_type_def call_buffer_def)

lemma Call_not_connected:
  assumes "submitter_stream s = None"
  shows "Call en mp h m args s = Inl Null_deref"
  using assms
  by (cases "VoidReturnTrait (ReturnType (FunctionTraits (mt_type (GetMethod m))))")
    (simp_all add: Call_def CallWithMethodName_def RequestObjectID_def Submit_def Let_def)

lemma Write_writes [simp]: "strm_writes (Write en oid data st) = strm_writes st @ [frame en (oid, data)]"
  by (simp add: Write_def frame_def)

text \<open>Calls one after the other.\<close>

type_synonym ('s, 'v) client_call = "service_handle \<times> ('s, 'v) method_pointer RemoteMethod \<times> 'v list"

fun Calls ::
  "byte_order \<Rightarrow> ('v, 'o) msgpack \<Rightarrow> ('s, 'v) client_call list \<Rightarrow> 'j submitter \<Rightarrow>
   ('v dousi_future list \<times> 'j submitter) res" where
  "Calls en mp [] s = Inr ([], s)"
| "Calls en mp ((h, m, args) # cs) s =
     res_bind (Call en mp h m args s) (\<lambda>(f, s).
     res_bind (Calls en mp cs s) (\<lambda>(fs, s). Inr (f # fs, s)))"

lemma ucast_of_nat_u64_u32: "(ucast (of_nat n :: u64) :: u32) = of_nat n"
proof -
  have "unat (ucast (of_nat n :: u64) :: u32) = unat (of_nat n :: u32)"
    by (simp add: conv_simps mod_mod_cancel)
  then show ?thesis by (simp only: word_unat_eq_iff)
qed

definition buffer_of :: "('v, 'o) msgpack \<Rightarrow> ('s, 'v) client_call \<Rightarrow> bytes" where
  "buffer_of mp c = (case c of (h, m, args) \<Rightarrow> call_buffer mp h m args)"

lemma Calls_from:
  assumes "submitter_stream s = Some stream" and "curr_object_id s = of_nat i"
  shows "\<exists>fs s' stream'. Calls en mp cs s = Inr (fs, s') \<and> submitter_stream s' = Some stream'
    \<and> map fut_object_id fs = map of_nat [i..<i + length cs]
    \<and> strm_writes stream' = strm_writes stream @
        map (\<lambda>(k, c). frame en (of_nat k, buffer_of mp c)) (zip [i..<i + length cs] cs)"
  using assms
proof (induction cs arbitrary: s stream i)
  case (Cons c cs)
  obtain h m args where c: "c = (h, m, args)" by (cases c)
  let ?st = "Write en (ucast (curr_object_id s)) (call_buffer mp h m args) stream"
  let ?s = "s\<lparr>curr_object_id := curr_object_id s + 1, submitter_stream := Some ?st\<rparr>"
  have "submitter_stream ?s = Some ?st" and next_id: "curr_object_id ?s = of_nat (Suc i)"
    using Cons.prems(2) by simp_all
  from Cons.IH [OF this] obtain fs s' stream' where
    IH: "Calls en mp cs ?s = Inr (fs, s')" "submitter_stream s' = Some stream'"
    "map fut_object_id fs = map of_nat [Suc i..<Suc i + length cs]"
    "strm_writes stream' = strm_writes ?st @
        map (\<lambda>(k, c). frame en (of_nat k, buffer_of mp c)) (zip [Suc i..<Suc i + length cs] cs)"
    by blast
  have ids: "[i..<i + length (c # cs)] = i # [Suc i..<Suc i + length cs]"
    by (simp add: upt_conv_Cons del: upt_Suc)
  let ?f = "DousiFuture (future_type (GetMethod m)) (curr_object_id s)"
  have "Calls en mp (c # cs) s = Inr (?f # fs, s')"
    using IH(1) by (simp add: c Call_eq [OF Cons.prems(1)])
  moreover have "map fut_object_id (?f # fs) = map of_nat [i..<i + length (c # cs)]"
    unfolding ids using IH(3) Cons.prems(2) by (simp add: DousiFuture_def)
  moreover have "strm_writes stream' = strm_writes stream @
      map (\<lambda>(k, c). frame en (of_nat k, buffer_of mp c)) (zip [i..<i + length (c # cs)] (c # cs))"
    unfolding ids using IH(4) Cons.prems(2) by (simp add: ucast_of_nat_u64_u32 buffer_of_def c)
  ultimately show ?case using IH(2) by blast
qed simp

subsection \<open>Responses\<close>

text \<open>The responses a C++ client receives during one sleep.\<close>

definition receive_responses :: "(u32 \<times> bytes) list \<Rightarrow> 'j submitter \<Rightarrow> 'j submitter" where
  "receive_responses rs s = fold (\<lambda>(object_id, buffer). cache_object object_id buffer) rs s"

lemma invocation_callback_CPP:
  "client_language s = CPP \<Longrightarrow>
   invocation_callback throws file stream_id object_id buffer (l, s) = Inr (l, cache_object object_id buffer s)"
  by (simp add: invocation_callback_def)

lemma ucast_u64_eq_iff:
  assumes "unat (i :: u64) < 2 ^ 32"
  shows "i = ucast (w :: u32) \<longleftrightarrow> ucast i = w"
  using ucast_u64_roundtrip_iff [of i] assms
  by (metis ucast_u64_roundtrip_iff unat_u32_bound unat_ucast_u32_u64 unat_ucast_u64_u32 mod_less word_unat_eq_iff)

lemma cached_cache_object:
  assumes "unat i < 2 ^ 32"
  shows "cached i (cache_object w buffer s) = (if ucast i = w then Some buffer else cached i s)"
  using ucast_u64_eq_iff [OF assms, of w] by (auto simp: cached_def cache_object_def)

lemma cached_receive_responses:
  assumes "unat i < 2 ^ 32"
  shows "cached i (receive_responses rs s) =
    (case map_of (rev rs) (ucast i) of Some buffer \<Rightarrow> Some buffer | None \<Rightarrow> cached i s)"
  unfolding receive_responses_def
  by (induction rs rule: rev_induct) (auto simp: cached_cache_object [OF assms])

lemma cached_receive_responses_large:
  assumes "2 ^ 32 \<le> unat i"
  shows "cached i (receive_responses rs s) = cached i s"
proof -
  have "i \<noteq> ucast w" for w :: u32
    using assms unat_u32_bound [of w] by (metis not_less unat_ucast_u32_u64)
  then show ?thesis
    unfolding receive_responses_def
    by (induction rs rule: rev_induct) (auto simp: cached_def cache_object_def)
qed

text \<open>The network thread as the other party of the polling loop.\<close>

definition responses_arrive :: "(nat \<Rightarrow> (u32 \<times> bytes) list) \<Rightarrow> nat \<Rightarrow> 'j submitter \<Rightarrow> 'j submitter" where
  "responses_arrive rs i s = receive_responses (rs i) s"

lemma cached_poll_state_None:
  assumes "unat oid < 2 ^ 32" and "cached oid s = None"
    and "\<forall>j. i \<le> j \<and> j < i + k \<longrightarrow> ucast oid \<notin> fst ` set (rs j)"
  shows "cached oid (poll_state (responses_arrive rs) i k s) = None"
  using assms(2,3)
proof (induction k arbitrary: i s)
  case (Suc k)
  have "ucast oid \<notin> fst ` set (rs i)" using Suc.prems(2) by simp
  then have "map_of (rev (rs i)) (ucast oid) = None" by (simp add: map_of_eq_None_iff)
  then have "cached oid (responses_arrive rs i s) = None"
    using Suc.prems(1) by (simp add: responses_arrive_def cached_receive_responses [OF assms(1)])
  from Suc.IH [OF this] Suc.prems(2) show ?case by simp
qed simp

lemma poll_state_Suc: "poll_state others i (Suc k) s = others (i + k) (poll_state others i k s)"
proof (induction k arbitrary: i s)
  case (Suc k)
  have "poll_state others i (Suc (Suc k)) s = poll_state others (Suc i) (Suc k) (others i s)" by simp
  also have "\<dots> = others (Suc i + k) (poll_state others (Suc i) k (others i s))" by (rule Suc.IH)
  finally show ?case by simp
qed simp

lemma cached_poll_state_large:
  assumes "2 ^ 32 \<le> unat oid" and "cached oid s = None"
  shows "cached oid (poll_state (responses_arrive rs) i k s) = None"
  by (induction k) (simp_all add: assms poll_state_Suc responses_arrive_def
      cached_receive_responses_large [OF assms(1)] del: poll_state.simps(2))

lemma Get_waits:
  assumes "\<not> has_data f" and "\<And>k. cached (fut_object_id f) (poll_state others 0 k s) = None"
  shows "Get mp others s f = None"
  using assms(1) poll_never [of "cached (fut_object_id f)" others 0 s, OF assms(2)]
  by (simp add: Get_def GetObject_def)

lemma Get_found:
  assumes "\<not> has_data f"
    and "\<And>j. j < k \<Longrightarrow> cached (fut_object_id f) (poll_state others 0 j s) = None"
    and "cached (fut_object_id f) (poll_state others 0 k s) = Some buffer"
  shows "Get mp others s f = Some
    (case res_bind (mp_unpack mp buffer) (mp_as mp (fut_type f)) of
       Inl e \<Rightarrow> (Inl e, f)
     | Inr v \<Rightarrow> (Inr (Some v), f\<lparr>data_ptr := Some v, has_data := True\<rparr>))"
  using assms(1) poll_found [of k "cached (fut_object_id f)" others 0 s, OF assms(2,3)]
  by (simp add: Get_def GetObject_def split: sum.splits)

lemma Get_arrives:
  assumes "\<not> has_data f" and "unat (fut_object_id f) < 2 ^ 32" and "cached (fut_object_id f) s = None"
    and "\<forall>j<k. ucast (fut_object_id f) \<notin> fst ` set (rs j)"
    and "map_of (rev (rs k)) (ucast (fut_object_id f)) = Some buffer"
  shows "Get mp (responses_arrive rs) s f = Some
    (case res_bind (mp_unpack mp buffer) (mp_as mp (fut_type f)) of
       Inl e \<Rightarrow> (Inl e, f)
     | Inr v \<Rightarrow> (Inr (Some v), f\<lparr>data_ptr := Some v, has_data := True\<rparr>))"
proof (rule Get_found [where k = "Suc k", OF assms(1)])
  let ?id = "fut_object_id f"
  have none: "cached ?id (poll_state (responses_arrive rs) 0 j s) = None" if "j \<le> k" for j
    using cached_poll_state_None [OF assms(2,3), of 0 j rs] assms(4) that by simp
  then show "cached ?id (poll_state (responses_arrive rs) 0 j s) = None" if "j < Suc k" for j
    using that by simp
  show "cached ?id (poll_state (responses_arrive rs) 0 (Suc k) s) = Some buffer"
    using assms(5)
    by (simp add: poll_state_Suc responses_arrive_def cached_receive_responses [OF assms(2)]
        del: poll_state.simps(2))
qed

end
