(* ===== verification/Client_Calls.thy ===== *)
theory Client_Calls
  imports Submitter Msgpack_Wire
begin

text \<open>
  What a client's calls and futures do: the numbering of calls on the wire, the delivery of
  responses to futures, and where the 64-bit ids of the client and the 32-bit ids of the wire
  come apart.
\<close>

section \<open>A connected client\<close>

definition connected_client :: "unit submitter" where
  "connected_client = (Submitter ())\<lparr>submitter_stream := Some (Start (AsioStream 0)), io_service_thread := True\<rparr>"

definition echo_method :: "(unit, wire_value) method_pointer RemoteMethod" where
  "echo_method = \<lparr>method_name = ''echo'',
     method_ptr = \<lparr>mt_type = MemFn ''Echoer'' std_string [LRef (Const std_string)],
               mt_body = Returning (\<lambda>_ args. Inr (hd args, ()))\<rparr>\<rparr>"

lemma connected_client_simps [simp]:
  "submitter_stream connected_client = Some (Start (AsioStream 0))"
  "curr_object_id connected_client = 0"
  "cached_objects connected_client = Map.empty"
  by (simp_all add: connected_client_def Submitter_def Submitter_of_def)

text \<open>
  A client connects and starts reading: for an address of a host without a colon and
  a port, if the host and the port resolve and the endpoints accept, the constructor of
  \<^verbatim>\<open>RpcClient\<close> leaves a submitter with the network thread running, the first read outstanding,
  no call made and no object cached; if they do not, it throws.
\<close>

theorem client_connects:
  assumes "CHR '':'' \<notin> set h" and "length h < npos" and "n < 65536"
    and "resolver h (to_string n) = Inr endpoints"
  shows "RpcClient rotating resolver connects (h @ '':'' @ to_string n) j l =
    (if connects endpoints
     then Inr \<lparr>cli_submitter = (Submitter j)\<lparr>submitter_stream := Some (Start (AsioStream 0)), io_service_thread := True\<rparr>,
               cli_logging = StartDousiLog rotating ''/tmp/dousi/rpclient.log'' WARNING 10 3 l\<rparr>
     else Inl (Throws System_error))"
proof -
  have port: "unat (of_nat n :: u16) = n" and small: "n < 2 ^ 31"
    using assms(3) by (simp_all add: unat_of_nat)
  have "Endpoint_of_address (h @ '':'' @ to_string n) = Inr \<lparr>host = h, port = of_nat n\<rparr>"
    using Endpoint_of_address_colon [OF assms(1,2), of "to_string n"] small by (simp add: stoi_to_string)
  then show ?thesis
    using assms(4) port
    by (simp add: RpcClient_def Let_def Submitter_Init_def Resolve_def GetHost_def GetPort_def DoConnect_def)
qed

theorem client_connects_witness:
  "RpcClient (\<lambda>f m n. None) (\<lambda>h p. Inr (h, p)) (\<lambda>e. True) (''127.0.0.1'' @ '':'' @ to_string 10001) () logging_initial =
    Inr \<lparr>cli_submitter = connected_client,
         cli_logging = StartDousiLog (\<lambda>f m n. None) ''/tmp/dousi/rpclient.log'' WARNING 10 3 logging_initial\<rparr>"
  using client_connects [of "''127.0.0.1''" 10001 "\<lambda>h p. Inr (h, p)" "(''127.0.0.1'', to_string 10001)"
      "\<lambda>f m n. None" "\<lambda>e. True" "()" logging_initial]
  by (simp add: npos_def connected_client_def)

section \<open>Calls\<close>

text \<open>
  C15: the calls of a new client are numbered from 0 and each is one message on the
  connection: the futures of a sequence of calls hold the ids 0, 1, 2 and so on (as 64-bit
  values), and the writes handed to the socket are, in the order of the calls, one frame each, with
  the id reduced to 32 bits and the packed service name, method name and arguments as its body.
\<close>

theorem calls_numbered:
  assumes "submitter_stream s = Some stream" and "curr_object_id s = 0"
  shows "\<exists>fs s' stream'. Calls en mp cs s = Inr (fs, s') \<and> submitter_stream s' = Some stream'
    \<and> map fut_object_id fs = map of_nat [0..<length cs]
    \<and> strm_writes stream' = strm_writes stream @
        map (\<lambda>(k, c). frame en (of_nat k, buffer_of mp c)) (zip [0..<length cs] cs)"
  using Calls_from [of s stream 0 en mp cs] assms by simp

theorem calls_numbered_witness:
  "\<exists>fs s' stream'.
    Calls Little_endian wire_msgpack
      [(ServiceHandle ''Echoer'', echo_method, [WStr ''a'']), (ServiceHandle ''Echoer'', echo_method, [WStr ''b''])]
      connected_client = Inr (fs, s') \<and> submitter_stream s' = Some stream'
    \<and> map fut_object_id fs = [0, 1] \<and> length (strm_writes stream') = 2"
proof -
  let ?cs = "[(ServiceHandle ''Echoer'', echo_method, [WStr ''a'']), (ServiceHandle ''Echoer'', echo_method, [WStr ''b''])]"
  obtain fs s' stream' where r: "Calls Little_endian wire_msgpack ?cs connected_client = Inr (fs, s')"
    "submitter_stream s' = Some stream'" "map fut_object_id fs = map of_nat [0..<length ?cs]"
    "strm_writes stream' = strm_writes (Start (AsioStream 0)) @
        map (\<lambda>(k, c). frame Little_endian (of_nat k, buffer_of wire_msgpack c)) (zip [0..<length ?cs] ?cs)"
    using calls_numbered [OF connected_client_simps(1,2), of Little_endian wire_msgpack ?cs] by blast
  then show ?thesis
    by (auto simp: Start_def DoReadObjectID_def AsioStream_def)
qed

section \<open>Futures\<close>

text \<open>
  A future gets the response to its own call: for an id below 2 to the 32 that has no
  cached object yet, when no response with this id arrives during the first k sleeps of \<^verbatim>\<open>Get\<close> and
  one arrives during the next, \<^verbatim>\<open>Get\<close> returns, and its result is the decoded body of that
  response (the last of them, when several carry the id); a body that does not decode throws
  and leaves the future without data.
\<close>

theorem future_gets_own_response:
  assumes "unat oid < 2 ^ 32" and "cached oid s = None"
    and "\<forall>j<k. ucast oid \<notin> fst ` set (rs j)"
    and "map_of (rev (rs k)) (ucast oid) = Some buffer"
  shows "Get mp (responses_arrive rs) s (DousiFuture T oid) = Some
    (case res_bind (mp_unpack mp buffer) (mp_as mp T) of
       Inl e \<Rightarrow> (Inl e, DousiFuture T oid)
     | Inr v \<Rightarrow> (Inr (Some v), (DousiFuture T oid)\<lparr>data_ptr := Some v, has_data := True\<rparr>))"
  using Get_arrives [of "DousiFuture T oid" s k rs buffer mp] assms by (simp add: DousiFuture_def)

text \<open>Two responses arrive out of order: the one for call 1 first.\<close>

theorem future_gets_own_response_witness:
  "Get wire_msgpack (responses_arrive (\<lambda>i. if i = 0 then [(1, wire_pack (WStr ''b''))] else [(0, wire_pack (WStr ''a''))]))
      connected_client (DousiFuture std_string 0) =
    Some (Inr (Some (WStr ''a'')), (DousiFuture std_string 0)\<lparr>data_ptr := Some (WStr ''a''), has_data := True\<rparr>)"
proof -
  let ?rs = "\<lambda>i :: nat. if i = 0 then [(1 :: u32, wire_pack (WStr ''b''))] else [(0, wire_pack (WStr ''a''))]"
  have "wire_unpack (wire_pack (WStr ''a'')) = Inr (Obj_value (WStr ''a''))"
    by (rule wire_unpack_value [where t = std_string]) simp
  then have decoded: "res_bind (mp_unpack wire_msgpack (wire_pack (WStr ''a''))) (mp_as wire_msgpack std_string) =
      Inr (WStr ''a'')"
    by (simp add: wire_msgpack_def)
  have "Get wire_msgpack (responses_arrive ?rs) connected_client (DousiFuture std_string 0) = Some
    (case res_bind (mp_unpack wire_msgpack (wire_pack (WStr ''a''))) (mp_as wire_msgpack std_string) of
       Inl e \<Rightarrow> (Inl e, DousiFuture std_string 0)
     | Inr v \<Rightarrow> (Inr (Some v), (DousiFuture std_string 0)\<lparr>data_ptr := Some v, has_data := True\<rparr>))"
    by (rule future_gets_own_response [where k = 1]) (simp_all add: cached_def)
  then show ?thesis by (simp only: decoded sum.case)
qed

text \<open>
  C20: a call whose id is 2 to the 32 or more is lost: whatever responses ever arrive, its
  future's \<^verbatim>\<open>Get\<close> never returns, because the cache is filled under 32-bit ids only; and the
  response to it is cached under its id modulo 2 to the 32, which is the id of an older call.
\<close>

theorem wide_id_never_resolves:
  assumes "2 ^ 32 \<le> unat oid" and "\<forall>i \<in> dom (cached_objects s). unat i < 2 ^ 32"
  shows "Get mp (responses_arrive rs) s (DousiFuture T oid) = None
    \<and> (\<exists>older. unat older = unat oid mod 2 ^ 32 \<and> older \<noteq> oid
        \<and> cached older (cache_object (ucast oid) buffer s) = Some buffer)"
proof (intro conjI exI)
  have "cached oid s = None"
    using assms by (auto simp: cached_def dom_def not_less)
  then show "Get mp (responses_arrive rs) s (DousiFuture T oid) = None"
    by (intro Get_waits) (simp_all add: DousiFuture_def cached_poll_state_large [OF assms(1)])
  show "unat (ucast (ucast oid :: u32) :: u64) = unat oid mod 2 ^ 32"
    by (simp only: conv_simps)
  show "(ucast (ucast oid :: u32) :: u64) \<noteq> oid"
    using assms(1) by (simp add: ucast_u64_roundtrip_iff)
  show "cached (ucast (ucast oid :: u32)) (cache_object (ucast oid) buffer s) = Some buffer"
    by (simp add: cached_def cache_object_def)
qed

theorem wide_id_never_resolves_witness:
  "Get wire_msgpack (responses_arrive (\<lambda>i. [(0, wire_pack (WStr ''b''))])) connected_client
      (DousiFuture std_string 4294967296) = None"
  using wide_id_never_resolves [of 4294967296 connected_client wire_msgpack "\<lambda>i. [(0, wire_pack (WStr ''b''))]" std_string]
  by simp

text \<open>
  \<^verbatim>\<open>Get\<close> decodes once: after it has returned a value, every later \<^verbatim>\<open>Get\<close> of the future
  returns the same value at once and leaves the future as it is, whatever has happened to the
  cache since and whatever arrives meanwhile.
\<close>

theorem get_memoised:
  assumes "Get mp others s f = Some (Inr p, f')"
  shows "Get mp' others' s' f' = Some (Inr p, f') \<and> HasData f'"
proof (cases "has_data f")
  case True
  with assms show ?thesis by (auto simp: Get_def HasData_def)
next
  case False
  with assms show ?thesis by (auto simp: Get_def HasData_def split: option.splits sum.splits)
qed

theorem get_memoised_witness:
  "\<exists>f'. \<forall>others s :: unit submitter. Get wire_msgpack others s f' = Some (Inr (Some (WBool True)), f') \<and> HasData f'"
proof -
  let ?s = "cache_object 0 (wire_pack (WBool True)) connected_client"
  have "cached 0 ?s = Some (wire_pack (WBool True))" by (simp add: cached_def cache_object_def)
  then have "poll (cached 0) (\<lambda>_ s. s) 0 ?s = Some (wire_pack (WBool True))" by (rule poll_now)
  moreover have "wire_unpack [0xc3] = Inr (Obj_value (WBool True))"
    using wire_unpack_value [of "Base ''bool''" "WBool True"] by simp
  ultimately have "Get wire_msgpack (\<lambda>_ s. s) ?s (DousiFuture (Base ''bool'') 0) = Some (Inr (Some (WBool True)),
      (DousiFuture (Base ''bool'') 0)\<lparr>data_ptr := Some (WBool True), has_data := True\<rparr>)"
    by (simp add: Get_def GetObject_def DousiFuture_def wire_msgpack_def)
  from get_memoised [OF this] show ?thesis by blast
qed

section \<open>The cache only grows\<close>

lemma cached_ids_receive:
  "dom (cached_objects (receive_responses rs s)) = dom (cached_objects s) \<union> ucast ` set (map fst rs)"
  unfolding receive_responses_def by (induction rs arbitrary: s) (auto simp: cache_object_def)

lemma inj_ucast_u32_u64: "inj (ucast :: u32 \<Rightarrow> u64)"
  by (rule injI) (metis unat_ucast_u32_u64 word_unat_eq_iff)

text \<open>
  The client keeps every response for ever: after n responses with different ids, none of them
  cached before, the cache holds n entries more, whatever was asked of the futures in between (a
  \<^verbatim>\<open>Get\<close> only reads the cache).
\<close>

theorem client_cache_grows:
  assumes "finite (dom (cached_objects s))" and "distinct (map fst rs)"
    and "dom (cached_objects s) \<inter> ucast ` set (map fst rs) = {}"
  shows "card (dom (cached_objects (receive_responses rs s))) = card (dom (cached_objects s)) + length rs"
proof -
  have "card (ucast ` set (map fst rs) :: u64 set) = length rs"
    using card_image [OF inj_on_subset [OF inj_ucast_u32_u64 subset_UNIV], of "set (map fst rs)"]
      distinct_card [OF assms(2)] by simp
  with assms(1,3) show ?thesis by (simp add: cached_ids_receive card_Un_disjoint)
qed

theorem client_cache_grows_witness:
  "card (dom (cached_objects (receive_responses [(0, [1]), (1, []), (2, [7])] connected_client))) = 3"
  using client_cache_grows [of connected_client "[(0, [1]), (1, []), (2, [7])]"]
  by (simp add: connected_client_def Submitter_def Submitter_of_def)

section \<open>The check of a Java client\<close>

text \<open>
  A Java client without a callback fails at its first response: the check that there
  is a callback only writes a fatal log line, which does not stop the program, and the call
  of the empty function throws. (When the log has no provider, the check itself crashes.)
\<close>

theorem java_without_callback_throws:
  assumes "client_language s = JAVA" and "on_rpc_returned_callback s = None"
  shows "invocation_callback throws file stream_id object_id buffer (l, s) =
    Inl (if logging_provider l = None \<and> severity_threshold l \<le> FATAL then Null_deref else Throws Bad_function_call)"
  using assms
  by (auto simp: invocation_callback_def DOUSI_CHECK_def foldl_stream_to DousiLog_def DousiLog_destructor_def
      Let_def split: option.splits)

theorem java_without_callback_throws_witness:
  "\<forall>throws stream_id buffer. invocation_callback throws ''submitter.h'' stream_id 0 buffer
     (StartDousiLog (\<lambda>f m n. None) ''/tmp/dousi/java-native-client.log'' WARNING 10 3 logging_initial,
      Submitter_of JAVA None ()) = Inl (Throws Bad_function_call)"
  using java_without_callback_throws [of "Submitter_of JAVA None ()"]
  by (simp add: Submitter_of_def StartDousiLog_def logging_initial_def)

end
