(* ===== verification/Rpc_System.thy ===== *)
theory Rpc_System
  imports Executor_Threads Client_Calls
begin

text \<open>
  Client and server together: what becomes of one call, from \<^verbatim>\<open>ServiceHandle::Call\<close> over the
  two streams to the future's \<^verbatim>\<open>Get\<close>, for methods that return a value and for void ones.
\<close>

section \<open>The two ends of a call\<close>

text \<open>A stream whose reader waits for the next message and has nothing of it yet.\<close>

definition idle :: "byte_order \<Rightarrow> stream \<Rightarrow> bool" where
  "idle en s \<longleftrightarrow> reading s \<and> unread en s = []"

text \<open>A C++ client whose next call has an id of 32 bits and no response in the cache.\<close>

definition client_ready :: "stream \<Rightarrow> 'j submitter \<Rightarrow> bool" where
  "client_ready st s \<longleftrightarrow> submitter_stream s = Some st \<and> client_language s = CPP
     \<and> unat (curr_object_id s) < 2 ^ 32 \<and> cached (curr_object_id s) s = None"

text \<open>
  One round of the loops of a worker and of a writer, when the queue has something, and an
  exchange on a server that does nothing else.
\<close>

definition work_once :: "('v, 'o, 'q, 'r) libs \<Rightarrow> ('s, 'v, 'q, 'r) executor \<Rightarrow> ('s, 'v, 'q, 'r) executor res" where
  "work_once lb e = (case lf_pop (lb_requests lb) (request_queue e) of
       None \<Rightarrow> Inr e
     | Some (request, q) \<Rightarrow> PerformRequest lb request (e\<lparr>request_queue := q\<rparr>))"

definition write_once :: "('v, 'o, 'q, 'r) libs \<Rightarrow> ('s, 'v, 'q, 'r) executor \<Rightarrow> ('s, 'v, 'q, 'r) executor res" where
  "write_once lb e = (case lf_pop (lb_responses lb) (response_queue e) of
       None \<Rightarrow> Inr e
     | Some (response, q) \<Rightarrow> write_response lb response (e\<lparr>response_queue := q\<rparr>))"

definition exchange ::
  "('v, 'o, 'q, 'r) libs \<Rightarrow> u64 \<Rightarrow> bytes \<Rightarrow> ('s, 'v, 'q, 'r) executor \<Rightarrow> ('s, 'v, 'q, 'r) executor res" where
  "exchange lb sid query e =
     res_bind (on_bytes lb sid query e) (\<lambda>e. res_bind (work_once lb e) (write_once lb))"

text \<open>A server connection that is idle, on an executor with nothing queued.\<close>

definition server_ready ::
  "('v, 'o, 'q, 'r) libs \<Rightarrow> ('q \<Rightarrow> 'o DousiRequest list) \<Rightarrow> ('r \<Rightarrow> DousiResponse list) \<Rightarrow> u64 \<Rightarrow> stream \<Rightarrow>
   ('s, 'v, 'q, 'r) executor \<Rightarrow> bool" where
  "server_ready lb rq rs sid st e \<longleftrightarrow> streams e sid = Some st \<and> strm_id st = sid \<and> idle (lb_order lb) st
     \<and> rq (request_queue e) = [] \<and> rs (response_queue e) = []"

lemma idle_receive:
  assumes "idle en st" and "length data < 2 ^ 32"
  shows "idle en (fst (receive en (frame en (oid, data)) st))"
proof -
  have "reading st" "unread en st = []" using assms(1) by (simp_all add: idle_def)
  with receive_parses [of st en "frame en (oid, data)"] receive_reading [of st]
    parse_frames_frame [OF assms(2), of en oid "[]"]
  show ?thesis by (simp add: idle_def parse_frames_short)
qed

lemma idle_Write [simp]: "idle en (Write en' oid data st) = idle en st"
  by (simp add: idle_def Write_def reading_def unread_def split: pending_read.splits)

text \<open>What an exchange does not touch.\<close>

definition same_methods :: "('s, 'v, 'q, 'r) executor \<Rightarrow> ('s, 'v, 'q, 'r) executor \<Rightarrow> bool" where
  "same_methods e e' \<longleftrightarrow> registered_methods e' = registered_methods e \<and> instances e' = instances e
     \<and> executor_options e' = executor_options e"

context executor_queues
begin

lemma call_and_respond_Inr:
  assumes "call_result (lb_msgpack lb) (cl_method cl) ob args [] = Inr (bs, ob')"
  shows "call_and_respond lb sid oid cl d ob args e =
    Inr (push_response lb \<lparr>rsp_object_id = oid, rsp_stream_id = sid, rsp_result = bs\<rparr>
          (e\<lparr>objects := (objects e)(service_object d \<mapsto> ob')\<rparr>))"
  using assms by (simp add: call_and_respond_def)

lemma write_once_pushed:
  assumes "rs (response_queue e) = []" and "streams e (rsp_stream_id x) = Some st"
  shows "\<exists>e'. write_once lb (push_response lb x e) = Inr e' \<and> objects e' = objects e
    \<and> streams e' (rsp_stream_id x) = Some (Write (lb_order lb) (rsp_object_id x) (rsp_result x) st)
    \<and> rq (request_queue e') = rq (request_queue e) \<and> rs (response_queue e') = [] \<and> same_methods e e'"
proof -
  have "rs (response_queue (push_response lb x e)) = [x]"
    using assms(1) by (simp add: push_response_def rsp.contents_push)
  from queue_pops(2) [OF this] obtain q where
    "lf_pop (lb_responses lb) (response_queue (push_response lb x e)) = Some (x, q)" by blast
  moreover from this have "rs q = []"
    using \<open>rs (response_queue (push_response lb x e)) = [x]\<close> rsp.pop_Some by fastforce
  ultimately show ?thesis
    using assms(2) by (simp add: write_once_def write_response_def push_response_def same_methods_def)
qed

text \<open>The request is read and performed, by the event loop or by a worker.\<close>

lemma read_and_work:
  assumes codec: "msgpack_codec (lb_msgpack lb) has_type"
    and ready: "server_ready lb rq rs sid st e"
    and bound: "bound_to name cl d ob e"
    and fit: "args_fit (lb_msgpack lb) has_type service name (cl_method cl) args"
    and result: "call_result (lb_msgpack lb) (cl_method cl) ob args [] = Inr (bs, ob')"
    and buffer: "buffer = PackArgsToBuffer (lb_msgpack lb)
        (mp_string (lb_msgpack lb) service # mp_string (lb_msgpack lb) name # args)"
    and e1: "e1 = e\<lparr>streams := (streams e)(sid \<mapsto> st')\<rparr>"
  shows "\<exists>e2. res_bind (InvokeMethod lb sid oid buffer e1) (work_once lb) =
      Inr (push_response lb \<lparr>rsp_object_id = oid, rsp_stream_id = sid, rsp_result = bs\<rparr> e2)
    \<and> rs (response_queue e2) = [] \<and> streams e2 sid = Some st'
    \<and> objects e2 = (objects e)(service_object d \<mapsto> ob') \<and> rq (request_queue e2) = [] \<and> same_methods e e2"
proof -
  have queues: "rq (request_queue e) = []" "rs (response_queue e) = []"
    using ready by (simp_all add: server_ready_def)
  have bound': "bound_to name cl d ob e1" using bound by (simp add: bound_to_def e1)
  obtain request where inv: "InvokeMethod lb sid oid buffer e1 =
      (if 0 < work_thread_num (executor_options e1)
       then Inr (e1\<lparr>request_queue := BoostLockFreeQueue_Push (lb_requests lb) request (request_queue e1)\<rparr>)
       else call_and_respond lb sid oid cl d ob args e1)"
    and perform: "\<And>e2. bound_to name cl d ob e2 \<Longrightarrow>
      PerformRequest lb request e2 = call_and_respond lb sid oid cl d ob args e2"
    using InvokeMethod_packed [OF codec bound' fit, of sid oid] unfolding buffer by blast
  show ?thesis
  proof (cases "0 < work_thread_num (executor_options e1)")
    case True
    let ?e2 = "e1\<lparr>request_queue := BoostLockFreeQueue_Push (lb_requests lb) request (request_queue e1)\<rparr>"
    have "rq (request_queue ?e2) = [request]" using queues(1) by (simp add: req.contents_push e1)
    from queue_pops(1) [OF this] obtain q where q: "lf_pop (lb_requests lb) (request_queue ?e2) = Some (request, q)"
      by blast
    then have "rq q = []" using \<open>rq (request_queue ?e2) = [request]\<close> req.pop_Some by fastforce
    let ?e3 = "?e2\<lparr>request_queue := q\<rparr>"
    have "bound_to name cl d ob ?e3" using bound by (simp add: bound_to_def e1)
    from perform [OF this] call_and_respond_Inr [OF result] q inv True queues(2) \<open>rq q = []\<close> show ?thesis
      by (intro exI [of _ "?e3\<lparr>objects := (objects ?e3)(service_object d \<mapsto> ob')\<rparr>"])
        (simp add: work_once_def e1 same_methods_def)
  next
    case False
    have "lf_pop (lb_requests lb) (request_queue e) = None"
      using queues(1) by (simp add: req.pop_None)
    with call_and_respond_Inr [OF result] inv False queues show ?thesis
      by (intro exI [of _ "e1\<lparr>objects := (objects e1)(service_object d \<mapsto> ob')\<rparr>"])
        (simp add: work_once_def push_response_def e1 same_methods_def)
  qed
qed

lemma exchange_answers:
  assumes codec: "msgpack_codec (lb_msgpack lb) has_type"
    and ready: "server_ready lb rq rs sid st e"
    and bound: "bound_to name cl d ob e"
    and fit: "args_fit (lb_msgpack lb) has_type service name (cl_method cl) args"
    and result: "call_result (lb_msgpack lb) (cl_method cl) ob args [] = Inr (bs, ob')"
    and buffer: "buffer = PackArgsToBuffer (lb_msgpack lb)
        (mp_string (lb_msgpack lb) service # mp_string (lb_msgpack lb) name # args)"
    and small: "length buffer < 2 ^ 32"
  shows "\<exists>e' st'. exchange lb sid (frame (lb_order lb) (oid, buffer)) e = Inr e'
    \<and> objects e' = (objects e)(service_object d \<mapsto> ob') \<and> streams e' sid = Some st'
    \<and> strm_writes st' = strm_writes st @ [frame (lb_order lb) (oid, bs)]
    \<and> server_ready lb rq rs sid st' e' \<and> same_methods e e'"
proof -
  let ?st = "fst (receive (lb_order lb) (frame (lb_order lb) (oid, buffer)) st)"
  let ?e = "e\<lparr>streams := (streams e)(sid \<mapsto> ?st)\<rparr>"
  let ?x = "\<lparr>rsp_object_id = oid, rsp_stream_id = sid, rsp_result = bs\<rparr>"
  have st: "streams e sid = Some st" "strm_id st = sid" "reading st" "unread (lb_order lb) st = []"
    using ready by (simp_all add: server_ready_def idle_def)
  have idle: "idle (lb_order lb) ?st" using ready small by (intro idle_receive) (simp_all add: server_ready_def)
  have read: "on_bytes lb sid (frame (lb_order lb) (oid, buffer)) e = InvokeMethod lb sid oid buffer ?e"
    using st receive_one_frame [OF st(3,4) small, of oid]
    by (simp add: on_bytes_def invoke_messages_Nil res_bind_Inr_right)
  obtain e2 where e2: "res_bind (InvokeMethod lb sid oid buffer ?e) (work_once lb) = Inr (push_response lb ?x e2)"
      "rs (response_queue e2) = []" "streams e2 sid = Some ?st" "objects e2 = (objects e)(service_object d \<mapsto> ob')"
      "rq (request_queue e2) = []" "same_methods e e2"
    using read_and_work [OF codec ready bound fit result buffer refl, of oid] by blast
  from e2(3) have "streams e2 (rsp_stream_id ?x) = Some ?st" by simp
  from write_once_pushed [OF e2(2) this] obtain e3 where e3: "write_once lb (push_response lb ?x e2) = Inr e3"
      "objects e3 = objects e2" "streams e3 sid = Some (Write (lb_order lb) oid bs ?st)"
      "rq (request_queue e3) = rq (request_queue e2)" "rs (response_queue e3) = []" "same_methods e2 e3" by auto
  have "exchange lb sid (frame (lb_order lb) (oid, buffer)) e = Inr e3"
    using e2(1) e3(1) by (simp add: exchange_def read flip: res_bind_assoc)
  moreover have "same_methods e e3" using e2(6) e3(6) by (simp add: same_methods_def)
  moreover have "strm_id (Write (lb_order lb) oid bs ?st) = sid" using st(2) by (simp add: Write_def)
  ultimately show ?thesis
    using e2(4,5) e3(2,3,4,5) idle by (simp add: server_ready_def)
qed

end

section \<open>One call between a client and a server\<close>

lemma remote_exchange:
  fixes s :: "'j submitter" and m :: "('s, 'v) method_pointer RemoteMethod"
  assumes "executor_queues lb rq rs" and "msgpack_codec (lb_msgpack lb) has_type"
    and "client_ready cst s" and "idle (lb_order lb) cst" and "server_ready lb rq rs sid st e"
    and "bound_to (GetName m) cl d ob e" and "cl_method cl = GetMethod m"
    and "args_fit (lb_msgpack lb) has_type (sh_service_name h) (GetName m) (GetMethod m) args"
    and "call_result (lb_msgpack lb) (GetMethod m) ob args [] = Inr (bs, ob')"
    and "length (call_buffer (lb_msgpack lb) h m args) < 2 ^ 32" and "length bs < 2 ^ 32"
  obtains f s' query reply cst' e' st' wire_id
  where "Call (lb_order lb) (lb_msgpack lb) h m args s = Inr (f, s')"
    and "f = DousiFuture (future_type (GetMethod m)) (curr_object_id s)"
    and "submitter_stream s' = Some cst'" and "strm_writes cst' = strm_writes cst @ [query]"
    and "exchange lb sid query e = Inr e'"
    and "objects e' (service_object d) = Some ob'"
    and "streams e' sid = Some st'" and "strm_writes st' = strm_writes st @ [reply]"
    and "snd (receive (lb_order lb) reply cst) = [(strm_id cst, wire_id, bs)]"
    and "cached (fut_object_id f) (cache_object wire_id bs s') = Some bs"
proof -
  let ?mp = "lb_msgpack lb"
  let ?w = "ucast (curr_object_id s) :: u32"
  let ?cst = "Write (lb_order lb) ?w (call_buffer ?mp h m args) cst"
  let ?s = "s\<lparr>curr_object_id := curr_object_id s + 1, submitter_stream := Some ?cst\<rparr>"
  let ?f = "DousiFuture (future_type (GetMethod m)) (curr_object_id s)"
  have client: "submitter_stream s = Some cst" "unat (curr_object_id s) < 2 ^ 32"
    using assms(3) by (simp_all add: client_ready_def)
  have call: "Call (lb_order lb) ?mp h m args s = Inr (?f, ?s)"
    by (rule Call_eq [OF client(1)])
  have fit: "args_fit ?mp has_type (sh_service_name h) (GetName m) (cl_method cl) args"
    and result: "call_result ?mp (cl_method cl) ob args [] = Inr (bs, ob')"
    using assms(7,8,9) by simp_all
  obtain e' st' where server: "exchange lb sid (frame (lb_order lb) (?w, call_buffer ?mp h m args)) e = Inr e'"
    "objects e' (service_object d) = Some ob'" "streams e' sid = Some st'"
    "strm_writes st' = strm_writes st @ [frame (lb_order lb) (?w, bs)]"
    using executor_queues.exchange_answers [OF assms(1,2,5,6) fit result call_buffer_def assms(10), of ?w] by auto
  have reply: "snd (receive (lb_order lb) (frame (lb_order lb) (?w, bs)) cst) = [(strm_id cst, ?w, bs)]"
    using assms(4,11) by (intro receive_one_frame) (simp_all add: idle_def)
  have "cached (fut_object_id ?f) (cache_object ?w bs ?s) = Some bs"
    by (simp add: DousiFuture_def cached_cache_object [OF client(2)])
  with call server reply show ?thesis
    by (intro that [of ?f ?s ?cst "frame (lb_order lb) (?w, call_buffer ?mp h m args)" e' st'
          "frame (lb_order lb) (?w, bs)" ?w]) simp_all
qed

lemma Get_cached:
  assumes "f = DousiFuture T oid" and "cached (fut_object_id f) s = Some bs"
  shows "Get mp others s f = Some
    (case res_bind (mp_unpack mp bs) (mp_as mp T) of
       Inl fault \<Rightarrow> (Inl fault, f)
     | Inr v \<Rightarrow> (Inr (Some v), f\<lparr>data_ptr := Some v, has_data := True\<rparr>))"
  using Get_found [where k = 0 and f = f and s = s and others = others and mp = mp] assms
  by (simp add: DousiFuture_def)

section \<open>Properties\<close>

text \<open>
  C1: a remote call of a method that returns a value is a local call seen from afar. A
  client's call writes one message; a server whose executor has the method bound, given these bytes on
  an idle connection, calls it on the service's object with the arguments (whether it has a
  worker pool or not), keeps the object's new state and writes one message back; this the
  client's stream delivers as the response to the call, and the future's \<^verbatim>\<open>Get\<close> then returns the
  value the method returned.
\<close>

theorem remote_call_returns_value:
  assumes "executor_queues lb rq rs" and "msgpack_codec (lb_msgpack lb) has_type"
    and "client_ready cst s" and "idle (lb_order lb) cst" and "server_ready lb rq rs sid st e"
    and "bound_to (GetName m) cl d ob e" and "cl_method cl = GetMethod m"
    and "args_fit (lb_msgpack lb) has_type (sh_service_name h) (GetName m) (GetMethod m) args"
    and "mt_body (GetMethod m) = Returning g" and "g ob args = Inr (v, ob')"
    and "has_type (future_type (GetMethod m)) v"
    and "length (call_buffer (lb_msgpack lb) h m args) < 2 ^ 32" and "length (mp_pack (lb_msgpack lb) v) < 2 ^ 32"
  shows "\<exists>f s' query reply cst' e' st'.
    Call (lb_order lb) (lb_msgpack lb) h m args s = Inr (f, s')
    \<and> submitter_stream s' = Some cst' \<and> strm_writes cst' = strm_writes cst @ [query]
    \<and> exchange lb sid query e = Inr e'
    \<and> objects e' (service_object d) = Some ob'
    \<and> streams e' sid = Some st' \<and> strm_writes st' = strm_writes st @ [reply]
    \<and> (\<exists>wire_id. snd (receive (lb_order lb) reply cst) = [(strm_id cst, wire_id, mp_pack (lb_msgpack lb) v)]
        \<and> (\<exists>f'. Get (lb_msgpack lb) others (cache_object wire_id (mp_pack (lb_msgpack lb) v) s') f =
              Some (Inr (Some v), f')))"
proof -
  have "call_result (lb_msgpack lb) (GetMethod m) ob args [] = Inr (mp_pack (lb_msgpack lb) v, ob')"
    using assms(9,10) by (simp add: call_result_def)
  then obtain f s' query reply cst' e' st' wire_id where
    *: "Call (lb_order lb) (lb_msgpack lb) h m args s = Inr (f, s')"
      "f = DousiFuture (future_type (GetMethod m)) (curr_object_id s)"
      "submitter_stream s' = Some cst'" "strm_writes cst' = strm_writes cst @ [query]"
      "exchange lb sid query e = Inr e'" "objects e' (service_object d) = Some ob'"
      "streams e' sid = Some st'" "strm_writes st' = strm_writes st @ [reply]"
      "snd (receive (lb_order lb) reply cst) = [(strm_id cst, wire_id, mp_pack (lb_msgpack lb) v)]"
      "cached (fut_object_id f) (cache_object wire_id (mp_pack (lb_msgpack lb) v) s') =
        Some (mp_pack (lb_msgpack lb) v)"
    using remote_exchange [OF assms(1-8) _ assms(12,13)] by metis
  obtain unpacked where "mp_unpack (lb_msgpack lb) (mp_pack (lb_msgpack lb) v) = Inr unpacked"
    "mp_as (lb_msgpack lb) (future_type (GetMethod m)) unpacked = Inr v"
    using msgpack_codec.value_roundtrip [OF assms(2,11)] by blast
  with Get_cached [OF *(2,10), of "lb_msgpack lb" others]
  have "\<exists>f'. Get (lb_msgpack lb) others (cache_object wire_id (mp_pack (lb_msgpack lb) v) s') f =
      Some (Inr (Some v), f')" by simp
  with * show ?thesis by blast
qed

text \<open>The example server, its first connection idle, computes 20 + 22 for a new client.\<close>

lemma idle_new [simp]: "idle en (Start (AsioStream i))"
  by (simp add: idle_def unread_def Start_def DoReadObjectID_def AsioStream_def reading_def)

lemma client_ready_new: "client_ready (Start (AsioStream 0)) connected_client"
  by (simp add: client_ready_def cached_def) (simp add: connected_client_def Submitter_def Submitter_of_def)

lemma server_ready_new:
  "server_ready wire_libs slq_data slq_data 0 (Start (AsioStream 0)) (one_client pool)"
  by (simp add: server_ready_def StdLockedQueue_def Start_def DoReadObjectID_def AsioStream_def)
    (simp add: idle_def unread_def reading_def)

definition add_method :: "(service_state, wire_value) method_pointer RemoteMethod" where
  "add_method = \<lparr>method_name = ''add'', method_ptr = ptr_add\<rparr>"

lemma add_method_simps [simp]:
  "GetName add_method = ''add''" "GetMethod add_method = ptr_add"
  by (simp_all add: add_method_def GetName_def GetMethod_def)

theorem remote_call_returns_value_witness:
  "\<exists>f s' query e' wire_id f'.
    Call Little_endian wire_msgpack (ServiceHandle ''Adder'') add_method [WInt 20, WInt 22] connected_client = Inr (f, s')
    \<and> exchange wire_libs 0 query (one_client (IOThreadPool 8)) = Inr e'
    \<and> Get wire_msgpack (\<lambda>_ s. s) (cache_object wire_id (wire_pack (WInt 42)) s') f = Some (Inr (Some (WInt 42)), f')"
proof -
  let ?d = "\<lparr>service_name = [], service_object = 0\<rparr> :: DousiService"
  have bound: "bound_to (GetName add_method) add_closure ?d Adder_object (one_client (IOThreadPool 8))"
    using bound_example by (simp add: bound_to_def)
  have cl: "cl_method add_closure = GetMethod add_method" by (simp add: add_closure_def)
  have fit: "args_fit (lb_msgpack wire_libs) wire_has_type (sh_service_name (ServiceHandle ''Adder'')) (GetName add_method)
      (GetMethod add_method) [WInt 20, WInt 22]"
    unfolding cl [symmetric] by (simp only: add_method_simps fits_example ServiceHandle_def service_handle.simps) simp
  have body: "mt_body (GetMethod add_method) = Returning Adder_add" by (simp add: ptr_add_def)
  have run: "Adder_add Adder_object [WInt 20, WInt 22] = Inr (WInt 42, Adder_object)"
    by (simp add: Adder_add_def int_result_def)
  have type: "wire_has_type (future_type (GetMethod add_method)) (WInt 42)"
    by (simp add: future_type_def ptr_add_def cpp_int_def BaseFunctionTraits_def)
  have small: "length (call_buffer (lb_msgpack wire_libs) (ServiceHandle ''Adder'') add_method [WInt 20, WInt 22]) < 2 ^ 32"
    using length_add_buffer
    by (simp add: call_buffer_def wire_libs_simps wire_msgpack_def PackArgsToBuffer_def ServiceHandle_def add_buffer_def)
  have small': "length (mp_pack (lb_msgpack wire_libs) (WInt 42)) < 2 ^ 32"
    by (simp add: wire_libs_simps wire_msgpack_def)
  note result = remote_call_returns_value [OF wire_queues.executor_queues_axioms wire_codec client_ready_new idle_new
      server_ready_new bound cl fit body run type small small', of "\<lambda>_ s. s"]
  have pack: "mp_pack wire_msgpack = wire_pack" by (simp add: wire_msgpack_def)
  from result show ?thesis unfolding wire_libs_simps(1,2) pack by blast
qed

text \<open>
  C27: the future of a void method is good for nothing: the call itself is performed as any
  other, but the response has an empty body, and the \<^verbatim>\<open>Get\<close> of the \<^verbatim>\<open>DousiFuture<bool>\<close> that
  the call returns throws when it unpacks it, now and whenever it is called again.
\<close>

theorem void_call_get_throws:
  assumes "executor_queues lb rq rs" and "msgpack_codec (lb_msgpack lb) has_type"
    and "client_ready cst s" and "idle (lb_order lb) cst" and "server_ready lb rq rs sid st e"
    and "bound_to (GetName m) cl d ob e" and "cl_method cl = GetMethod m"
    and "args_fit (lb_msgpack lb) has_type (sh_service_name h) (GetName m) (GetMethod m) args"
    and "mt_body (GetMethod m) = Returning_void g" and "g ob args = Inr ob'" and "method_typed (GetMethod m)"
    and "length (call_buffer (lb_msgpack lb) h m args) < 2 ^ 32"
  shows "\<exists>f s' query reply cst' e' st'.
    Call (lb_order lb) (lb_msgpack lb) h m args s = Inr (f, s') \<and> fut_type f = Base ''bool''
    \<and> submitter_stream s' = Some cst' \<and> strm_writes cst' = strm_writes cst @ [query]
    \<and> exchange lb sid query e = Inr e'
    \<and> objects e' (service_object d) = Some ob'
    \<and> streams e' sid = Some st' \<and> strm_writes st' = strm_writes st @ [reply]
    \<and> (\<exists>wire_id. snd (receive (lb_order lb) reply cst) = [(strm_id cst, wire_id, [])]
        \<and> Get (lb_msgpack lb) others (cache_object wire_id [] s') f = Some (Inl (Throws Msgpack_error), f))"
proof -
  have result: "call_result (lb_msgpack lb) (GetMethod m) ob args [] = Inr ([], ob')"
    using assms(9,10) by (simp add: call_result_def)
  have type: "future_type (GetMethod m) = Base ''bool''"
    using assms(9,11) by (simp add: method_typed_def future_type_def)
  have "length ([] :: bytes) < 2 ^ 32" by simp
  with remote_exchange [OF assms(1-8) result assms(12)] obtain f s' query reply cst' e' st' wire_id where
    *: "Call (lb_order lb) (lb_msgpack lb) h m args s = Inr (f, s')"
      "f = DousiFuture (Base ''bool'') (curr_object_id s)"
      "submitter_stream s' = Some cst'" "strm_writes cst' = strm_writes cst @ [query]"
      "exchange lb sid query e = Inr e'" "objects e' (service_object d) = Some ob'"
      "streams e' sid = Some st'" "strm_writes st' = strm_writes st @ [reply]"
      "snd (receive (lb_order lb) reply cst) = [(strm_id cst, wire_id, [])]"
      "cached (fut_object_id f) (cache_object wire_id [] s') = Some []"
    unfolding type by metis
  have "Get (lb_msgpack lb) others (cache_object wire_id [] s') f = Some (Inl (Throws Msgpack_error), f)"
    using Get_cached [OF *(2,10), of "lb_msgpack lb" others] msgpack_codec.unpack_nothing [OF assms(2)] by simp
  moreover have "fut_type f = Base ''bool''" using *(2) by (simp add: DousiFuture_def)
  ultimately show ?thesis using * by blast
qed

text \<open>A server with the service of the tests that keeps a string, alive, and one connection.\<close>

definition void_executor ::
  "(service_state, wire_value, wire_object DousiRequest std_locked_queue, DousiResponse std_locked_queue) executor" where
  "void_executor = (one_client (IOThreadPool 8))
     \<lparr>objects := [0 \<mapsto> VoidReturnService_object ''123''],
      instances := [1 \<mapsto> \<lparr>service_name = [], service_object = 0\<rparr>],
      registered_methods := [''Perform'' \<mapsto> Some \<lparr>cl_method = ptr_Perform, cl_service_instance = 1\<rparr>,
        ''Get'' \<mapsto> Some \<lparr>cl_method = ptr_Get, cl_service_instance = 1\<rparr>]\<rparr>"

theorem void_call_get_throws_witness:
  "\<exists>f s' query e' wire_id.
    Call Little_endian wire_msgpack (ServiceHandle ''V'') \<lparr>method_name = ''Perform'', method_ptr = ptr_Perform\<rparr>
      [WStr ''hi''] connected_client = Inr (f, s')
    \<and> exchange wire_libs 0 query void_executor = Inr e' \<and> objects e' 0 = Some (VoidReturnService_object ''hi'')
    \<and> Get wire_msgpack (\<lambda>_ s. s) (cache_object wire_id [] s') f = Some (Inl (Throws Msgpack_error), f)"
proof -
  let ?d = "\<lparr>service_name = [], service_object = 0\<rparr> :: DousiService"
  let ?m = "\<lparr>method_name = ''Perform'', method_ptr = ptr_Perform\<rparr>"
  let ?cl = "\<lparr>cl_method = ptr_Perform, cl_service_instance = 1\<rparr>"
  let ?h = "ServiceHandle ''V''"
  have m: "GetName ?m = ''Perform''" "GetMethod ?m = ptr_Perform" by (simp_all add: GetName_def GetMethod_def)
  have ready: "server_ready wire_libs slq_data slq_data 0 (Start (AsioStream 0)) void_executor"
    using server_ready_new [of "IOThreadPool 8"] by (simp add: server_ready_def void_executor_def)
  have bound: "bound_to (GetName ?m) ?cl ?d (VoidReturnService_object ''123'') void_executor"
    by (simp add: bound_to_def void_executor_def m)
  have cl: "cl_method ?cl = GetMethod ?m" by (simp add: m)
  have fit: "args_fit (lb_msgpack wire_libs) wire_has_type (sh_service_name ?h) (GetName ?m) (GetMethod ?m) [WStr ''hi'']"
    by (simp add: GetName_def GetMethod_def ServiceHandle_def args_fit_def wire_libs_simps wire_msgpack_def ptr_Perform_def BaseFunctionTraits_def
        std_string_def)
  have body: "mt_body (GetMethod ?m) = Returning_void VoidReturnService_Perform"
    and typed: "method_typed (GetMethod ?m)"
    by (simp_all add: GetMethod_def ptr_Perform_def method_typed_def BaseFunctionTraits_def)
  have run: "VoidReturnService_Perform (VoidReturnService_object ''123'') [WStr ''hi''] = Inr (VoidReturnService_object ''hi'')"
    by (simp add: VoidReturnService_Perform_def)
  have small: "length (call_buffer (lb_msgpack wire_libs) ?h ?m [WStr ''hi'']) < 2 ^ 32"
    by (simp add: call_buffer_def wire_libs_simps wire_msgpack_def PackArgsToBuffer_def ServiceHandle_def m
        wire_pack_tuple_def be32_def)
  have "service_object ?d = 0" by simp
  with void_call_get_throws [OF wire_queues.executor_queues_axioms wire_codec client_ready_new idle_new
      ready bound cl fit body run typed small, of "\<lambda>_ s. s"]
  show ?thesis unfolding wire_libs_simps(1,2) by metis
qed

end
