(* ===== verification/Call_Order.thy ===== *)
theory Call_Order
  imports Rpc_System
begin

text \<open>
  The order of calls: with several workers, the calls of one connection are performed in any
  order. The test program makes a void call that sets a string, does not wait for it, and expects
  the next call to read the new string (\<^verbatim>\<open>tests/basic_call_test.cc\<close>).
\<close>

section \<open>A message is queued\<close>

text \<open>
  A packed call on an idle connection of a server with workers adds one request, which will
  call the method on the object as it is then.
\<close>

lemma message_queued:
  assumes "streams e sid = Some st" and "idle (lb_order lb) st" and "strm_id st = sid"
    and "0 < work_thread_num (executor_options e)"
    and "msgpack_codec (lb_msgpack lb) has_type" and "bound_to name cl d ob e"
    and "args_fit (lb_msgpack lb) has_type service name (cl_method cl) args"
    and "buffer = PackArgsToBuffer (lb_msgpack lb)
        (mp_string (lb_msgpack lb) service # mp_string (lb_msgpack lb) name # args)"
    and "length buffer < 2 ^ 32"
  obtains r st' where
    "on_bytes lb sid (frame (lb_order lb) (oid, buffer)) e =
      Inr (e\<lparr>streams := (streams e)(sid \<mapsto> st'), request_queue := BoostLockFreeQueue_Push (lb_requests lb) r (request_queue e)\<rparr>)"
    and "received_keys lb sid (frame (lb_order lb) (oid, buffer)) e = [(sid, oid)]"
    and "idle (lb_order lb) st'" and "strm_id st' = sid" and "strm_writes st' = strm_writes st"
    and "\<And>e1 ob1. bound_to name cl d ob1 e1 \<Longrightarrow>
      PerformRequest lb r e1 = call_and_respond lb sid oid cl d ob1 args e1"
proof -
  let ?bs = "frame (lb_order lb) (oid, buffer)"
  let ?st = "fst (receive (lb_order lb) ?bs st)"
  let ?e = "e\<lparr>streams := (streams e)(sid \<mapsto> ?st)\<rparr>"
  have st: "reading st" "unread (lb_order lb) st = []" using assms(2) by (simp_all add: idle_def)
  have bound: "bound_to name cl d ob ?e" using assms(6) by (simp add: bound_to_def)
  have pool: "0 < work_thread_num (executor_options ?e)" using assms(4) by simp
  obtain r where r: "InvokeMethod lb sid oid buffer ?e =
      Inr (?e\<lparr>request_queue := BoostLockFreeQueue_Push (lb_requests lb) r (request_queue ?e)\<rparr>)"
    "\<And>e1 ob1. bound_to name cl d ob1 e1 \<Longrightarrow>
      PerformRequest lb r e1 = call_and_respond lb sid oid cl d ob1 args e1"
    using InvokeMethod_packed [OF assms(5) bound assms(7), of sid oid]
    unfolding assms(8) [symmetric] if_P [OF pool] by blast
  note one = receive_one_frame [OF st assms(9), of oid]
  have "on_bytes lb sid ?bs e =
      Inr (e\<lparr>streams := (streams e)(sid \<mapsto> ?st), request_queue := BoostLockFreeQueue_Push (lb_requests lb) r (request_queue e)\<rparr>)"
    using assms(1,3) one r(1) by (simp add: on_bytes_def)
  moreover have "received_keys lb sid ?bs e = [(sid, oid)]"
    using assms(1,3) one by (simp add: received_keys_def message_key_def)
  ultimately show ?thesis
    using r(2) idle_receive [OF assms(2,9), of oid] assms(3) by (intro that [of r ?st]) simp_all
qed

section \<open>A run in which the second call overtakes the first\<close>

text \<open>Two steps that only move a request or a response, for states written as updates.\<close>

lemma run_writer_pops_writes:
  assumes "server_run lb t0 evs (Inr t)" and "i < length (writers t)" and "writers t ! i = None"
    and "lf_pop (lb_responses lb) (response_queue (shared t)) = Some (x, q)"
    and "streams (shared t) (rsp_stream_id x) = Some st"
  shows "\<exists>t'. server_run lb t0 (evs @ [Responded (rsp_key x)]) (Inr t')
    \<and> streams (shared t') (rsp_stream_id x) = Some (Write (lb_order lb) (rsp_object_id x) (rsp_result x) st)"
proof -
  let ?t = "t\<lparr>shared := (shared t)\<lparr>response_queue := q\<rparr>, writers := (writers t)[i := Some x]\<rparr>"
  have "server_run lb t0 evs (Inr ?t)"
    using run_internal [OF assms(1) writer_pops [OF assms(2-4)]] by simp
  from run_internal [OF this writer_writes [where i = i and x = x]] assms(2,5) show ?thesis
    by (auto simp: write_response_def)
qed

lemma run_message:
  assumes "server_run lb t0 evs (Inr t)" and "on_bytes lb sid bs (shared t) = Inr e"
    and "received_keys lb sid bs (shared t) = [k]"
  shows "server_run lb t0 (evs @ [Received k]) (Inr (t\<lparr>shared := e\<rparr>))"
  using run_external [OF assms(1) bytes_arrive [where stream_id = sid and bs = bs]] assms(2,3) by simp


context executor_queues
begin

lemma requests_pushed: "rq (BoostLockFreeQueue_Push (lb_requests lb) r q) = rq q @ [r]"
  by (rule req.contents_push)

lemma second_served_first:
  assumes run: "server_run lb t0 evs (Inr t)"
    and "1 < length (workers t)" and "workers t ! 0 = None" and "workers t ! 1 = None"
    and "0 < length (writers t)" and "writers t ! 0 = None"
    and "rq (request_queue (shared t)) = [r1, r2]" and "rs (response_queue (shared t)) = []"
    and perform: "\<And>q. PerformRequest lb r2 ((shared t)\<lparr>request_queue := q\<rparr>) =
      Inr (push_response lb x ((shared t)\<lparr>request_queue := q, objects := obs\<rparr>))"
    and "streams (shared t) (rsp_stream_id x) = Some st"
  shows "\<exists>t'. server_run lb t0 (evs @ [Responded (rsp_key x)]) (Inr t')
    \<and> streams (shared t') (rsp_stream_id x) = Some (Write (lb_order lb) (rsp_object_id x) (rsp_result x) st)"
proof -
  obtain q1 where q1: "lf_pop (lb_requests lb) (request_queue (shared t)) = Some (r1, q1)"
    using queue_pops(1) assms(7) by blast
  then have "rq q1 = [r2]" using req.pop_Some assms(7) by fastforce
  then obtain q2 where q2: "lf_pop (lb_requests lb) q1 = Some (r2, q2)" using queue_pops(1) by blast
  let ?e = "\<lambda>q. (shared t)\<lparr>request_queue := q\<rparr>"
  have w0: "0 < length (workers t)" using assms(2) by linarith
  let ?t1 = "t\<lparr>shared := ?e q1, workers := (workers t)[0 := Some (Performs r1)]\<rparr>"
  have run1: "server_run lb t0 evs (Inr ?t1)"
    by (rule run_worker_pops [OF run w0 assms(3) q1 refl])
  let ?t2 = "t\<lparr>shared := ?e q2, workers := (workers t)[0 := Some (Performs r1), 1 := Some (Performs r2)]\<rparr>"
  have run2: "server_run lb t0 evs (Inr ?t2)"
    by (rule run_worker_pops [OF run1, where i = 1 and r = r2 and q = q2]) (use assms(2,4) q2 in simp_all)
  let ?e3 = "push_response lb x ((shared t)\<lparr>request_queue := q2, objects := obs\<rparr>)"
  let ?t3 = "t\<lparr>shared := ?e3, workers := (workers t)[0 := Some (Performs r1), 1 := None]\<rparr>"
  have run3: "server_run lb t0 evs (Inr ?t3)"
    by (rule run_worker_performs [OF run2, where i = 1 and r = r2 and e = ?e3]) (use assms(2) perform in simp_all)
  have "rs (response_queue ?e3) = [x]" using assms(8) by (simp add: push_response_def rsp.contents_push)
  then obtain q3 where "lf_pop (lb_responses lb) (response_queue ?e3) = Some (x, q3)" using queue_pops(2) by blast
  with run_writer_pops_writes [OF run3, where i = 0 and x = x and q = q3 and st = st] assms(5,6,10)
  show ?thesis by (simp add: push_response_def)
qed

end

section \<open>Properties\<close>

text \<open>
  C24: calls of one connection are not performed in the order in which they are made. On a server
  with two workers or more, two calls arrive one after the other; the worker that took the second
  one may perform it, and a writer may send its response, before the other worker begins with the
  first: the second is answered with what the method returns on the object as it was before both.
\<close>

theorem calls_overtake:
  fixes lb :: "('v, 'o, 'q, 'r) libs" and e :: "('s, 'v, 'q, 'r) executor"
  assumes "executor_queues lb rq rs" and "msgpack_codec (lb_msgpack lb) has_type"
    and "server_ready lb rq rs sid st e"
    and "0 < work_thread_num (executor_options e)" and "1 < work_thread_pool e" and "0 < write_thread_pool e"
    and "bound_to name1 cl1 d1 ob1 e" and "bound_to name2 cl2 d2 ob2 e"
    and "args_fit (lb_msgpack lb) has_type service1 name1 (cl_method cl1) args1"
    and "args_fit (lb_msgpack lb) has_type service2 name2 (cl_method cl2) args2"
    and "buffer1 = PackArgsToBuffer (lb_msgpack lb)
        (mp_string (lb_msgpack lb) service1 # mp_string (lb_msgpack lb) name1 # args1)"
    and "buffer2 = PackArgsToBuffer (lb_msgpack lb)
        (mp_string (lb_msgpack lb) service2 # mp_string (lb_msgpack lb) name2 # args2)"
    and "length buffer1 < 2 ^ 32" and "length buffer2 < 2 ^ 32"
    and "call_result (lb_msgpack lb) (cl_method cl2) ob2 args2 [] = Inr (bs, ob')"
  shows "\<exists>t st'. server_run lb (start_threads e) [Received (sid, o1), Received (sid, o2), Responded (sid, o2)] (Inr t)
    \<and> streams (shared t) sid = Some st' \<and> strm_writes st' = strm_writes st @ [frame (lb_order lb) (o2, bs)]"
proof -
  let ?f1 = "frame (lb_order lb) (o1, buffer1)" and ?f2 = "frame (lb_order lb) (o2, buffer2)"
  have st: "streams e sid = Some st" "idle (lb_order lb) st" "strm_id st = sid"
    and queues: "rq (request_queue e) = []" "rs (response_queue e) = []"
    using assms(3) by (simp_all add: server_ready_def)
  obtain r1 st1 where m1: "on_bytes lb sid ?f1 e = Inr (e\<lparr>streams := (streams e)(sid \<mapsto> st1),
      request_queue := BoostLockFreeQueue_Push (lb_requests lb) r1 (request_queue e)\<rparr>)"
    "received_keys lb sid ?f1 e = [(sid, o1)]"
    "idle (lb_order lb) st1" "strm_id st1 = sid" "strm_writes st1 = strm_writes st"
    by (rule message_queued [OF st assms(4,2,7,9,11,13), of o1]) blast
  let ?e1 = "e\<lparr>streams := (streams e)(sid \<mapsto> st1),
      request_queue := BoostLockFreeQueue_Push (lb_requests lb) r1 (request_queue e)\<rparr>"
  have e1: "streams ?e1 sid = Some st1" "0 < work_thread_num (executor_options ?e1)" "bound_to name2 cl2 d2 ob2 ?e1"
    using assms(4,8) by (simp_all add: bound_to_def)
  obtain r2 st2 where m2: "on_bytes lb sid ?f2 ?e1 = Inr (?e1\<lparr>streams := (streams ?e1)(sid \<mapsto> st2),
      request_queue := BoostLockFreeQueue_Push (lb_requests lb) r2 (request_queue ?e1)\<rparr>)"
    "received_keys lb sid ?f2 ?e1 = [(sid, o2)]" "strm_writes st2 = strm_writes st1"
    and perform: "\<And>e2 ob1. bound_to name2 cl2 d2 ob1 e2 \<Longrightarrow>
      PerformRequest lb r2 e2 = call_and_respond lb sid o2 cl2 d2 ob1 args2 e2"
    by (rule message_queued [OF e1(1) m1(3,4) e1(2) assms(2) e1(3) assms(10,12,14), of o2]) blast
  let ?e2 = "?e1\<lparr>streams := (streams ?e1)(sid \<mapsto> st2),
      request_queue := BoostLockFreeQueue_Push (lb_requests lb) r2 (request_queue ?e1)\<rparr>"
  define t where "t = (start_threads e :: ('s, 'v, 'o, 'q, 'r) server_threads)\<lparr>shared := ?e2\<rparr>"
  have threads: "workers t = replicate (work_thread_pool e) None" "writers t = replicate (write_thread_pool e) None"
    "shared t = ?e2"
    by (simp_all add: t_def start_threads_def)
  have "server_run lb (start_threads e) [Received (sid, o1)] (Inr ((start_threads e)\<lparr>shared := ?e1\<rparr>))"
    using run_message [OF run_start, of lb sid ?f1 "start_threads e" ?e1 "(sid, o1)"] m1(1,2)
    by (simp add: start_threads_def)
  from run_message [OF this, of sid ?f2 ?e2 "(sid, o2)"] m2(1,2)
  have run: "server_run lb (start_threads e) [Received (sid, o1), Received (sid, o2)] (Inr t)"
    by (simp add: t_def)
  let ?x = "\<lparr>rsp_object_id = o2, rsp_stream_id = sid, rsp_result = bs\<rparr>"
  have performs: "PerformRequest lb r2 ((shared t)\<lparr>request_queue := q\<rparr>) =
      Inr (push_response lb ?x ((shared t)\<lparr>request_queue := q, objects := (objects e)(service_object d2 \<mapsto> ob')\<rparr>))" for q
    using perform [of ob2 "(shared t)\<lparr>request_queue := q\<rparr>"] assms(8)
      executor_queues.call_and_respond_Inr [OF assms(1,15)]
    by (simp add: threads(3) bound_to_def)
  have "rq (request_queue (shared t)) = [r1, r2]" "rs (response_queue (shared t)) = []"
    using queues executor_queues.requests_pushed [OF assms(1)] by (simp_all add: threads(3))
  from executor_queues.second_served_first [OF assms(1) run _ _ _ _ _ this performs, of st2]
  show ?thesis using assms(5,6) m1(5) m2(3) by (auto simp: threads rsp_key_def)
qed


text \<open>
  The calls of the test: \<^verbatim>\<open>Perform("456")\<close> and then \<^verbatim>\<open>Get()\<close>, and the answer to the second
  is the old string.
\<close>

theorem calls_overtake_witness:
  "\<exists>t st'. server_run wire_libs (start_threads void_executor) [Received (0, 1), Received (0, 2), Responded (0, 2)] (Inr t)
    \<and> streams (shared t) 0 = Some st' \<and> strm_writes st' = [frame Little_endian (2, wire_pack (WStr ''123''))]"
proof -
  let ?d = "\<lparr>service_name = [], service_object = 0\<rparr> :: DousiService"
  let ?perform = "\<lparr>cl_method = ptr_Perform, cl_service_instance = 1\<rparr> :: (service_state, wire_value) closure"
  let ?get = "\<lparr>cl_method = ptr_Get, cl_service_instance = 1\<rparr> :: (service_state, wire_value) closure"
  let ?ob = "VoidReturnService_object ''123''"
  let ?s = "''VoidReturnService''"
  have ready: "server_ready wire_libs slq_data slq_data 0 (Start (AsioStream 0)) void_executor"
    using server_ready_new [of "IOThreadPool 8"] by (simp add: server_ready_def void_executor_def)
  have threads: "0 < work_thread_num (executor_options void_executor)" "1 < work_thread_pool void_executor"
    "0 < write_thread_pool void_executor"
    by (simp_all add: void_executor_def one_client_def add_stream_def example_executor_def Executor_def default_options_def)
  have bound: "bound_to ''Perform'' ?perform ?d ?ob void_executor" "bound_to ''Get'' ?get ?d ?ob void_executor"
    by (simp_all add: bound_to_def void_executor_def)
  have fit: "args_fit (lb_msgpack wire_libs) wire_has_type ?s ''Perform'' (cl_method ?perform) [WStr ''456'']"
    "args_fit (lb_msgpack wire_libs) wire_has_type ?s ''Get'' (cl_method ?get) []"
    by (simp_all add: args_fit_def wire_libs_simps wire_msgpack_def ptr_Perform_def ptr_Get_def BaseFunctionTraits_def
        std_string_def)
  have small: "length (wire_pack_tuple [WStr ?s, WStr ''Perform'', WStr ''456'']) < 2 ^ 32"
    "length (wire_pack_tuple [WStr ?s, WStr ''Get'']) < 2 ^ 32"
    by (simp_all add: wire_pack_tuple_def be32_def)
  have result: "call_result (lb_msgpack wire_libs) (cl_method ?get) ?ob [] [] = Inr (wire_pack (WStr ''123''), ?ob)"
    by (simp add: call_result_def ptr_Get_def VoidReturnService_Get_def wire_libs_simps wire_msgpack_def)
  have new: "strm_writes (Start (AsioStream 0)) = []"
    by (simp add: AsioStream_def Start_def DoReadObjectID_def)
  from calls_overtake [OF wire_queues.executor_queues_axioms wire_codec ready threads bound fit
      wire_call [symmetric] wire_call [symmetric] small result, of 1 2]
  show ?thesis by (simp add: new wire_libs_simps(1) del: wire_pack.simps)
qed

end
