(* ===== verification/Native_Client.thy ===== *)
theory Native_Client
  imports Submitter Msgpack_Wire
begin

text \<open>
  \<^verbatim>\<open>jni/native_java_client.h\<close>: the client the Java binding drives. It hands each response to
  a callback instead of the cache.
\<close>

definition NativeClientForJava ::
  "(string \<Rightarrow> u64 \<Rightarrow> u64 \<Rightarrow> string option) \<Rightarrow> (string \<Rightarrow> string \<Rightarrow> 'e res) \<Rightarrow> ('e \<Rightarrow> bool) \<Rightarrow>
   ('j \<Rightarrow> u32 \<Rightarrow> bytes \<Rightarrow> 'j res) option \<Rightarrow> string \<Rightarrow> 'j \<Rightarrow> logging \<Rightarrow> 'j rpc_client res" where
  "NativeClientForJava rotating resolver connects rpc_return_callback server_address j l =
     (let l = StartDousiLog rotating ''/tmp/dousi/java-native-client.log'' WARNING 10 3 l
      in res_bind (Submitter_Init resolver connects server_address (Submitter_of JAVA rpc_return_callback j))
           (\<lambda>s. Inr \<lparr>cli_submitter = s, cli_logging = l\<rparr>))"

text \<open>\<^verbatim>\<open>Invoke\<close> returns the id as a \<^verbatim>\<open>long\<close>.\<close>

definition NativeClient_Invoke ::
  "byte_order \<Rightarrow> bytes \<Rightarrow> 'j rpc_client \<Rightarrow> (int \<times> 'j rpc_client) res" where
  "NativeClient_Invoke en encoded_func_name_and_args c =
     (case RequestObjectID (cli_submitter c) of (object_id, s) \<Rightarrow>
        res_bind (Submit en object_id [] encoded_func_name_and_args s)
          (\<lambda>s. Inr (sint object_id, c\<lparr>cli_submitter := s\<rparr>)))"

definition NativeClient_Close :: "'j rpc_client \<Rightarrow> 'j rpc_client" where
  "NativeClient_Close c = c\<lparr>cli_submitter := Submitter_Shutdown (cli_submitter c)\<rparr>"

definition NativeClient_destructor :: "'j rpc_client \<Rightarrow> 'j rpc_client" where
  "NativeClient_destructor c =
     c\<lparr>cli_submitter := Submitter_destructor (Submitter_Shutdown (cli_submitter c))\<rparr>"

text \<open>Reading 64 bits as a signed number and reading the lower 32 as an unsigned one.\<close>

lemma signed_value:
  assumes "0 \<le> k" and "k < 2 ^ 64"
  shows "(k + 2 ^ 63) mod 2 ^ 64 - 2 ^ 63 = (if k < 2 ^ 63 then k else k - (2 ^ 64 :: int))"
proof (cases "k < 2 ^ 63")
  case True
  with assms have "(k + 2 ^ 63) mod 2 ^ 64 = k + 2 ^ 63"
    by (intro mod_pos_pos_trivial) simp_all
  with True show ?thesis by simp
next
  case False
  have "(k - 2 ^ 63) mod 2 ^ 64 = k - 2 ^ 63"
    using False assms by (intro mod_pos_pos_trivial) simp_all
  moreover have "(k + 2 ^ 63) mod 2 ^ 64 = (k - 2 ^ 63) mod 2 ^ 64"
    using mod_add_self2 [of "k - 2 ^ 63" "2 ^ 64"] by (simp add: add.commute)
  ultimately show ?thesis using False by simp
qed

lemma low_bits_eq_signed:
  assumes "0 \<le> k" and "k < 2 ^ 64"
  shows "k mod 2 ^ 32 = (k + 2 ^ 63) mod 2 ^ 64 - 2 ^ 63 \<longleftrightarrow> k < (2 ^ 32 :: int)"
proof -
  have "0 \<le> k mod 2 ^ 32" "k mod 2 ^ 32 < 2 ^ 32" by simp_all
  moreover have "k < 2 ^ 32 \<Longrightarrow> k mod 2 ^ 32 = k" using assms(1) by simp
  ultimately show ?thesis
    unfolding signed_value [OF assms] using assms(2) by (auto split: if_splits)
qed

lemma uint_ucast_u64_u32: "uint (ucast (x :: u64) :: u32) = uint x mod 2 ^ 32"
  by transfer (simp add: take_bit_eq_mod mod_mod_cancel)

lemma uint_ucast_eq_sint_iff:
  "uint (ucast (x :: u64) :: u32) = sint x \<longleftrightarrow> unat x < 2 ^ 32"
proof -
  have "sint x = (uint x + 2 ^ 63) mod 2 ^ 64 - 2 ^ 63"
    by (simp add: sint_uint signed_take_bit_eq_take_bit_shift take_bit_eq_mod)
  moreover have "0 \<le> uint x" "uint x < 2 ^ 64"
    using uint_bounded [of x] by simp_all
  moreover have "unat x < 2 ^ 32 \<longleftrightarrow> uint x < 2 ^ 32"
    using of_nat_less_iff [of "unat x" "2 ^ 32", where 'a = int] by simp
  ultimately show ?thesis
    using low_bits_eq_signed [of "uint x"] by (simp only: uint_ucast_u64_u32)
qed

section \<open>What the operations do\<close>

lemma NativeClientForJava_eq:
  assumes "Endpoint_of_address server_address = Inr ep" and "Resolve resolver ep = Inr endpoints"
    and "connects endpoints"
  shows "NativeClientForJava rotating resolver connects callback server_address j l =
    Inr \<lparr>cli_submitter = (Submitter_of JAVA callback j)
           \<lparr>submitter_stream := Some (Start (AsioStream 0)), io_service_thread := True\<rparr>,
         cli_logging = StartDousiLog rotating ''/tmp/dousi/java-native-client.log'' WARNING 10 3 l\<rparr>"
  using assms by (simp add: NativeClientForJava_def Let_def Submitter_Init_def DoConnect_def)

text \<open>An \<^verbatim>\<open>Invoke\<close> writes one frame with the lower half of the id.\<close>

lemma NativeClient_Invoke_eq:
  assumes "submitter_stream (cli_submitter c) = Some stream"
  shows "NativeClient_Invoke en encoded c =
    Inr (sint (curr_object_id (cli_submitter c)),
      c\<lparr>cli_submitter := (cli_submitter c)\<lparr>curr_object_id := curr_object_id (cli_submitter c) + 1,
        submitter_stream := Some (Write en (ucast (curr_object_id (cli_submitter c))) encoded stream)\<rparr>\<rparr>)"
  using assms by (simp add: NativeClient_Invoke_def RequestObjectID_def Submit_def)

text \<open>A response of a Java client goes to its callback.\<close>

lemma invocation_callback_java:
  assumes "client_language s = JAVA" and "on_rpc_returned_callback s = Some f"
  shows "invocation_callback throws file stream_id object_id buffer (l, s) =
    res_bind (f (java_state s) object_id buffer) (\<lambda>j. Inr (l, s\<lparr>java_state := j\<rparr>))"
  using assms by (simp add: invocation_callback_def DOUSI_CHECK_def)

end
