(* ===== verification/Jni_Binding.thy ===== *)
theory Jni_Binding
  imports Native_Client
begin

text \<open>
  The Java binding, \<^verbatim>\<open>jni/org_dousi_client_NativeRpcClient.cc\<close>. The functions of the Java Native
  Interface are a parameter, a record of functions on the state of the virtual machine; what the
  binding relies on is the locale \<open>jni_laws\<close>. The global variables of the binding, the clients made
  and the log are the state of the process.
\<close>

section \<open>The Java Native Interface\<close>

text \<open>
  \<open>'w\<close> is the state of the virtual machine, \<open>'r\<close> a reference, \<open>'m\<close> a method id. \<open>jni_cast_id\<close> is
  the \<^verbatim>\<open>reinterpret_cast\<close> of a method id to a reference.
\<close>

record ('w, 'r, 'm) jni_env =
  jni_null :: 'r
  jni_null_id :: 'm
  jni_cast_id :: "'m \<Rightarrow> 'r"
  GetEnv :: "'w \<Rightarrow> bool"
  AttachCurrentThreadAsDaemon :: "'w \<Rightarrow> 'w"
  FindClass :: "string \<Rightarrow> 'w \<Rightarrow> 'r \<times> 'w"
  GetMethodID :: "'r \<Rightarrow> string \<Rightarrow> string \<Rightarrow> 'w \<Rightarrow> 'm"
  NewGlobalRef :: "'r \<Rightarrow> 'w \<Rightarrow> 'r \<times> 'w"
  DeleteLocalRef :: "'r \<Rightarrow> 'w \<Rightarrow> 'w res"
  DeleteGlobalRef :: "'r \<Rightarrow> 'w \<Rightarrow> 'w res"
  GetStringUTFChars :: "'r \<Rightarrow> 'w \<Rightarrow> (string \<times> 'w) res"
  ReleaseStringUTFChars :: "'r \<Rightarrow> string \<Rightarrow> 'w \<Rightarrow> 'w"
  NewByteArray :: "int \<Rightarrow> 'w \<Rightarrow> 'r \<times> 'w"
  SetByteArrayRegion :: "'r \<Rightarrow> int \<Rightarrow> int \<Rightarrow> bytes \<Rightarrow> 'w \<Rightarrow> 'w res"
  GetArrayLength :: "'r \<Rightarrow> 'w \<Rightarrow> int res"
  GetByteArrayRegion :: "'r \<Rightarrow> int \<Rightarrow> int \<Rightarrow> 'w \<Rightarrow> bytes res"
  CallVoidMethod :: "'r \<Rightarrow> 'm \<Rightarrow> int \<Rightarrow> 'r \<Rightarrow> 'w \<Rightarrow> 'w res"

section \<open>The global variables and loading\<close>

record ('w, 'r, 'm) jni_globals =
  java_world :: 'w
  jvm :: bool
  java_class_NativeRpcClient :: 'r
  java_method_onResultReceived :: 'm
  java_object_native_rpc_client :: 'r

definition jni_globals_initial :: "('w, 'r, 'm) jni_env \<Rightarrow> 'w \<Rightarrow> ('w, 'r, 'm) jni_globals" where
  "jni_globals_initial env w =
     \<lparr>java_world = w, jvm = False, java_class_NativeRpcClient = jni_null env,
      java_method_onResultReceived = jni_null_id env, java_object_native_rpc_client = jni_null env\<rparr>"

definition LoadClass :: "('w, 'r, 'm) jni_env \<Rightarrow> string \<Rightarrow> 'w \<Rightarrow> ('r \<times> 'w) res" where
  "LoadClass env class_name w =
     (case FindClass env class_name w of (tempLocalClassRef, w) \<Rightarrow>
      case NewGlobalRef env tempLocalClassRef w of (ret, w) \<Rightarrow>
      res_bind (DeleteLocalRef env tempLocalClassRef w) (\<lambda>w. Inr (ret, w)))"

definition JNI_OnLoad ::
  "('w, 'r, 'm) jni_env \<Rightarrow> ('w, 'r, 'm) jni_globals \<Rightarrow> (int \<times> ('w, 'r, 'm) jni_globals) res" where
  "JNI_OnLoad env g =
     (if \<not> GetEnv env (java_world g) then Inr (-1, g)
      else res_bind (LoadClass env ''org/dousi/client/NativeRpcClient'' (java_world g)) (\<lambda>(class, w).
           Inr (0x00010008,
             g\<lparr>jvm := True, java_world := w, java_class_NativeRpcClient := class,
               java_method_onResultReceived :=
                 GetMethodID env class ''onReturnValueReceived'' ''(J[B)V'' w\<rparr>)))"

section \<open>Strings and arrays\<close>

text \<open>The constructor of \<^verbatim>\<open>std::string\<close> from a pointer stops at the first null character.\<close>

definition JavaStringToNativeString :: "('w, 'r, 'm) jni_env \<Rightarrow> 'r \<Rightarrow> 'w \<Rightarrow> (string \<times> 'w) res" where
  "JavaStringToNativeString env jstr w =
     res_bind (GetStringUTFChars env jstr w) (\<lambda>(c_str, w).
     Inr (takeWhile (\<lambda>c. c \<noteq> CHR 0x00) c_str, ReleaseStringUTFChars env jstr c_str w))"

text \<open>Sizes are narrowed to the 32 bits, signed, of a \<^verbatim>\<open>jsize\<close>.\<close>

definition to_jsize :: "nat \<Rightarrow> int" where
  "to_jsize n = sint (of_nat n :: u32)"

definition NativeStringToJavaByteArray :: "('w, 'r, 'm) jni_env \<Rightarrow> bytes \<Rightarrow> 'w \<Rightarrow> ('r \<times> 'w) res" where
  "NativeStringToJavaByteArray env str w =
     (case NewByteArray env (to_jsize (length str)) w of (array, w) \<Rightarrow>
      res_bind (SetByteArrayRegion env array 0 (to_jsize (length str)) str w) (\<lambda>w. Inr (array, w)))"

text \<open>\<^verbatim>\<open>str.front()\<close> of an empty string is undefined.\<close>

definition JavaByteArrayToNativeString :: "('w, 'r, 'm) jni_env \<Rightarrow> 'r \<Rightarrow> 'w \<Rightarrow> bytes res" where
  "JavaByteArrayToNativeString env bytes w =
     res_bind (GetArrayLength env bytes w) (\<lambda>size.
     if size = 0 then Inl Out_of_bounds else GetByteArrayRegion env bytes 0 size w)"

section \<open>The native methods\<close>

text \<open>The lambda: the id arrives as 32 bits and is widened to a \<^verbatim>\<open>long\<close>.\<close>

definition on_return_value_received ::
  "('w, 'r, 'm) jni_env \<Rightarrow> ('w, 'r, 'm) jni_globals \<Rightarrow> u32 \<Rightarrow> bytes \<Rightarrow> ('w, 'r, 'm) jni_globals res" where
  "on_return_value_received env g request_id buffer =
     (if \<not> jvm g then Inl Null_deref
      else res_bind (NativeStringToJavaByteArray env buffer (AttachCurrentThreadAsDaemon env (java_world g)))
        (\<lambda>(javaByteArray, w).
         res_bind (CallVoidMethod env (java_object_native_rpc_client g) (java_method_onResultReceived g)
             (uint request_id) javaByteArray w) (\<lambda>w.
         Inr (g\<lparr>java_world := w\<rparr>))))"

text \<open>
  The process: the globals, the log's static state, and the clients on the heap by address. A
  client's own copies of the globals and the log are not read.
\<close>

record ('w, 'r, 'm) jni_process =
  jni_vars :: "('w, 'r, 'm) jni_globals"
  jni_logging :: logging
  native_clients :: "nat \<rightharpoonup> ('w, 'r, 'm) jni_globals rpc_client"
  next_client :: nat

definition nativeNewRpcClient ::
  "('w, 'r, 'm) jni_env \<Rightarrow> (string \<Rightarrow> u64 \<Rightarrow> u64 \<Rightarrow> string option) \<Rightarrow> (string \<Rightarrow> string \<Rightarrow> 'e res) \<Rightarrow>
   ('e \<Rightarrow> bool) \<Rightarrow> 'r \<Rightarrow> 'r \<Rightarrow> ('w, 'r, 'm) jni_process \<Rightarrow> (nat \<times> ('w, 'r, 'm) jni_process) res" where
  "nativeNewRpcClient env rotating resolver connects this serverAddress p =
     (case NewGlobalRef env this (java_world (jni_vars p)) of (object, w) \<Rightarrow>
      res_bind (JavaStringToNativeString env serverAddress w) (\<lambda>(server_addr, w).
      let g = (jni_vars p)\<lparr>java_object_native_rpc_client := object, java_world := w\<rparr>
      in res_bind (NativeClientForJava rotating resolver connects (Some (on_return_value_received env))
             server_addr g (jni_logging p)) (\<lambda>native_rpc_client.
         Inr (next_client p,
           p\<lparr>jni_vars := g,
             jni_logging := StartDousiLog rotating ''tmp/dousi/java-client.log'' DEBUG 10 3 (cli_logging native_rpc_client),
             native_clients := (native_clients p)(next_client p \<mapsto> native_rpc_client),
             next_client := next_client p + 1\<rparr>))))"

definition nativeInvoke ::
  "('w, 'r, 'm) jni_env \<Rightarrow> byte_order \<Rightarrow> nat \<Rightarrow> 'r \<Rightarrow> ('w, 'r, 'm) jni_process \<Rightarrow>
   (int \<times> ('w, 'r, 'm) jni_process) res" where
  "nativeInvoke env en rpcClientPointer encodedBytes p =
     res_bind (JavaByteArrayToNativeString env encodedBytes (java_world (jni_vars p))) (\<lambda>encodedFuncNameAndArgs.
     case native_clients p rpcClientPointer of
       None \<Rightarrow> Inl Dangling_pointer
     | Some native_rpc_client \<Rightarrow>
         res_bind (NativeClient_Invoke en encodedFuncNameAndArgs native_rpc_client) (\<lambda>(id, c).
         Inr (id, p\<lparr>native_clients := (native_clients p)(rpcClientPointer \<mapsto> c)\<rparr>)))"

text \<open>
  \<^verbatim>\<open>Close\<close> does nothing, and \<^verbatim>\<open>delete\<close> joins the network thread and frees the client.
\<close>

definition nativeDestroy ::
  "('w, 'r, 'm) jni_env \<Rightarrow> nat \<Rightarrow> ('w, 'r, 'm) jni_process \<Rightarrow> ('w, 'r, 'm) jni_process res" where
  "nativeDestroy env rpcClientPointer p = (case native_clients p rpcClientPointer of
       None \<Rightarrow> Inl Dangling_pointer
     | Some native_rpc_client \<Rightarrow>
         let p = p\<lparr>native_clients := (native_clients p)(rpcClientPointer := None)\<rparr>; g = jni_vars p
         in res_bind (DeleteGlobalRef env (java_class_NativeRpcClient g) (java_world g)) (\<lambda>w.
            res_bind (DeleteGlobalRef env (jni_cast_id env (java_method_onResultReceived g)) w) (\<lambda>w.
            res_bind (DeleteGlobalRef env (java_object_native_rpc_client g) w) (\<lambda>w.
            Inr (p\<lparr>jni_vars := g\<lparr>java_world := w\<rparr>\<rparr>)))))"

text \<open>The network thread of a client: it reads and hands each message to the callback.\<close>

definition deliver_response ::
  "(log_line \<Rightarrow> string option) \<Rightarrow> string \<Rightarrow> nat \<Rightarrow> message \<Rightarrow> ('w, 'r, 'm) jni_process \<Rightarrow>
   ('w, 'r, 'm) jni_process res" where
  "deliver_response throws source_file pointer m p = (case native_clients p pointer of
       None \<Rightarrow> Inl Dangling_pointer
     | Some c \<Rightarrow> (case m of (stream_id, object_id, buffer) \<Rightarrow>
         res_bind (invocation_callback throws source_file stream_id object_id buffer
             (jni_logging p, (cli_submitter c)\<lparr>java_state := jni_vars p\<rparr>)) (\<lambda>(l, s).
         Inr (p\<lparr>jni_vars := java_state s, jni_logging := l,
                native_clients := (native_clients p)(pointer \<mapsto> c\<lparr>cli_submitter := s\<rparr>)\<rparr>))))"

fun deliver_responses ::
  "(log_line \<Rightarrow> string option) \<Rightarrow> string \<Rightarrow> nat \<Rightarrow> message list \<Rightarrow> ('w, 'r, 'm) jni_process \<Rightarrow>
   ('w, 'r, 'm) jni_process res" where
  "deliver_responses throws source_file pointer [] p = Inr p"
| "deliver_responses throws source_file pointer (m # ms) p =
     res_bind (deliver_response throws source_file pointer m p) (deliver_responses throws source_file pointer ms)"

definition java_client_bytes ::
  "byte_order \<Rightarrow> (log_line \<Rightarrow> string option) \<Rightarrow> string \<Rightarrow> nat \<Rightarrow> bytes \<Rightarrow> ('w, 'r, 'm) jni_process \<Rightarrow>
   ('w, 'r, 'm) jni_process res" where
  "java_client_bytes en throws source_file pointer bs p = (case native_clients p pointer of
       None \<Rightarrow> Inl Dangling_pointer
     | Some c \<Rightarrow> (case submitter_stream (cli_submitter c) of
         None \<Rightarrow> Inr p
       | Some st \<Rightarrow>
           deliver_responses throws source_file pointer (snd (receive en bs st))
             (p\<lparr>native_clients := (native_clients p)(pointer \<mapsto>
                 c\<lparr>cli_submitter := (cli_submitter c)\<lparr>submitter_stream := Some (fst (receive en bs st))\<rparr>\<rparr>)\<rparr>)))"


lemma to_jsize_small:
  assumes "n < 2 ^ 31"
  shows "to_jsize n = int n"
  using assms by (simp add: to_jsize_def signed_of_nat signed_take_bit_int_eq_self)

section \<open>What the binding relies on\<close>

text \<open>A global state in which the callback can be called, for the Java object \<open>ob\<close>.\<close>

definition callback_ready ::
  "('w \<Rightarrow> 'r \<Rightarrow> 'ob option) \<Rightarrow> ('w \<Rightarrow> 'r set) \<Rightarrow> ('m \<Rightarrow> bool) \<Rightarrow> 'ob \<Rightarrow> ('w, 'r, 'm) jni_globals \<Rightarrow> bool" where
  "callback_ready denotes globals is_method ob g \<longleftrightarrow> jvm g \<and> is_method (java_method_onResultReceived g)
     \<and> java_object_native_rpc_client g \<in> globals (java_world g)
     \<and> denotes (java_world g) (java_object_native_rpc_client g) = Some ob"

definition java_client ::
  "('w, 'r, 'm) jni_env \<Rightarrow> nat \<Rightarrow> ('w, 'r, 'm) jni_globals rpc_client \<Rightarrow> ('w, 'r, 'm) jni_process \<Rightarrow> bool" where
  "java_client env pointer c p \<longleftrightarrow> native_clients p pointer = Some c
     \<and> client_language (cli_submitter c) = JAVA
     \<and> on_rpc_returned_callback (cli_submitter c) = Some (on_return_value_received env)"

text \<open>
  \<open>denotes\<close> is what a live reference stands for, \<open>globals\<close> which references are global;
  \<open>array_of\<close> the contents of byte arrays, \<open>text_of\<close> the characters of strings;
  \<open>java_calls\<close> the calls of \<^verbatim>\<open>onReturnValueReceived\<close> made, each with its object, method id and arguments.
  The class is found and has the method. Using a reference that is not live, and deleting one that is not
  a global reference, is undefined; a method id is not a reference.
\<close>

locale jni_laws =
  fixes env :: "('w, 'r, 'm) jni_env"
    and denotes :: "'w \<Rightarrow> 'r \<Rightarrow> 'ob option"
    and global_refs :: "'w \<Rightarrow> 'r set"
    and array_of :: "'w \<Rightarrow> 'ob \<Rightarrow> bytes option"
    and text_of :: "'ob \<Rightarrow> string"
    and is_client_class :: "'ob \<Rightarrow> bool"
    and is_method :: "'m \<Rightarrow> bool"
    and java_calls :: "'w \<Rightarrow> ('ob \<times> 'm \<times> int \<times> bytes) list"
  assumes attach: "denotes (AttachCurrentThreadAsDaemon env w) = denotes w"
      "array_of (AttachCurrentThreadAsDaemon env w) = array_of w"
      "global_refs (AttachCurrentThreadAsDaemon env w) = global_refs w"
      "java_calls (AttachCurrentThreadAsDaemon env w) = java_calls w"
    and find_class: "\<exists>r w' ob. FindClass env ''org/dousi/client/NativeRpcClient'' w = (r, w')
      \<and> denotes w r = None \<and> denotes w' = (denotes w)(r \<mapsto> ob) \<and> is_client_class ob
      \<and> r \<notin> global_refs w' \<and> global_refs w' = global_refs w \<and> java_calls w' = java_calls w"
    and get_method: "denotes w r = Some ob \<Longrightarrow> is_client_class ob \<Longrightarrow>
      is_method (GetMethodID env r ''onReturnValueReceived'' ''(J[B)V'' w)"
    and new_global: "denotes w r = Some ob \<Longrightarrow> \<exists>g w'. NewGlobalRef env r w = (g, w')
      \<and> denotes w g = None \<and> denotes w' = (denotes w)(g \<mapsto> ob) \<and> global_refs w' = insert g (global_refs w)
      \<and> array_of w' = array_of w \<and> java_calls w' = java_calls w"
    and delete_local: "denotes w r = Some ob \<Longrightarrow> r \<notin> global_refs w \<Longrightarrow> \<exists>w'. DeleteLocalRef env r w = Inr w'
      \<and> denotes w' = (denotes w)(r := None) \<and> global_refs w' = global_refs w \<and> java_calls w' = java_calls w"
    and delete_global: "r \<in> global_refs w \<Longrightarrow> \<exists>w'. DeleteGlobalRef env r w = Inr w'
      \<and> denotes w' = (denotes w)(r := None) \<and> global_refs w' = global_refs w - {r} \<and> java_calls w' = java_calls w"
    and delete_not_global: "r \<notin> global_refs w \<Longrightarrow> r \<noteq> jni_null env \<Longrightarrow>
      DeleteGlobalRef env r w = Inl Invalid_reference"
    and method_id: "jni_cast_id env m \<notin> global_refs w" "is_method m \<Longrightarrow> jni_cast_id env m \<noteq> jni_null env"
    and get_string: "denotes w r = Some ob \<Longrightarrow> \<exists>w'. GetStringUTFChars env r w = Inr (text_of ob, w')
      \<and> denotes w' = denotes w \<and> global_refs w' = global_refs w \<and> array_of w' = array_of w
      \<and> java_calls w' = java_calls w"
    and string_text: "CHR 0x00 \<notin> set (text_of ob)"
    and release_string: "denotes (ReleaseStringUTFChars env r cs w) = denotes w"
      "global_refs (ReleaseStringUTFChars env r cs w) = global_refs w"
      "array_of (ReleaseStringUTFChars env r cs w) = array_of w"
      "java_calls (ReleaseStringUTFChars env r cs w) = java_calls w"
    and new_array: "0 \<le> n \<Longrightarrow> \<exists>a w' arr. NewByteArray env n w = (a, w') \<and> denotes w a = None
      \<and> denotes w' = (denotes w)(a \<mapsto> arr) \<and> array_of w' arr = Some (replicate (nat n) 0)
      \<and> global_refs w' = global_refs w \<and> java_calls w' = java_calls w"
    and set_array: "denotes w a = Some arr \<Longrightarrow> array_of w arr = Some old \<Longrightarrow> length data = length old \<Longrightarrow>
      \<exists>w'. SetByteArrayRegion env a 0 (int (length data)) data w = Inr w'
      \<and> denotes w' = denotes w \<and> array_of w' arr = Some data \<and> global_refs w' = global_refs w
      \<and> java_calls w' = java_calls w"
    and array_length: "denotes w a = Some arr \<Longrightarrow> array_of w arr = Some data \<Longrightarrow>
      GetArrayLength env a w = Inr (int (length data))"
    and get_array: "denotes w a = Some arr \<Longrightarrow> array_of w arr = Some data \<Longrightarrow>
      GetByteArrayRegion env a 0 (int (length data)) w = Inr data"
    and call_method: "denotes w r = Some ob \<Longrightarrow> is_method m \<Longrightarrow> denotes w a = Some arr \<Longrightarrow>
      array_of w arr = Some data \<Longrightarrow> \<exists>w'. CallVoidMethod env r m i a w = Inr w'
      \<and> java_calls w' = java_calls w @ [(ob, m, i, data)]
      \<and> (\<forall>g \<in> global_refs w. g \<in> global_refs w' \<and> denotes w' g = denotes w g)"
begin

lemma string_converted:
  assumes "denotes w r = Some ob"
  shows "\<exists>w'. JavaStringToNativeString env r w = Inr (text_of ob, w')
    \<and> denotes w' = denotes w \<and> global_refs w' = global_refs w \<and> array_of w' = array_of w
    \<and> java_calls w' = java_calls w"
proof -
  have "takeWhile (\<lambda>c. c \<noteq> CHR 0x00) (text_of ob) = text_of ob"
    using string_text [of ob] by (auto simp: takeWhile_eq_all_conv)
  moreover obtain w' where "GetStringUTFChars env r w = Inr (text_of ob, w')" "denotes w' = denotes w"
    "global_refs w' = global_refs w" "array_of w' = array_of w" "java_calls w' = java_calls w"
    using get_string [OF assms] by blast
  ultimately show ?thesis
    by (simp add: JavaStringToNativeString_def release_string)
qed

lemma array_made:
  assumes "length data < 2 ^ 31"
  shows "\<exists>a w' arr. NativeStringToJavaByteArray env data w = Inr (a, w') \<and> denotes w a = None
    \<and> denotes w' = (denotes w)(a \<mapsto> arr) \<and> array_of w' arr = Some data \<and> global_refs w' = global_refs w
    \<and> java_calls w' = java_calls w"
proof -
  note size = to_jsize_small [OF assms]
  obtain a w1 arr where new: "NewByteArray env (int (length data)) w = (a, w1)" "denotes w a = None"
    "denotes w1 = (denotes w)(a \<mapsto> arr)" "array_of w1 arr = Some (replicate (length data) 0)"
    "global_refs w1 = global_refs w" "java_calls w1 = java_calls w"
    using new_array [of "int (length data)" w] by auto
  from set_array [of w1 a arr, OF _ this(4), of data] new(3) obtain w2 where
    "SetByteArrayRegion env a 0 (int (length data)) data w1 = Inr w2" "denotes w2 = denotes w1"
    "array_of w2 arr = Some data" "global_refs w2 = global_refs w1" "java_calls w2 = java_calls w1"
    by auto
  with new show ?thesis by (auto simp: NativeStringToJavaByteArray_def size)
qed

lemma array_read:
  assumes "denotes w a = Some arr" and "array_of w arr = Some data"
  shows "JavaByteArrayToNativeString env a w = (if data = [] then Inl Out_of_bounds else Inr data)"
  using array_length [OF assms] get_array [OF assms] by (simp add: JavaByteArrayToNativeString_def)

lemma callback_called:
  assumes ready: "callback_ready denotes global_refs is_method ob g" and "length buffer < 2 ^ 31"
  shows "\<exists>w'. on_return_value_received env g request_id buffer = Inr (g\<lparr>java_world := w'\<rparr>)
    \<and> java_calls w' = java_calls (java_world g) @ [(ob, java_method_onResultReceived g, uint request_id, buffer)]
    \<and> callback_ready denotes global_refs is_method ob (g\<lparr>java_world := w'\<rparr>)"
proof -
  let ?w = "AttachCurrentThreadAsDaemon env (java_world g)"
  let ?r = "java_object_native_rpc_client g"
  have g: "jvm g" "is_method (java_method_onResultReceived g)" "?r \<in> global_refs ?w" "denotes ?w ?r = Some ob"
    using ready by (simp_all add: callback_ready_def attach)
  obtain a w1 arr where made: "NativeStringToJavaByteArray env buffer ?w = Inr (a, w1)" "denotes ?w a = None"
    "denotes w1 = (denotes ?w)(a \<mapsto> arr)" "array_of w1 arr = Some buffer" "global_refs w1 = global_refs ?w"
    "java_calls w1 = java_calls ?w"
    using array_made [OF assms(2)] by metis
  have "denotes w1 ?r = Some ob" "denotes w1 a = Some arr"
    using g(4) made(2,3) by auto
  from call_method [OF this(1) g(2) this(2) made(4), of "uint request_id"] obtain w2 where
    "CallVoidMethod env ?r (java_method_onResultReceived g) (uint request_id) a w1 = Inr w2"
    "java_calls w2 = java_calls w1 @ [(ob, java_method_onResultReceived g, uint request_id, buffer)]"
    "\<forall>g \<in> global_refs w1. g \<in> global_refs w2 \<and> denotes w2 g = denotes w1 g" by blast
  with g made \<open>denotes w1 ?r = Some ob\<close> show ?thesis
    by (auto simp: on_return_value_received_def callback_ready_def attach)
qed

lemma response_delivered:
  assumes "callback_ready denotes global_refs is_method ob (jni_vars p)" and "java_client env pointer c p"
    and "length data < 2 ^ 31"
  shows "\<exists>p' c'. deliver_response throws source_file pointer (sid, oid, data) p = Inr p'
    \<and> java_calls (java_world (jni_vars p')) = java_calls (java_world (jni_vars p)) @
        [(ob, java_method_onResultReceived (jni_vars p), uint oid, data)]
    \<and> java_method_onResultReceived (jni_vars p') = java_method_onResultReceived (jni_vars p)
    \<and> callback_ready denotes global_refs is_method ob (jni_vars p') \<and> java_client env pointer c' p'"
proof -
  obtain w' where w': "on_return_value_received env (jni_vars p) oid data = Inr ((jni_vars p)\<lparr>java_world := w'\<rparr>)"
    "java_calls w' = java_calls (java_world (jni_vars p)) @ [(ob, java_method_onResultReceived (jni_vars p), uint oid, data)]"
    "callback_ready denotes global_refs is_method ob ((jni_vars p)\<lparr>java_world := w'\<rparr>)"
    using callback_called [OF assms(1,3)] by blast
  with assms(2) show ?thesis
    by (simp add: deliver_response_def java_client_def invocation_callback_java)
qed

lemma responses_delivered:
  assumes "callback_ready denotes global_refs is_method ob (jni_vars p)" and "java_client env pointer c p"
    and "list_all (\<lambda>m. length (snd (snd m)) < 2 ^ 31) ms"
  shows "\<exists>p'. deliver_responses throws source_file pointer ms p = Inr p'
    \<and> java_calls (java_world (jni_vars p')) = java_calls (java_world (jni_vars p)) @
        map (\<lambda>(oid, data). (ob, java_method_onResultReceived (jni_vars p), uint oid, data)) (map snd ms)"
  using assms
proof (induction ms arbitrary: p c)
  case (Cons m ms)
  obtain sid oid data where m: "m = (sid, oid, data)" by (cases m)
  obtain p' c' where p': "deliver_response throws source_file pointer m p = Inr p'"
    "java_calls (java_world (jni_vars p')) = java_calls (java_world (jni_vars p)) @
        [(ob, java_method_onResultReceived (jni_vars p), uint oid, data)]"
    "java_method_onResultReceived (jni_vars p') = java_method_onResultReceived (jni_vars p)"
    "callback_ready denotes global_refs is_method ob (jni_vars p')" "java_client env pointer c' p'"
    using response_delivered [OF Cons.prems(1,2), where data = data and sid = sid and oid = oid and throws = throws and source_file = source_file] Cons.prems(3) by (auto simp: m)
  from Cons.IH [OF p'(4,5)] Cons.prems(3) p'(1-3) show ?case by (auto simp: m)
qed simp

lemma client_reads:
  assumes "callback_ready denotes global_refs is_method ob (jni_vars p)" and "java_client env pointer c p"
    and "submitter_stream (cli_submitter c) = Some st" and "reading st" and "unread en st = []"
    and "list_all (\<lambda>m. length (snd m) < 2 ^ 31) answers"
  shows "\<exists>p'. java_client_bytes en throws source_file pointer (concat (map (frame en) answers)) p = Inr p'
    \<and> java_calls (java_world (jni_vars p')) = java_calls (java_world (jni_vars p)) @
        map (\<lambda>(oid, data). (ob, java_method_onResultReceived (jni_vars p), uint oid, data)) answers"
proof -
  let ?ms = "snd (receive en (concat (map (frame en) answers)) st)"
  let ?p = "p\<lparr>native_clients := (native_clients p)(pointer \<mapsto>
    c\<lparr>cli_submitter := (cli_submitter c)\<lparr>submitter_stream :=
      Some (fst (receive en (concat (map (frame en) answers)) st))\<rparr>\<rparr>)\<rparr>"
  have "\<forall>m \<in> set answers. length (snd m) < 2 ^ 32"
    using assms(6) by (auto simp: list_all_iff)
  from parse_frames_concat [OF this, of en "[]"] receive_parses [OF assms(4), of en] assms(5)
  have ms: "map snd ?ms = answers" by (simp add: parse_frames_short)
  have "list_all (\<lambda>m. length (snd (snd m)) < 2 ^ 31) ?ms"
    using assms(6) list.pred_map [of "\<lambda>m. length (snd m) < 2 ^ 31" snd ?ms] by (simp add: ms comp_def)
  moreover have "java_client env pointer (c\<lparr>cli_submitter := (cli_submitter c)\<lparr>submitter_stream :=
      Some (fst (receive en (concat (map (frame en) answers)) st))\<rparr>\<rparr>) ?p"
    using assms(2) by (simp add: java_client_def)
  moreover have "callback_ready denotes global_refs is_method ob (jni_vars ?p)" using assms(1) by simp
  ultimately show ?thesis
    using responses_delivered [of ob ?p pointer _ ?ms throws source_file] assms(2,3)
    by (simp add: java_client_bytes_def java_client_def ms)
qed

text \<open>Loading the library makes the callback's class and method known.\<close>

lemma library_loaded:
  assumes "GetEnv env (java_world g)"
  shows "\<exists>g'. JNI_OnLoad env g = Inr (0x00010008, g') \<and> jvm g' \<and> is_method (java_method_onResultReceived g')
    \<and> java_class_NativeRpcClient g' \<in> global_refs (java_world g')
    \<and> java_calls (java_world g') = java_calls (java_world g)"
proof -
  let ?w = "java_world g"
  obtain r w1 ob where w1: "FindClass env ''org/dousi/client/NativeRpcClient'' ?w = (r, w1)"
    "denotes w1 r = Some ob" "is_client_class ob" "r \<notin> global_refs w1" "java_calls w1 = java_calls ?w"
    using find_class [of ?w] by auto
  obtain c w2 where w2: "NewGlobalRef env r w1 = (c, w2)" "denotes w1 c = None" "denotes w2 = (denotes w1)(c \<mapsto> ob)"
    "global_refs w2 = insert c (global_refs w1)" "java_calls w2 = java_calls w1"
    using new_global [OF w1(2)] by blast
  have "c \<noteq> r" using w1(2) w2(2) by auto
  with w1(2,4) w2(3,4) have "denotes w2 r = Some ob" "r \<notin> global_refs w2" by auto
  from delete_local [OF this] obtain w3 where w3: "DeleteLocalRef env r w2 = Inr w3"
    "denotes w3 = (denotes w2)(r := None)" "global_refs w3 = global_refs w2" "java_calls w3 = java_calls w2" by blast
  have "denotes w3 c = Some ob" using w2(3) w3(2) \<open>c \<noteq> r\<close> by simp
  from get_method [OF this w1(3)] show ?thesis
    using w1 w2 w3 assms by (simp add: JNI_OnLoad_def LoadClass_def)
qed

lemma client_made:
  assumes "jvm (jni_vars p)" and "is_method (java_method_onResultReceived (jni_vars p))"
    and "denotes (java_world (jni_vars p)) this = Some ob"
    and "denotes (java_world (jni_vars p)) serverAddress = Some address"
    and "Endpoint_of_address (text_of address) = Inr ep" and "Resolve resolver ep = Inr endpoints"
    and "connects endpoints"
  shows "\<exists>p' c. nativeNewRpcClient env rotating resolver connects this serverAddress p = Inr (next_client p, p')
    \<and> callback_ready denotes global_refs is_method ob (jni_vars p')
    \<and> java_client env (next_client p) c p' \<and> submitter_stream (cli_submitter c) = Some (Start (AsioStream 0))
    \<and> curr_object_id (cli_submitter c) = 0
    \<and> (\<forall>pointer < next_client p. native_clients p' pointer = native_clients p pointer)
    \<and> java_calls (java_world (jni_vars p')) = java_calls (java_world (jni_vars p))
    \<and> java_method_onResultReceived (jni_vars p') = java_method_onResultReceived (jni_vars p)"
proof -
  let ?w = "java_world (jni_vars p)"
  obtain g w1 where w1: "NewGlobalRef env this ?w = (g, w1)" "denotes ?w g = None" "denotes w1 = (denotes ?w)(g \<mapsto> ob)"
    "global_refs w1 = insert g (global_refs ?w)" "java_calls w1 = java_calls ?w"
    using new_global [OF assms(3)] by blast
  have "denotes w1 serverAddress = Some address" using w1(2,3) assms(4) by auto
  from string_converted [OF this] obtain w2 where w2: "JavaStringToNativeString env serverAddress w1 = Inr (text_of address, w2)"
    "denotes w2 = denotes w1" "global_refs w2 = global_refs w1" "java_calls w2 = java_calls w1" by blast
  show ?thesis
    using w1 w2 assms(1,2)
    by (simp add: NativeClientForJava_eq [of _ _ resolver _ connects, OF assms(5-7)] nativeNewRpcClient_def callback_ready_def java_client_def Let_def Submitter_of_def)
qed

lemma destroy_undefined:
  assumes "native_clients p pointer = Some c" and "is_method (java_method_onResultReceived (jni_vars p))"
    and "java_class_NativeRpcClient (jni_vars p) \<noteq> jni_null env"
  shows "nativeDestroy env pointer p = Inl Invalid_reference"
proof (cases "DeleteGlobalRef env (java_class_NativeRpcClient (jni_vars p)) (java_world (jni_vars p))")
  case (Inl fault)
  then have "fault = Invalid_reference"
    using delete_not_global [of "java_class_NativeRpcClient (jni_vars p)" "java_world (jni_vars p)"] delete_global assms(3)
    by (cases "java_class_NativeRpcClient (jni_vars p) \<in> global_refs (java_world (jni_vars p))") fastforce+
  with Inl assms(1) show ?thesis by (simp add: nativeDestroy_def Let_def)
next
  case (Inr w)
  with delete_not_global [OF method_id(1) method_id(2) [OF assms(2)], of w] assms(1) show ?thesis
    by (simp add: nativeDestroy_def Let_def)
qed

end

end
