(* ===== verification/Java_World.thy ===== *)
theory Java_World
  imports Jni_Binding
begin

text \<open>
  A virtual machine with the part of the Java Native Interface that the binding uses: handles for
  live references, local or global, byte arrays on a heap, and the calls of the callback's Java
  method so far. The laws the binding relies on hold of it.
\<close>

section \<open>The machine\<close>

datatype java_ref = Null | Handle nat | Method_id nat

datatype java_object = Java_client nat | Client_class | Other_class string | Java_string string | Java_array nat

text \<open>A handle in use has its object and whether it is global.\<close>

record java_vm =
  vm_handles :: "(java_object \<times> bool) option list"
  vm_arrays :: "bytes list"
  vm_calls :: "(java_object \<times> nat \<times> int \<times> bytes) list"

definition vm_handle :: "java_vm \<Rightarrow> java_ref \<Rightarrow> (java_object \<times> bool) option" where
  "vm_handle w r = (case r of
       Handle i \<Rightarrow> if i < length (vm_handles w) then vm_handles w ! i else None
     | _ \<Rightarrow> None)"

definition vm_denotes :: "java_vm \<Rightarrow> java_ref \<Rightarrow> java_object option" where
  "vm_denotes w r = map_option fst (vm_handle w r)"

definition vm_globals :: "java_vm \<Rightarrow> java_ref set" where
  "vm_globals w = {r. \<exists>ob. vm_handle w r = Some (ob, True)}"

definition vm_array_of :: "java_vm \<Rightarrow> java_object \<Rightarrow> bytes option" where
  "vm_array_of w ob = (case ob of
       Java_array k \<Rightarrow> if k < length (vm_arrays w) then Some (vm_arrays w ! k) else None
     | _ \<Rightarrow> None)"

definition vm_text_of :: "java_object \<Rightarrow> string" where
  "vm_text_of ob = (case ob of Java_string s \<Rightarrow> takeWhile (\<lambda>c. c \<noteq> CHR 0x00) s | _ \<Rightarrow> [])"

definition vm_new :: "java_object \<Rightarrow> bool \<Rightarrow> java_vm \<Rightarrow> java_ref \<times> java_vm" where
  "vm_new ob global w = (Handle (length (vm_handles w)), w\<lparr>vm_handles := vm_handles w @ [Some (ob, global)]\<rparr>)"

definition vm_delete :: "bool \<Rightarrow> java_ref \<Rightarrow> java_vm \<Rightarrow> java_vm res" where
  "vm_delete global r w = (case (r, vm_handle w r) of
       (Null, _) \<Rightarrow> Inr w
     | (Handle i, Some (_, g)) \<Rightarrow>
         if g = global then Inr (w\<lparr>vm_handles := (vm_handles w)[i := None]\<rparr>) else Inl Invalid_reference
     | _ \<Rightarrow> Inl Invalid_reference)"

definition with_array :: "java_ref \<Rightarrow> java_vm \<Rightarrow> (nat \<Rightarrow> bytes \<Rightarrow> 'a res) \<Rightarrow> 'a res" where
  "with_array a w f = (case vm_denotes w a of
       Some (Java_array k) \<Rightarrow> if k < length (vm_arrays w) then f k (vm_arrays w ! k) else Inl Invalid_reference
     | _ \<Rightarrow> Inl Invalid_reference)"

definition vm_env :: "(java_vm, java_ref, nat) jni_env" where
  "vm_env = \<lparr>jni_null = Null, jni_null_id = 0, jni_cast_id = Method_id,
     GetEnv = (\<lambda>w. True), AttachCurrentThreadAsDaemon = (\<lambda>w. w),
     FindClass = (\<lambda>name. vm_new (if name = ''org/dousi/client/NativeRpcClient'' then Client_class else Other_class name) False),
     GetMethodID = (\<lambda>r name signature w.
       if vm_denotes w r = Some Client_class \<and> name = ''onReturnValueReceived'' \<and> signature = ''(J[B)V'' then 2 else 0),
     NewGlobalRef = (\<lambda>r w. case vm_denotes w r of None \<Rightarrow> (Null, w) | Some ob \<Rightarrow> vm_new ob True w),
     DeleteLocalRef = vm_delete False, DeleteGlobalRef = vm_delete True,
     GetStringUTFChars = (\<lambda>r w. case vm_denotes w r of
         None \<Rightarrow> Inl Invalid_reference | Some ob \<Rightarrow> Inr (vm_text_of ob, w)),
     ReleaseStringUTFChars = (\<lambda>r cs w. w),
     NewByteArray = (\<lambda>n w. vm_new (Java_array (length (vm_arrays w))) False
       (w\<lparr>vm_arrays := vm_arrays w @ [replicate (nat n) 0]\<rparr>)),
     SetByteArrayRegion = (\<lambda>a start n bs w. with_array a w (\<lambda>k old.
       if start = 0 \<and> n = int (length old) \<and> length bs = length old
       then Inr (w\<lparr>vm_arrays := (vm_arrays w)[k := bs]\<rparr>) else Inl Out_of_bounds)),
     GetArrayLength = (\<lambda>a w. with_array a w (\<lambda>k bs. Inr (int (length bs)))),
     GetByteArrayRegion = (\<lambda>a start n w. with_array a w (\<lambda>k bs.
       if start = 0 \<and> n = int (length bs) then Inr bs else Inl Out_of_bounds)),
     CallVoidMethod = (\<lambda>r m i a w. case vm_denotes w r of
         None \<Rightarrow> Inl Invalid_reference
       | Some ob \<Rightarrow> if m \<noteq> 2 then Inl Invalid_reference
           else with_array a w (\<lambda>k bs. Inr (w\<lparr>vm_calls := vm_calls w @ [(ob, m, i, bs)]\<rparr>)))\<rparr>"

section \<open>It keeps the laws\<close>

lemma vm_handle_simps [simp]:
  "vm_handle w Null = None" "vm_handle w (Method_id m) = None"
  "vm_handle (w\<lparr>vm_arrays := x\<rparr>) r = vm_handle w r" "vm_handle (w\<lparr>vm_calls := y\<rparr>) r = vm_handle w r"
  by (simp_all add: vm_handle_def split: java_ref.splits)

lemma vm_handle_new:
  "vm_handle w (Handle (length (vm_handles w))) = None"
  "vm_handle (w\<lparr>vm_handles := vm_handles w @ [Some x]\<rparr>) = (vm_handle w)(Handle (length (vm_handles w)) \<mapsto> x)"
  by (auto simp: vm_handle_def fun_eq_iff nth_append split: java_ref.splits)

lemma vm_handle_delete:
  "vm_handle (w\<lparr>vm_handles := (vm_handles w)[i := None]\<rparr>) = (vm_handle w)(Handle i := None)"
  by (auto simp: vm_handle_def fun_eq_iff nth_list_update split: java_ref.splits)

lemma vm_views [simp]:
  "vm_denotes (w\<lparr>vm_arrays := x\<rparr>) = vm_denotes w" "vm_denotes (w\<lparr>vm_calls := y\<rparr>) = vm_denotes w"
  "vm_globals (w\<lparr>vm_arrays := x\<rparr>) = vm_globals w" "vm_globals (w\<lparr>vm_calls := y\<rparr>) = vm_globals w"
  "vm_array_of (w\<lparr>vm_calls := y\<rparr>) = vm_array_of w" "vm_array_of (w\<lparr>vm_handles := h\<rparr>) = vm_array_of w"
  by (auto simp: vm_denotes_def vm_globals_def vm_array_of_def fun_eq_iff split: java_object.splits)

lemma vm_new_laws:
  "vm_denotes w (fst (vm_new ob g w)) = None"
  "vm_denotes (snd (vm_new ob g w)) = (vm_denotes w)(fst (vm_new ob g w) \<mapsto> ob)"
  "vm_globals (snd (vm_new ob g w)) = (if g then insert (fst (vm_new ob g w)) (vm_globals w) else vm_globals w)"
  "fst (vm_new ob g w) \<notin> vm_globals w"
  "vm_array_of (snd (vm_new ob g w)) = vm_array_of w" "vm_calls (snd (vm_new ob g w)) = vm_calls w"
  by (auto simp: vm_new_def vm_denotes_def vm_globals_def vm_handle_new fun_eq_iff)

lemma vm_delete_ok:
  assumes "vm_denotes w r = Some ob" and "global = (r \<in> vm_globals w)"
  shows "\<exists>w'. vm_delete global r w = Inr w' \<and> vm_denotes w' = (vm_denotes w)(r := None)
    \<and> vm_globals w' = vm_globals w - {r} \<and> vm_calls w' = vm_calls w"
proof -
  obtain i g where r: "r = Handle i" "vm_handle w r = Some (ob, g)"
    using assms(1) by (cases r) (auto simp: vm_denotes_def)
  with assms(2) have "g = global" by (auto simp: vm_globals_def)
  with r show ?thesis
    by (auto simp: vm_delete_def vm_denotes_def vm_globals_def vm_handle_delete fun_eq_iff)
qed

lemma vm_delete_not_global: "r \<notin> vm_globals w \<Longrightarrow> r \<noteq> Null \<Longrightarrow> vm_delete True r w = Inl Invalid_reference"
  by (auto simp: vm_delete_def vm_globals_def split: java_ref.splits option.splits)

lemma vm_array:
  assumes "vm_denotes w a = Some arr" and "vm_array_of w arr = Some data"
  obtains k where "vm_denotes w a = Some (Java_array k)" "arr = Java_array k" "k < length (vm_arrays w)"
    "data = vm_arrays w ! k"
  using assms by (auto simp: vm_array_of_def split: java_object.splits if_splits)

lemma vm_text_no_null: "CHR 0x00 \<notin> set (vm_text_of ob)"
  by (auto simp: vm_text_of_def dest: set_takeWhileD split: java_object.splits)

interpretation vm: jni_laws vm_env vm_denotes vm_globals vm_array_of vm_text_of "\<lambda>ob. ob = Client_class"
  "\<lambda>m. m = 2" vm_calls
proof (unfold_locales, goal_cases)
  case (5 w)
  show ?case
    using vm_new_laws [where w = w and ob = Client_class and g = False]
    by (cases "vm_new Client_class False w") (simp add: vm_env_def)
next
  case (7 w r ob)
  then show ?case
    using vm_new_laws [where w = w and ob = ob and g = True] by (cases "vm_new ob True w") (simp add: vm_env_def)
next
  case (8 w r ob)
  then show ?case
    using vm_delete_ok [of w r ob False] by (auto simp: vm_env_def)
next
  case (9 r w)
  then obtain ob where "vm_denotes w r = Some ob" by (auto simp: vm_globals_def vm_denotes_def)
  from vm_delete_ok [OF this] 9 show ?case by (simp add: vm_env_def)
next
  case (19 n w)
  let ?w = "w\<lparr>vm_arrays := vm_arrays w @ [replicate (nat n) 0]\<rparr>"
  let ?arr = "Java_array (length (vm_arrays w))"
  have "vm_array_of ?w ?arr = Some (replicate (nat n) 0)" by (simp add: vm_array_of_def)
  then show ?case
    using vm_new_laws [where w = ?w and ob = ?arr and g = False]
    by (cases "vm_new ?arr False ?w") (auto simp: vm_env_def intro!: exI [of _ ?arr])
next
  case (20 w a arr old data)
  obtain k where k: "vm_denotes w a = Some (Java_array k)" "arr = Java_array k" "k < length (vm_arrays w)"
    "old = vm_arrays w ! k"
    using 20(1,2) by (rule vm_array)
  with 20(3) show ?case
    by (intro exI [of _ "w\<lparr>vm_arrays := (vm_arrays w)[k := data]\<rparr>"])
      (simp add: vm_env_def with_array_def vm_array_of_def)
next
  case (21 w a arr data)
  then show ?case by (rule vm_array) (simp add: vm_env_def with_array_def)
next
  case (22 w a arr data)
  then show ?case by (rule vm_array) (simp add: vm_env_def with_array_def)
next
  case (23 w r ob m a arr data i)
  from 23(3,4) obtain k where k: "vm_denotes w a = Some (Java_array k)" "k < length (vm_arrays w)"
    "data = vm_arrays w ! k"
    by (rule vm_array)
  with 23(1,2) show ?case by (simp add: vm_env_def with_array_def)
qed (auto simp: vm_env_def vm_text_no_null vm_delete_not_global vm_globals_def)

end
