(* ===== verification/Java_Calls.thy ===== *)
theory Java_Calls
  imports Java_World
begin

text \<open>
  What the Java binding does for its callers: calls and answers, the object the answers go
  to, and the destruction of a client.
\<close>

section \<open>A process with one client\<close>

text \<open>
  A machine with two client objects, a server's address and an encoded call, in which the library has
  been loaded and a client been made for the first object; its next call has the id \<open>k\<close>.
\<close>

definition client_vm :: java_vm where
  "client_vm = \<lparr>vm_handles = [Some (Java_client 8, False), Some (Java_client 7, False),
       Some (Java_string ''127.0.0.1:10001'', False), Some (Java_array 0, False), Some (Client_class, True),
       Some (Java_client 7, True)],
     vm_arrays = [[1, 2]], vm_calls = []\<rparr>"

definition client_vars :: "(java_vm, java_ref, nat) jni_globals" where
  "client_vars = \<lparr>java_world = client_vm, jvm = True, java_class_NativeRpcClient = Handle 4,
     java_method_onResultReceived = 2, java_object_native_rpc_client = Handle 5\<rparr>"

definition java_rpc_client :: "u64 \<Rightarrow> (java_vm, java_ref, nat) jni_globals rpc_client" where
  "java_rpc_client k =
     \<lparr>cli_submitter = (Submitter_of JAVA (Some (on_return_value_received vm_env)) client_vars)
        \<lparr>submitter_stream := Some (Start (AsioStream 0)), curr_object_id := k\<rparr>,
      cli_logging = logging_initial\<rparr>"

definition java_process :: "u64 \<Rightarrow> (java_vm, java_ref, nat) jni_process" where
  "java_process k = \<lparr>jni_vars = client_vars, jni_logging = logging_initial,
     native_clients = [0 \<mapsto> java_rpc_client k], next_client = 1\<rparr>"

lemma client_vm_denotes [simp]:
  "vm_denotes client_vm (Handle 0) = Some (Java_client 8)"
  "vm_denotes client_vm (Handle 2) = Some (Java_string ''127.0.0.1:10001'')"
  "vm_denotes client_vm (Handle 3) = Some (Java_array 0)"
  "vm_denotes client_vm (Handle 5) = Some (Java_client 7)" "Handle 5 \<in> vm_globals client_vm"
  "vm_array_of client_vm (Java_array 0) = Some [1, 2]" "vm_calls client_vm = []"
  "vm_text_of (Java_string ''127.0.0.1:10001'') = ''127.0.0.1:10001''"
  by (simp_all add: client_vm_def vm_denotes_def vm_handle_def vm_array_of_def vm_text_of_def vm_globals_def
      eval_nat_numeral)

lemma java_process_simps [simp]:
  "callback_ready vm_denotes vm_globals (\<lambda>m. m = 2) ob (jni_vars (java_process k)) \<longleftrightarrow> ob = Java_client 7"
  "java_client vm_env 0 c (java_process k) \<longleftrightarrow> c = java_rpc_client k"
  "submitter_stream (cli_submitter (java_rpc_client k)) = Some (Start (AsioStream 0))"
  "curr_object_id (cli_submitter (java_rpc_client k)) = k"
  "java_world (jni_vars (java_process k)) = client_vm"
  "java_method_onResultReceived (jni_vars (java_process k)) = 2" "jvm (jni_vars (java_process k))"
  "next_client (java_process k) = 1"
  by (auto simp: java_process_def java_rpc_client_def client_vars_def callback_ready_def java_client_def Submitter_of_def)

section \<open>Properties\<close>

text \<open>
  C36: a call from Java and its answers. \<^verbatim>\<open>nativeInvoke\<close> with a non-empty byte array writes its bytes as
  one message and returns the call's id; the responses that arrive, in whatever number, reach Java as
  as many calls of \<^verbatim>\<open>onReturnValueReceived\<close> on the client object made last, in order and with their
  bytes unchanged. The id on the wire, which the answer carries, is the id returned exactly
  for the first 2 to the 32 calls.
\<close>

theorem java_call_answered:
  assumes "jni_laws env denotes globals array_of text_of is_client_class is_method java_calls"
    and "callback_ready denotes globals is_method ob (jni_vars p)" and "java_client env pointer c p"
    and "submitter_stream (cli_submitter c) = Some st" and "reading st" and "unread en st = []"
    and "denotes (java_world (jni_vars p)) a = Some arr" and "array_of (java_world (jni_vars p)) arr = Some encoded"
    and "encoded \<noteq> []" and "list_all (\<lambda>m. length (snd m) < 2 ^ 31) answers"
  shows "\<exists>p' c' wire_id p''. nativeInvoke env en pointer a p = Inr (sint (curr_object_id (cli_submitter c)), p')
    \<and> native_clients p' pointer = Some c'
    \<and> map_option strm_writes (submitter_stream (cli_submitter c')) = Some (strm_writes st @ [frame en (wire_id, encoded)])
    \<and> (uint wire_id = sint (curr_object_id (cli_submitter c)) \<longleftrightarrow> unat (curr_object_id (cli_submitter c)) < 2 ^ 32)
    \<and> java_client_bytes en throws source_file pointer (concat (map (frame en) answers)) p' = Inr p''
    \<and> java_calls (java_world (jni_vars p'')) = java_calls (java_world (jni_vars p)) @
        map (\<lambda>(oid, data). (ob, java_method_onResultReceived (jni_vars p), uint oid, data)) answers"
proof -
  let ?s = "cli_submitter c"
  let ?w = "ucast (curr_object_id ?s) :: u32"
  let ?st = "Write en ?w encoded st"
  let ?c = "c\<lparr>cli_submitter := ?s\<lparr>curr_object_id := curr_object_id ?s + 1, submitter_stream := Some ?st\<rparr>\<rparr>"
  let ?p = "p\<lparr>native_clients := (native_clients p)(pointer \<mapsto> ?c)\<rparr>"
  have invoke: "nativeInvoke env en pointer a p = Inr (sint (curr_object_id ?s), ?p)"
    using jni_laws.array_read [OF assms(1,7,8)] assms(9) assms(3) NativeClient_Invoke_eq [OF assms(4)]
    by (simp add: nativeInvoke_def java_client_def)
  have client: "java_client env pointer ?c ?p" and ready: "callback_ready denotes globals is_method ob (jni_vars ?p)"
    and stream: "submitter_stream (cli_submitter ?c) = Some ?st" "reading ?st" "unread en ?st = []"
    using assms(2,3,5,6) by (simp_all add: java_client_def Write_def reading_def unread_def split: pending_read.splits)
  obtain p'' where "java_client_bytes en throws source_file pointer (concat (map (frame en) answers)) ?p = Inr p''"
    "java_calls (java_world (jni_vars p'')) = java_calls (java_world (jni_vars p)) @
        map (\<lambda>(oid, data). (ob, java_method_onResultReceived (jni_vars p), uint oid, data)) answers"
    using jni_laws.client_reads [OF assms(1) ready client stream assms(10)] by auto
  with invoke uint_ucast_eq_sint_iff [of "curr_object_id ?s"] show ?thesis
    by - (rule exI [of _ ?p], rule exI [of _ ?c], rule exI [of _ ?w], rule exI [of _ p''], simp)
qed

text \<open>Java waits for the answer 4294967296 and is told of an answer 0.\<close>

theorem java_call_answered_witness:
  "\<exists>p' p''. nativeInvoke vm_env Little_endian 0 (Handle 3) (java_process 4294967296) = Inr (4294967296, p')
    \<and> java_client_bytes Little_endian (\<lambda>_. None) [] 0 (frame Little_endian (0, [3])) p' = Inr p''
    \<and> vm_calls (java_world (jni_vars p'')) = [(Java_client 7, 2, 0, [3])]"
proof -
  let ?c = "java_rpc_client 4294967296" and ?p = "java_process 4294967296"
  have new: "reading (Start (AsioStream 0))" "unread Little_endian (Start (AsioStream 0)) = []"
    by (simp_all add: AsioStream_def)
  have *: "callback_ready vm_denotes vm_globals (\<lambda>m. m = 2) (Java_client 7) (jni_vars ?p)" "java_client vm_env 0 ?c ?p"
    "submitter_stream (cli_submitter ?c) = Some (Start (AsioStream 0))"
    "vm_denotes (java_world (jni_vars ?p)) (Handle 3) = Some (Java_array 0)"
    "vm_array_of (java_world (jni_vars ?p)) (Java_array 0) = Some [1, 2]" "[1, 2] \<noteq> ([] :: bytes)"
    "list_all (\<lambda>m. length (snd m) < 2 ^ 31) [(0 :: u32, [3 :: 8 word])]"
    by simp_all
  have signed: "sint (4294967296 :: u64) = 4294967296" by simp
  from java_call_answered [OF vm.jni_laws_axioms *(1-3) new *(4-7), of "\<lambda>_. None" "[]"] show ?thesis
    by (auto simp: signed)
qed

text \<open>
  C37: the object that answers are for is a global variable of the binding, which every new client
  overwrites: once a client has been made for a Java object, the responses to the calls of every
  client that existed before are handed to that object, and not to the one they were made on.
\<close>

theorem last_java_client_takes_responses:
  assumes "jni_laws env denotes globals array_of text_of is_client_class is_method java_calls"
    and "jvm (jni_vars p)" and "is_method (java_method_onResultReceived (jni_vars p))"
    and "java_client env pointer c p" and "pointer < next_client p"
    and "denotes (java_world (jni_vars p)) this = Some ob"
    and "denotes (java_world (jni_vars p)) serverAddress = Some address"
    and "Endpoint_of_address (text_of address) = Inr ep" and "Resolve resolver ep = Inr endpoints"
    and "connects endpoints" and "list_all (\<lambda>m. length (snd (snd m)) < 2 ^ 31) ms"
  shows "\<exists>p' p''. nativeNewRpcClient env rotating resolver connects this serverAddress p = Inr (next_client p, p')
    \<and> deliver_responses throws source_file pointer ms p' = Inr p''
    \<and> java_calls (java_world (jni_vars p'')) = java_calls (java_world (jni_vars p)) @
        map (\<lambda>(oid, data). (ob, java_method_onResultReceived (jni_vars p), uint oid, data)) (map snd ms)"
proof -
  obtain p' where p': "nativeNewRpcClient env rotating resolver connects this serverAddress p = Inr (next_client p, p')"
    "callback_ready denotes globals is_method ob (jni_vars p')"
    "native_clients p' pointer = native_clients p pointer"
    "java_calls (java_world (jni_vars p')) = java_calls (java_world (jni_vars p))"
    "java_method_onResultReceived (jni_vars p') = java_method_onResultReceived (jni_vars p)"
    using jni_laws.client_made [of env denotes globals array_of text_of is_client_class is_method java_calls
        p this ob serverAddress address ep resolver endpoints connects rotating, OF assms(1-3,6-10)] assms(5)
    by blast
  have "java_client env pointer c p'" using assms(4) p'(3) by (simp add: java_client_def)
  from jni_laws.responses_delivered [OF assms(1) p'(2) this assms(11), of throws source_file] p'(1,4,5) show ?thesis
    by auto
qed

theorem last_java_client_takes_responses_witness:
  "\<exists>p' p''. nativeNewRpcClient vm_env (\<lambda>f m n. None) (\<lambda>h n. Inr (h, n)) (\<lambda>e. True) (Handle 0) (Handle 2) (java_process 1)
      = Inr (1, p')
    \<and> deliver_responses (\<lambda>_. None) [] 0 [(0, 0, [7])] p' = Inr p''
    \<and> vm_calls (java_world (jni_vars p'')) = [(Java_client 8, 2, 0, [7])]"
proof -
  let ?p = "java_process 1"
  let ?resolver = "\<lambda>h n. Inr (h, n) :: (string \<times> string) res"
  have *: "jvm (jni_vars ?p)" "java_method_onResultReceived (jni_vars ?p) = 2" "java_client vm_env 0 (java_rpc_client 1) ?p"
    "0 < next_client ?p" "vm_denotes (java_world (jni_vars ?p)) (Handle 0) = Some (Java_client 8)"
    "vm_denotes (java_world (jni_vars ?p)) (Handle 2) = Some (Java_string ''127.0.0.1:10001'')"
    "list_all (\<lambda>m. length (snd (snd m)) < 2 ^ 31) [(0 :: u64, 0 :: u32, [7 :: 8 word])]"
    by simp_all
  have "Endpoint_of_address (''127.0.0.1'' @ '':'' @ to_string 10001) = Inr \<lparr>host = ''127.0.0.1'', port = of_nat 10001\<rparr>"
    using Endpoint_of_address_colon [of "''127.0.0.1''" "to_string 10001"] by (simp add: stoi_to_string npos_def)
  then have address: "Endpoint_of_address (vm_text_of (Java_string ''127.0.0.1:10001'')) =
      Inr \<lparr>host = ''127.0.0.1'', port = of_nat 10001\<rparr>"
    by (simp add: to_string.simps digit_char_def char_of_def bit_0)
  have resolve: "Resolve ?resolver \<lparr>host = ''127.0.0.1'', port = of_nat 10001\<rparr> = Inr (''127.0.0.1'', ''10001'')"
    by (simp add: Resolve_def GetHost_def GetPort_def to_string.simps digit_char_def char_of_def bit_0)
  note made = last_java_client_takes_responses [OF vm.jni_laws_axioms, OF *(1) *(2), OF *(3) *(4), OF *(5), OF *(6),
      OF address, OF resolve]
  from made [of "\<lambda>e. True", OF TrueI, OF *(7), of "\<lambda>f m n. None" "\<lambda>_. None" "[]"] show ?thesis
    by simp
qed

text \<open>
  No client can be closed without undefined behaviour: \<^verbatim>\<open>nativeDestroy\<close> deletes the method's id as
  if it were a global reference, whatever was done before.
\<close>

theorem nativeDestroy_undefined:
  assumes "jni_laws env denotes globals array_of text_of is_client_class is_method java_calls"
    and "is_method (java_method_onResultReceived (jni_vars p))"
    and "java_class_NativeRpcClient (jni_vars p) \<noteq> jni_null env"
    and "native_clients p pointer = Some c"
  shows "nativeDestroy env pointer p = Inl Invalid_reference"
  by (rule jni_laws.destroy_undefined [OF assms(1,4,2,3)])

theorem nativeDestroy_undefined_witness: "nativeDestroy vm_env 0 (java_process 1) = Inl Invalid_reference"
proof -
  have "java_class_NativeRpcClient (jni_vars (java_process 1)) \<noteq> jni_null vm_env"
    by (simp add: java_process_def client_vars_def vm_env_def)
  moreover have "native_clients (java_process 1) 0 = Some (java_rpc_client 1)" by (simp add: java_process_def)
  ultimately show ?thesis
    using nativeDestroy_undefined [OF vm.jni_laws_axioms] by simp
qed

end
