(* ===== verification/Client_Session.thy ===== *)
theory Client_Session
  imports Rpc_System
begin

text \<open>
  A client that waits for each answer before its next call, as \<^verbatim>\<open>examples/client.cc\<close> does. The
  network is a pipe in each direction: with one message in progress at a time, the writes of a
  stream arrive whole (\<open>single_write_intact\<close>). What such a client sees is what a program sees that
  calls the methods on the objects itself.
\<close>

section \<open>Both ends\<close>

text \<open>The network thread of a client: it reads and hands each message to the callback.\<close>

fun client_messages ::
  "(log_line \<Rightarrow> string option) \<Rightarrow> string \<Rightarrow> message list \<Rightarrow> logging \<times> 'j submitter \<Rightarrow> (logging \<times> 'j submitter) res" where
  "client_messages throws src [] c = Inr c"
| "client_messages throws src ((stream_id, object_id, buffer) # ms) c =
     res_bind (invocation_callback throws src stream_id object_id buffer c) (client_messages throws src ms)"

definition client_bytes ::
  "byte_order \<Rightarrow> (log_line \<Rightarrow> string option) \<Rightarrow> string \<Rightarrow> bytes \<Rightarrow> logging \<times> 'j submitter \<Rightarrow>
   (logging \<times> 'j submitter) res" where
  "client_bytes en throws src bs c = (case c of (l, s) \<Rightarrow> case submitter_stream s of
       None \<Rightarrow> Inr (l, s)
     | Some st \<Rightarrow> client_messages throws src (snd (receive en bs st))
         (l, s\<lparr>submitter_stream := Some (fst (receive en bs st))\<rparr>))"

text \<open>The writes in progress reach the other side.\<close>

definition drain :: "stream \<Rightarrow> bytes \<times> stream" where
  "drain st = (concat (strm_writes st), st\<lparr>strm_writes := []\<rparr>)"

definition client_sends :: "'j submitter \<Rightarrow> bytes \<times> 'j submitter" where
  "client_sends s = (case submitter_stream s of
       None \<Rightarrow> ([], s)
     | Some st \<Rightarrow> (fst (drain st), s\<lparr>submitter_stream := Some (snd (drain st))\<rparr>))"

definition server_sends :: "u64 \<Rightarrow> ('s, 'v, 'q, 'r) executor \<Rightarrow> bytes \<times> ('s, 'v, 'q, 'r) executor" where
  "server_sends sid e = (case streams e sid of
       None \<Rightarrow> ([], e)
     | Some st \<Rightarrow> (fst (drain st), e\<lparr>streams := (streams e)(sid \<mapsto> snd (drain st))\<rparr>))"

text \<open>One call and its \<^verbatim>\<open>Get\<close>, on the connection \<open>sid\<close> of the server; the outcome is what \<^verbatim>\<open>Get\<close> does.\<close>

type_synonym ('s, 'v, 'q, 'r, 'j) connected = "(logging \<times> 'j submitter) \<times> ('s, 'v, 'q, 'r) executor"

definition call_and_get ::
  "('v, 'o, 'q, 'r) libs \<Rightarrow> (log_line \<Rightarrow> string option) \<Rightarrow> string \<Rightarrow> u64 \<Rightarrow> ('s, 'v) client_call \<Rightarrow>
   ('s, 'v, 'q, 'r, 'j) connected \<Rightarrow> ('v option res option \<times> ('s, 'v, 'q, 'r, 'j) connected) res" where
  "call_and_get lb throws src sid c x = (case (c, x) of ((h, m, args), ((l, s), e)) \<Rightarrow>
     res_bind (Call (lb_order lb) (lb_msgpack lb) h m args s) (\<lambda>(f, s).
     case client_sends s of (query, s) \<Rightarrow>
     res_bind (exchange lb sid query e) (\<lambda>e.
     case server_sends sid e of (reply, e) \<Rightarrow>
     res_bind (client_bytes (lb_order lb) throws src reply (l, s)) (\<lambda>(l, s).
     Inr (map_option fst (Get (lb_msgpack lb) (\<lambda>_ s. s) s f), ((l, s), e))))))"

fun session ::
  "('v, 'o, 'q, 'r) libs \<Rightarrow> (log_line \<Rightarrow> string option) \<Rightarrow> string \<Rightarrow> u64 \<Rightarrow> ('s, 'v) client_call list \<Rightarrow>
   ('s, 'v, 'q, 'r, 'j) connected \<Rightarrow> ('v option res option list \<times> ('s, 'v, 'q, 'r, 'j) connected) res" where
  "session lb throws src sid [] x = Inr ([], x)"
| "session lb throws src sid (c # cs) x =
     res_bind (call_and_get lb throws src sid c x) (\<lambda>(out, x).
     res_bind (session lb throws src sid cs x) (\<lambda>(outs, x). Inr (out # outs, x)))"

section \<open>The same calls made locally\<close>

text \<open>
  A method called on the object of the service it is bound to, and a sequence of such calls; a void
  method has no value.
\<close>

definition local_call ::
  "('s, 'v, 'q, 'r) executor \<Rightarrow> ('s, 'v) client_call \<Rightarrow> (nat \<rightharpoonup> 's) \<Rightarrow> ('v option \<times> (nat \<rightharpoonup> 's)) res" where
  "local_call e c obs = (case c of (h, m, args) \<Rightarrow> case registered_methods e (GetName m) of
       Some (Some cl) \<Rightarrow>
         (case instances e (cl_service_instance cl) of
            None \<Rightarrow> Inl Dangling_pointer
          | Some d \<Rightarrow>
              (case obs (service_object d) of
                 None \<Rightarrow> Inl Dangling_pointer
               | Some ob \<Rightarrow>
                   (case mt_body (GetMethod m) of
                      Returning f \<Rightarrow> res_bind (f ob args) (\<lambda>(v, ob'). Inr (Some v, obs(service_object d \<mapsto> ob')))
                    | Returning_void g \<Rightarrow> res_bind (g ob args) (\<lambda>ob'. Inr (None, obs(service_object d \<mapsto> ob'))))))
     | _ \<Rightarrow> Inl (Throws Bad_function_call))"

fun local_calls ::
  "('s, 'v, 'q, 'r) executor \<Rightarrow> ('s, 'v) client_call list \<Rightarrow> (nat \<rightharpoonup> 's) \<Rightarrow> ('v option list \<times> (nat \<rightharpoonup> 's)) res" where
  "local_calls e [] obs = Inr ([], obs)"
| "local_calls e (c # cs) obs =
     res_bind (local_call e c obs) (\<lambda>(v, obs).
     res_bind (local_calls e cs obs) (\<lambda>(vs, obs). Inr (v # vs, obs)))"

text \<open>What \<^verbatim>\<open>Get\<close> makes of it.\<close>

definition get_outcome :: "'v option \<Rightarrow> 'v option res option" where
  "get_outcome v = Some (case v of None \<Rightarrow> Inl (Throws Msgpack_error) | Some v \<Rightarrow> Inr (Some v))"

text \<open>
  A call the compiler accepts for the registered method, small enough for the formats; a result of its
  type that is small enough as well; and a call that never has another, whatever the state of the object.
\<close>

definition call_fits ::
  "('v, 'o, 'q, 'r) libs \<Rightarrow> (cpp_type \<Rightarrow> 'v \<Rightarrow> bool) \<Rightarrow> ('s, 'v, 'q, 'r) executor \<Rightarrow> ('s, 'v) client_call \<Rightarrow> bool" where
  "call_fits lb has_type e c \<longleftrightarrow> (case c of (h, m, args) \<Rightarrow>
     (\<forall>cl. registered_methods e (GetName m) = Some (Some cl) \<longrightarrow> cl_method cl = GetMethod m)
     \<and> args_fit (lb_msgpack lb) has_type (sh_service_name h) (GetName m) (GetMethod m) args
     \<and> method_typed (GetMethod m) \<and> length (call_buffer (lb_msgpack lb) h m args) < 2 ^ 32)"

definition result_fits ::
  "('v, 'o, 'q, 'r) libs \<Rightarrow> (cpp_type \<Rightarrow> 'v \<Rightarrow> bool) \<Rightarrow> ('s, 'v) client_call \<Rightarrow> 'v option \<Rightarrow> bool" where
  "result_fits lb has_type c v \<longleftrightarrow> (case (c, v) of
       ((h, m, args), Some x) \<Rightarrow> has_type (future_type (GetMethod m)) x \<and> length (mp_pack (lb_msgpack lb) x) < 2 ^ 32
     | _ \<Rightarrow> True)"

definition call_ok ::
  "('v, 'o, 'q, 'r) libs \<Rightarrow> (cpp_type \<Rightarrow> 'v \<Rightarrow> bool) \<Rightarrow> ('s, 'v, 'q, 'r) executor \<Rightarrow> ('s, 'v) client_call \<Rightarrow> bool" where
  "call_ok lb has_type e c \<longleftrightarrow> call_fits lb has_type e c \<and> (case c of (h, m, args) \<Rightarrow>
     \<forall>f ob v ob'. mt_body (GetMethod m) = Returning f \<longrightarrow> f ob args = Inr (v, ob') \<longrightarrow> result_fits lb has_type c (Some v))"

lemma call_ok_fits: "list_all (call_ok lb has_type e) cs \<Longrightarrow> list_all (call_fits lb has_type e) cs"
  by (simp add: list_all_iff call_ok_def)

lemma call_ok_result:
  assumes "call_ok lb has_type e c" and "local_call e c obs = Inr (v, obs')"
  shows "result_fits lb has_type c v"
  using assms
  by (cases c) (auto simp: local_call_def call_ok_def result_fits_def res_bind_Inr_iff
      split: option.splits member_fn.splits)

lemma call_ok_results:
  assumes "list_all (call_ok lb has_type e) cs" and "local_calls e cs obs = Inr (vs, obs')"
  shows "list_all2 (result_fits lb has_type) cs vs"
  using assms by (induction cs arbitrary: obs vs) (auto simp: res_bind_Inr_iff intro: call_ok_result)

text \<open>A client with room for \<open>n\<close> more calls, all its calls answered and nothing left in the streams.\<close>

definition client_idle :: "byte_order \<Rightarrow> nat \<Rightarrow> 'j submitter \<Rightarrow> bool" where
  "client_idle en n s \<longleftrightarrow> (\<exists>cst. submitter_stream s = Some cst \<and> idle en cst \<and> strm_writes cst = [])
     \<and> client_language s = CPP \<and> unat (curr_object_id s) + n \<le> 2 ^ 32
     \<and> (\<forall>k. unat (curr_object_id s) \<le> unat k \<longrightarrow> cached k s = None)"

definition server_idle ::
  "('v, 'o, 'q, 'r) libs \<Rightarrow> ('q \<Rightarrow> 'o DousiRequest list) \<Rightarrow> ('r \<Rightarrow> DousiResponse list) \<Rightarrow> u64 \<Rightarrow>
   ('s, 'v, 'q, 'r) executor \<Rightarrow> bool" where
  "server_idle lb rq rs sid e \<longleftrightarrow> (\<exists>st. server_ready lb rq rs sid st e \<and> strm_writes st = [])"

section \<open>One call\<close>

lemma drain_Write:
  assumes "strm_writes st = []"
  shows "drain (Write en oid data st) = (frame en (oid, data), st)"
proof -
  have "st\<lparr>strm_writes := []\<rparr> = st" by (simp flip: assms)
  then show ?thesis using assms by (simp add: drain_def Write_def frame_def)
qed

lemma idle_drain [simp]: "idle en (st\<lparr>strm_writes := ws\<rparr>) = idle en st"
  by (simp add: idle_def reading_def unread_def split: pending_read.splits)

lemma server_ready_sends:
  assumes "server_ready lb rq rs sid st e" and "strm_writes st = [bs]"
  shows "\<exists>e'. server_sends sid e = (bs, e') \<and> server_idle lb rq rs sid e' \<and> objects e' = objects e \<and> same_methods e e'"
  using assms by (simp add: server_sends_def server_ready_def server_idle_def drain_def same_methods_def)

text \<open>A local call is the call of the bound closure, with the bytes of its result.\<close>

lemma local_call_Inr:
  assumes "local_call e (h, m, args) obs = Inr (v, obs')" and "call_fits lb has_type e (h, m, args)"
    and "result_fits lb has_type (h, m, args) v"
  obtains cl d ob bs ob' where "registered_methods e (GetName m) = Some (Some cl)"
    and "instances e (cl_service_instance cl) = Some d" and "obs (service_object d) = Some ob"
    and "cl_method cl = GetMethod m" and "obs' = obs(service_object d \<mapsto> ob')"
    and "call_result (lb_msgpack lb) (cl_method cl) ob args [] = Inr (bs, ob')" and "length bs < 2 ^ 32"
    and "case v of None \<Rightarrow> bs = [] \<and> future_type (GetMethod m) = Base ''bool''
      | Some x \<Rightarrow> bs = mp_pack (lb_msgpack lb) x \<and> has_type (future_type (GetMethod m)) x"
proof -
  obtain cl d ob where bound: "registered_methods e (GetName m) = Some (Some cl)"
    "instances e (cl_service_instance cl) = Some d" "obs (service_object d) = Some ob"
    using assms(1) by (auto simp: local_call_def split: option.splits)
  then have cl: "cl_method cl = GetMethod m" using assms(2) by (simp add: call_fits_def)
  show ?thesis
  proof (cases "mt_body (GetMethod m)")
    case (Returning f)
    with assms(1) bound obtain x ob' where "f ob args = Inr (x, ob')" "v = Some x" "obs' = obs(service_object d \<mapsto> ob')"
      by (auto simp: local_call_def res_bind_Inr_iff)
    with Returning assms(3) show ?thesis
      by (intro that [OF bound cl]) (auto simp: call_result_def cl result_fits_def)
  next
    case (Returning_void g)
    with assms(1) bound obtain ob' where "g ob args = Inr ob'" "v = None" "obs' = obs(service_object d \<mapsto> ob')"
      by (auto simp: local_call_def res_bind_Inr_iff)
    with Returning_void assms(2) show ?thesis
      by (intro that [OF bound cl]) (auto simp: call_result_def cl call_fits_def method_typed_def future_type_def)
  qed
qed

text \<open>The outcome of \<^verbatim>\<open>Get\<close> when the bytes of the result are in the cache.\<close>

lemma Get_outcome:
  assumes "msgpack_codec mp has_type" and "cached oid s = Some bs"
    and "case v of None \<Rightarrow> bs = [] \<and> T = Base ''bool'' | Some x \<Rightarrow> bs = mp_pack mp x \<and> has_type T x"
  shows "map_option fst (Get mp others s (DousiFuture T oid)) = get_outcome v"
proof -
  have "cached (fut_object_id (DousiFuture T oid)) s = Some bs" using assms(2) by (simp add: DousiFuture_def)
  note get = Get_cached [OF refl this, of mp others]
  show ?thesis
  proof (cases v)
    case None
    with assms(3) get msgpack_codec.unpack_nothing [OF assms(1)] show ?thesis by (simp add: get_outcome_def)
  next
    case (Some x)
    with assms(3) get msgpack_codec.value_roundtrip [OF assms(1), of T x] show ?thesis
      by (auto simp: get_outcome_def)
  qed
qed

lemma client_reads_response:
  assumes "client_idle en (Suc n) s" and "submitter_stream s = Some cst" and "length bs < 2 ^ 32"
    and "s1 = s\<lparr>curr_object_id := curr_object_id s + 1\<rparr>" and "w = ucast (curr_object_id s)"
  shows "\<exists>s'. client_bytes en throws src (frame en (w, bs)) (l, s1) = Inr (l, s')
    \<and> client_idle en n s' \<and> cached (curr_object_id s) s' = Some bs"
proof -
  let ?id = "curr_object_id s" and ?st = "fst (receive en (frame en (w, bs)) cst)"
  let ?s = "cache_object w bs (s1\<lparr>submitter_stream := Some ?st\<rparr>)"
  have c: "idle en cst" "strm_writes cst = []" "client_language s = CPP" "unat ?id + Suc n \<le> 2 ^ 32"
    "\<And>k. unat ?id \<le> unat k \<Longrightarrow> cached k s = None"
    using assms(1,2) by (auto simp: client_idle_def)
  have small: "unat ?id < 2 ^ 32" using c(4) by simp
  have widened: "(ucast w :: u64) = ?id" using small by (simp add: assms(5) ucast_u64_roundtrip_iff)
  have next_id: "unat (?id + 1) = Suc (unat ?id)"
    using unat_Suc_word [of ?id] c(4) by simp
  have "snd (receive en (frame en (w, bs)) cst) = [(strm_id cst, w, bs)]"
    using c(1) assms(3) by (intro receive_one_frame) (simp_all add: idle_def)
  then have "client_bytes en throws src (frame en (w, bs)) (l, s1) = Inr (l, ?s)"
    using assms(2,4) c(3) by (simp add: client_bytes_def invocation_callback_CPP)
  moreover have "client_idle en n ?s"
    using c next_id idle_receive [OF c(1) assms(3), of w] assms(4) widened
    by (auto simp: client_idle_def cache_object_def cached_def)
  moreover have "cached ?id ?s = Some bs"
    using cached_cache_object [OF small, of w bs] assms(5) by simp
  ultimately show ?thesis by blast
qed

lemma call_and_get_local:
  assumes "executor_queues lb rq rs" and "msgpack_codec (lb_msgpack lb) has_type"
    and "client_idle (lb_order lb) (Suc n) s" and "server_idle lb rq rs sid e"
    and "call_fits lb has_type e c" and "local_call e c (objects e) = Inr (v, obs')" and "result_fits lb has_type c v"
  shows "\<exists>s' e'. call_and_get lb throws src sid c ((l, s), e) = Inr (get_outcome v, ((l, s'), e'))
    \<and> client_idle (lb_order lb) n s' \<and> server_idle lb rq rs sid e' \<and> same_methods e e' \<and> objects e' = obs'"
proof -
  obtain h m args where c: "c = (h, m, args)" by (cases c)
  let ?id = "curr_object_id s" and ?b = "call_buffer (lb_msgpack lb) h m args"
  let ?w = "ucast ?id :: u32"
  obtain cst where cst: "submitter_stream s = Some cst" "strm_writes cst = []"
    using assms(3) by (auto simp: client_idle_def)
  obtain st where st: "server_ready lb rq rs sid st e" "strm_writes st = []"
    using assms(4) by (auto simp: server_idle_def)
  obtain cl d ob bs ob' where call: "registered_methods e (GetName m) = Some (Some cl)"
    "instances e (cl_service_instance cl) = Some d" "objects e (service_object d) = Some ob"
    "cl_method cl = GetMethod m" "obs' = (objects e)(service_object d \<mapsto> ob')"
    "call_result (lb_msgpack lb) (cl_method cl) ob args [] = Inr (bs, ob')" "length bs < 2 ^ 32"
    and out: "case v of None \<Rightarrow> bs = [] \<and> future_type (GetMethod m) = Base ''bool''
      | Some x \<Rightarrow> bs = mp_pack (lb_msgpack lb) x \<and> has_type (future_type (GetMethod m)) x"
    using assms(5-7) unfolding c by (elim local_call_Inr)
  have bound: "bound_to (GetName m) cl d ob e" using call(1-3) by (simp add: bound_to_def)
  have fit: "args_fit (lb_msgpack lb) has_type (sh_service_name h) (GetName m) (cl_method cl) args"
    and small: "length ?b < 2 ^ 32"
    using assms(5) call(4) by (simp_all add: c call_fits_def)
  obtain e1 st1 where e1: "exchange lb sid (frame (lb_order lb) (?w, ?b)) e = Inr e1" "objects e1 = obs'"
    "strm_writes st1 = [frame (lb_order lb) (?w, bs)]" "server_ready lb rq rs sid st1 e1" "same_methods e e1"
    using executor_queues.exchange_answers [OF assms(1,2) st(1) bound fit call(6) call_buffer_def small, of ?w]
      st(2) call(5) by auto
  obtain e2 where e2: "server_sends sid e1 = (frame (lb_order lb) (?w, bs), e2)" "server_idle lb rq rs sid e2"
    "objects e2 = objects e1" "same_methods e1 e2"
    using server_ready_sends [OF e1(4,3)] by blast
  let ?s1 = "s\<lparr>curr_object_id := ?id + 1\<rparr>"
  have "s\<lparr>curr_object_id := ?id + 1, submitter_stream := Some cst\<rparr> = ?s1" by (simp flip: cst(1))
  then have sends: "client_sends (s\<lparr>curr_object_id := ?id + 1, submitter_stream := Some (Write (lb_order lb) ?w ?b cst)\<rparr>) =
      (frame (lb_order lb) (?w, ?b), ?s1)"
    by (simp add: client_sends_def drain_Write [OF cst(2)])
  obtain s' where s': "client_bytes (lb_order lb) throws src (frame (lb_order lb) (?w, bs)) (l, ?s1) = Inr (l, s')"
    "client_idle (lb_order lb) n s'" "cached ?id s' = Some bs"
    using client_reads_response [OF assms(3) cst(1) call(7) refl refl] by blast
  have "call_and_get lb throws src sid c ((l, s), e) = Inr (get_outcome v, ((l, s'), e2))"
    using Get_outcome [OF assms(2) s'(3) out, of "\<lambda>_ s. s"]
    by (simp add: call_and_get_def c Call_eq [OF cst(1)] sends e1(1) e2(1) s'(1))
  moreover have "same_methods e e2" using e1(5) e2(4) by (simp add: same_methods_def)
  ultimately show ?thesis using s'(2) e2(2,3) e1(2) by auto
qed

lemma local_call_same: "same_methods e e' \<Longrightarrow> local_call e' c obs = local_call e c obs"
  by (cases c) (simp add: local_call_def same_methods_def cong: option.case_cong)

lemma local_calls_same: "same_methods e e' \<Longrightarrow> local_calls e' cs obs = local_calls e cs obs"
  by (induction cs arbitrary: obs) (simp_all add: local_call_same)

lemma call_fits_same: "same_methods e e' \<Longrightarrow> call_fits lb has_type e' = call_fits lb has_type e"
  by (rule ext) (simp add: call_fits_def same_methods_def)

lemma session_local:
  assumes "executor_queues lb rq rs" and "msgpack_codec (lb_msgpack lb) has_type"
    and "client_idle (lb_order lb) (length cs) s" and "server_idle lb rq rs sid e"
    and "list_all (call_fits lb has_type e) cs" and "local_calls e cs (objects e) = Inr (vs, obs')"
    and "list_all2 (result_fits lb has_type) cs vs"
  shows "\<exists>s' e'. session lb throws src sid cs ((l, s), e) = Inr (map get_outcome vs, ((l, s'), e'))
    \<and> objects e' = obs'"
  using assms(3-7)
proof (induction cs arbitrary: s e vs)
  case (Cons c cs)
  obtain v obs1 vs' where local: "local_call e c (objects e) = Inr (v, obs1)" "local_calls e cs obs1 = Inr (vs', obs')"
    "vs = v # vs'"
    using Cons.prems(4) by (auto simp: res_bind_Inr_iff)
  have ok: "call_fits lb has_type e c" and client: "client_idle (lb_order lb) (Suc (length cs)) s"
    and result: "result_fits lb has_type c v" "list_all2 (result_fits lb has_type) cs vs'"
    using Cons.prems(1,3,5) by (simp_all add: local(3))
  obtain s1 e1 where one: "call_and_get lb throws src sid c ((l, s), e) = Inr (get_outcome v, ((l, s1), e1))"
    "client_idle (lb_order lb) (length cs) s1" "server_idle lb rq rs sid e1" "same_methods e e1" "objects e1 = obs1"
    using call_and_get_local [OF assms(1,2) client Cons.prems(2) ok local(1) result(1)] by blast
  have "list_all (call_fits lb has_type e1) cs" "local_calls e1 cs (objects e1) = Inr (vs', obs')"
    using Cons.prems(3) local(2) one(4,5) by (simp_all add: call_fits_same local_calls_same)
  from Cons.IH [OF one(2,3) this result(2)] one(1) local(3) show ?case by auto
qed simp

lemma session_calls:
  assumes "executor_queues lb rq rs" and "msgpack_codec (lb_msgpack lb) has_type"
    and "client_idle (lb_order lb) (length cs) s" and "server_idle lb rq rs sid e"
    and "list_all (call_ok lb has_type e) cs" and "local_calls e cs (objects e) = Inr (vs, obs')"
  shows "\<exists>s' e'. session lb throws src sid cs ((l, s), e) = Inr (map get_outcome vs, ((l, s'), e'))
    \<and> objects e' = obs'"
  by (rule session_local [OF assms(1-4) call_ok_fits [OF assms(5)] assms(6) call_ok_results [OF assms(5,6)]])

section \<open>Properties\<close>

text \<open>
  C6: a client that waits for each answer sees the server's objects as if it called their methods
  itself: if the calls made locally, one after the other, succeed, then the remote session
  succeeds, each \<^verbatim>\<open>Get\<close> gives what the local call returned (and throws for a void method), and the
  server's objects are left as the local calls leave them.
\<close>

theorem session_refines_local_calls:
  assumes "executor_queues lb rq rs" and "msgpack_codec (lb_msgpack lb) has_type"
    and "client_idle (lb_order lb) (length cs) s" and "server_idle lb rq rs sid e"
    and "list_all (call_fits lb has_type e) cs" and "local_calls e cs (objects e) = Inr (vs, obs')"
    and "list_all2 (result_fits lb has_type) cs vs"
  shows "\<exists>s' e'. session lb throws src sid cs ((l, s), e) = Inr (map get_outcome vs, ((l, s'), e'))
    \<and> objects e' = obs'"
  by (rule session_local [OF assms])

text \<open>
  The calls of \<^verbatim>\<open>examples/client.cc\<close>, for the server of \<^verbatim>\<open>examples/server.cc\<close>.
\<close>

definition example_calls :: "unit rpc_client \<Rightarrow> (service_state, wire_value) client_call list" where
  "example_calls rpc_client =
     (let adder1 = RpcClient_GetService ''Adder'' rpc_client; echoer = RpcClient_GetService ''Echoer'' rpc_client
      in [(adder1, Remote ''&Adder::add'' ptr_add, [WInt 2, WInt 3]),
          (adder1, Remote ''&Adder::sub'' ptr_sub, [WInt 100, WInt 25]),
          (echoer, Remote ''&Echoer::echo'' ptr_echo, [WStr ''hello world!''])])"

definition example_client ::
  "(string \<Rightarrow> string \<Rightarrow> 'e res) \<Rightarrow> ('e \<Rightarrow> bool) \<Rightarrow> u64 \<Rightarrow>
   (service_state, wire_value, wire_object DousiRequest std_locked_queue, DousiResponse std_locked_queue) executor \<Rightarrow>
   (wire_value option res option list \<times> (service_state, wire_value, wire_object DousiRequest std_locked_queue,
     DousiResponse std_locked_queue, unit) connected) res" where
  "example_client resolver connects sid e =
     res_bind (RpcClient start_ok resolver connects ''127.0.0.1:10001'' () logging_initial) (\<lambda>rpc_client.
     session wire_libs (\<lambda>_. None) [] sid (example_calls rpc_client)
       ((cli_logging rpc_client, cli_submitter rpc_client), e))"

lemma local_call_value:
  assumes "registered_methods e (GetName m) = Some (Some cl)" and "instances e (cl_service_instance cl) = Some d"
    and "obs (service_object d) = Some ob" and "mt_body (GetMethod m) = Returning f" and "f ob args = Inr (v, ob)"
  shows "local_call e (h, m, args) obs = Inr (Some v, obs)"
  using assms map_upd_triv [of obs "service_object d" ob] by (simp add: local_call_def)

lemma example_calls_local:
  "local_calls (one_client pool) (example_calls c) (objects (one_client pool)) =
    Inr ([Some (WInt 5), Some (WInt 75), Some (WStr ''hello world!'')], objects (one_client pool))"
proof -
  let ?e = "one_client pool"
  note call = local_call_value [where e = ?e and obs = "objects ?e"]
  have bound: "instances ?e 1 = Some \<lparr>service_name = [], service_object = 0\<rparr>"
    "instances ?e 3 = Some \<lparr>service_name = [], service_object = 2\<rparr>"
    "objects ?e 0 = Some Adder_object" "objects ?e 2 = Some Echoer_object"
    by (simp_all add: example_executor_def)
  note defs = GetName_def GetMethod_def example_executor_def ptr_add_def ptr_sub_def ptr_echo_def
    Adder_add_def Adder_sub_def Echoer_echo_def int_result_def
  have "local_call ?e (h, Remote ''&Adder::add'' ptr_add, [WInt 2, WInt 3]) (objects ?e) =
      Inr (Some (WInt 5), objects ?e)" for h
    by (rule call [where cl = "\<lparr>cl_method = ptr_add, cl_service_instance = 1\<rparr>" and ob = Adder_object
          and d = "\<lparr>service_name = [], service_object = 0\<rparr>" and f = Adder_add]) (simp_all add: bound defs)
  moreover have "local_call ?e (h, Remote ''&Adder::sub'' ptr_sub, [WInt 100, WInt 25]) (objects ?e) =
      Inr (Some (WInt 75), objects ?e)" for h
    by (rule call [where cl = "\<lparr>cl_method = ptr_sub, cl_service_instance = 1\<rparr>" and ob = Adder_object
          and d = "\<lparr>service_name = [], service_object = 0\<rparr>" and f = Adder_sub]) (simp_all add: bound defs)
  moreover have "local_call ?e (h, Remote ''&Echoer::echo'' ptr_echo, [WStr ''hello world!'']) (objects ?e) =
      Inr (Some (WStr ''hello world!''), objects ?e)" for h
    by (rule call [where cl = "\<lparr>cl_method = ptr_echo, cl_service_instance = 3\<rparr>" and ob = Echoer_object
          and d = "\<lparr>service_name = [], service_object = 2\<rparr>" and f = Echoer_echo]) (simp_all add: bound defs)
  ultimately show ?thesis by (simp add: example_calls_def Let_def)
qed

lemma example_calls_ok: "list_all (call_ok wire_libs wire_has_type (one_client pool)) (example_calls c)"
proof -
  note defs = GetName_def GetMethod_def GetService_def RpcClient_GetService_def ServiceHandle_def call_ok_def call_fits_def result_fits_def args_fit_def
    call_buffer_def PackArgsToBuffer_def method_typed_def future_type_def example_executor_def ptr_add_def ptr_sub_def ptr_echo_def
    Adder_add_def Adder_sub_def Echoer_echo_def BaseFunctionTraits_def cpp_int_def std_string_def wire_libs_simps
    wire_msgpack_def wire_pack_tuple_def be32_def res_bind_Inr_iff
  show ?thesis
    by (auto simp: example_calls_def Let_def defs)
qed

lemma client_idle_new: "n \<le> 2 ^ 32 \<Longrightarrow> client_idle en n connected_client"
  by (simp add: client_idle_def cached_def connected_client_def Submitter_def Submitter_of_def)
    (simp add: Start_def DoReadObjectID_def AsioStream_def)

lemma server_idle_new: "server_idle wire_libs slq_data slq_data 0 (one_client pool)"
  using server_ready_new [of pool] by (auto simp: server_idle_def Start_def DoReadObjectID_def AsioStream_def)

lemma length_example_calls: "length (example_calls c) = 3"
  by (simp add: example_calls_def Let_def)

theorem session_refines_local_calls_witness:
  "\<exists>x. session wire_libs (\<lambda>_. None) [] 0 (example_calls \<lparr>cli_submitter = connected_client, cli_logging = logging_initial\<rparr>)
      ((logging_initial, connected_client), one_client (IOThreadPool 8))
    = Inr ([Some (Inr (Some (WInt 5))), Some (Inr (Some (WInt 75))), Some (Inr (Some (WStr ''hello world!'')))], x)"
proof -
  let ?c = "\<lparr>cli_submitter = connected_client, cli_logging = logging_initial\<rparr>"
  have "client_idle (lb_order wire_libs) (length (example_calls ?c)) connected_client"
    by (rule client_idle_new) (simp add: length_example_calls)
  from session_refines_local_calls [OF wire_queues.executor_queues_axioms wire_codec this server_idle_new
      call_ok_fits [OF example_calls_ok] example_calls_local call_ok_results [OF example_calls_ok example_calls_local],
      of "\<lambda>_. None" "[]" logging_initial "IOThreadPool 8"]
  show ?thesis by (auto simp: get_outcome_def)
qed

text \<open>
  The example works: the server that \<^verbatim>\<open>examples/server.cc\<close> sets up accepts the connection
  of \<^verbatim>\<open>examples/client.cc\<close>, and the client's three calls give 5, 75 and "hello world!".
\<close>

theorem example_client_prints:
  "\<exists>srv e x. example_server = Inr srv \<and> on_accept False (srv_executor srv) = Inr e
    \<and> example_client (\<lambda>h n. Inr (h, n)) (\<lambda>_. True) 0 e =
      Inr ([Some (Inr (Some (WInt 5))), Some (Inr (Some (WInt 75))), Some (Inr (Some (WStr ''hello world!'')))], x)"
proof -
  obtain pool srv where srv: "example_server = Inr srv" "srv_executor srv = example_executor\<lparr>io_pool := pool\<rparr>"
    "pool_ok 8 pool"
    using example_server_eq by blast
  have "pool_ok 8 (io_pool (add_stream (srv_executor srv)))" using srv(2,3) by (simp add: add_stream_def)
  from DoAccept_ok [OF this] obtain pool' where accept: "on_accept False (srv_executor srv) = Inr (one_client pool')"
    by (auto simp: on_accept_eq one_client_def srv(2) add_stream_def)
  let ?c = "\<lparr>cli_submitter = connected_client,
    cli_logging = StartDousiLog start_ok ''/tmp/dousi/rpclient.log'' WARNING 10 3 logging_initial\<rparr>"
  have "Endpoint_of_address (''127.0.0.1'' @ '':'' @ to_string 10001) = Inr \<lparr>host = ''127.0.0.1'', port = of_nat 10001\<rparr>"
    using Endpoint_of_address_colon [of "''127.0.0.1''" "to_string 10001"] by (simp add: stoi_to_string npos_def del: ports)
  then have "RpcClient start_ok (\<lambda>h n. Inr (h, n)) (\<lambda>_. True) ''127.0.0.1:10001'' () logging_initial = Inr ?c"
    by (simp add: RpcClient_def Let_def Submitter_Init_def Resolve_def DoConnect_def connected_client_def)
  moreover have idle: "client_idle (lb_order wire_libs) (length (example_calls ?c)) connected_client"
    by (rule client_idle_new) (simp add: length_example_calls)
  moreover note session_calls [OF wire_queues.executor_queues_axioms wire_codec idle server_idle_new
      example_calls_ok example_calls_local, of "\<lambda>_. None" "[]" "cli_logging ?c" pool']
  ultimately show ?thesis using srv(1) accept by (auto simp: example_client_def get_outcome_def)
qed

end
