(* ===== verification/Server_Safety.thy ===== *)
theory Server_Safety
  imports Executor_Threads
begin

text \<open>
  When the server keeps running: the runs in which every message is a well-formed call of a
  registered method that does not fault never end in a fault; and the order in which calls are
  performed, which workers do not keep.
\<close>

section \<open>Good messages\<close>

text \<open>
  The states an object may be in, by its address; and an unpacked tuple whose method is registered and bound
  to a live service, and which the method takes without a fault in every such state, leaving such a state.
\<close>

definition in_classes :: "(nat \<Rightarrow> 's \<Rightarrow> bool) \<Rightarrow> ('s, 'v, 'q, 'r) executor \<Rightarrow> bool" where
  "in_classes C e \<longleftrightarrow> (\<forall>a ob. objects e a = Some ob \<longrightarrow> C a ob)"

definition good_call :: "('v, 'o, 'q, 'r) libs \<Rightarrow> (nat \<Rightarrow> 's \<Rightarrow> bool) \<Rightarrow> ('s, 'v, 'q, 'r) executor \<Rightarrow> string \<Rightarrow> 'o \<Rightarrow> bool" where
  "good_call lb C e name unpacked \<longleftrightarrow>
     (\<exists>cl d. registered_methods e name = Some (Some cl) \<and> instances e (cl_service_instance cl) = Some d
        \<and> service_object d \<in> dom (objects e)
        \<and> (\<forall>ob. C (service_object d) ob \<longrightarrow>
              (\<exists>bs ob'. InvokeHelper_Invoke (lb_msgpack lb) (cl_method cl) ob unpacked [] = Inr (bs, ob')
                \<and> C (service_object d) ob')))"

definition good_buffer :: "('v, 'o, 'q, 'r) libs \<Rightarrow> (nat \<Rightarrow> 's \<Rightarrow> bool) \<Rightarrow> ('s, 'v, 'q, 'r) executor \<Rightarrow> bytes \<Rightarrow> bool" where
  "good_buffer lb C e buffer \<longleftrightarrow>
     (\<exists>unpacked service name. mp_unpack (lb_msgpack lb) buffer = Inr unpacked
        \<and> mp_as_names (lb_msgpack lb) unpacked = Inr (service, name) \<and> good_call lb C e name unpacked)"

text \<open>Bytes that complete good messages only.\<close>

definition good_bytes ::
  "('v, 'o, 'q, 'r) libs \<Rightarrow> (nat \<Rightarrow> 's \<Rightarrow> bool) \<Rightarrow> u64 \<Rightarrow> bytes \<Rightarrow> ('s, 'v, 'q, 'r) executor \<Rightarrow> bool" where
  "good_bytes lb C sid bs e = (case streams e sid of
       None \<Rightarrow> True
     | Some st \<Rightarrow> list_all (\<lambda>m. good_buffer lb C e (snd (snd m))) (snd (receive (lb_order lb) bs st)))"

inductive good_run ::
  "('v, 'o, 'q, 'r) libs \<Rightarrow> (nat \<Rightarrow> 's \<Rightarrow> bool) \<Rightarrow> ('s, 'v, 'o, 'q, 'r) server_threads \<Rightarrow> event list \<Rightarrow>
   ('s, 'v, 'o, 'q, 'r) server_threads res \<Rightarrow> bool" for lb C where
  good_start: "good_run lb C t [] (Inr t)"
| good_internal: "good_run lb C t evs (Inr t') \<Longrightarrow> internal_step lb t' ev r \<Longrightarrow> good_run lb C t (evs @ ev) r"
| good_connection: "good_run lb C t evs (Inr t') \<Longrightarrow> unat (curr_stream_id (shared t')) + 1 < 2 ^ 64 \<Longrightarrow>
    good_run lb C t evs (res_bind (on_accept failed (shared t')) (\<lambda>e. Inr (t'\<lparr>shared := e\<rparr>)))"
| good_bytes_arrive: "good_run lb C t evs (Inr t') \<Longrightarrow> good_bytes lb C sid bs (shared t') \<Longrightarrow>
    good_run lb C t (evs @ map Received (received_keys lb sid bs (shared t')))
      (res_bind (on_bytes lb sid bs (shared t')) (\<lambda>e. Inr (t'\<lparr>shared := e\<rparr>)))"

lemma good_run_is_run: "good_run lb C t evs r \<Longrightarrow> server_run lb t evs r"
proof (induction rule: good_run.induct)
  case (good_connection t evs t' failed)
  from run_external [OF good_connection.IH connection [OF good_connection.hyps(2)]] show ?case by simp
next
  case (good_bytes_arrive t evs t' sid bs)
  from run_external [OF good_bytes_arrive.IH bytes_arrive] show ?case .
qed (auto intro: run_start run_internal)

text \<open>What decides whether a call is good stays as it is.\<close>

definition same_bindings :: "(nat \<Rightarrow> 's \<Rightarrow> bool) \<Rightarrow> ('s, 'v, 'q, 'r) executor \<Rightarrow> ('s, 'v, 'q, 'r) executor \<Rightarrow> bool" where
  "same_bindings C e e' \<longleftrightarrow> registered_methods e' = registered_methods e \<and> instances e' = instances e
     \<and> dom (objects e') = dom (objects e) \<and> (in_classes C e \<longrightarrow> in_classes C e')"

lemma same_bindings_refl [simp]: "same_bindings C e e"
  by (simp add: same_bindings_def)

lemma same_bindings_trans: "same_bindings C e e1 \<Longrightarrow> same_bindings C e1 e2 \<Longrightarrow> same_bindings C e e2"
  by (simp add: same_bindings_def)

lemma good_call_same: "same_bindings C e e' \<Longrightarrow> good_call lb C e' name u = good_call lb C e name u"
  by (simp add: good_call_def same_bindings_def)

lemma good_buffer_same: "same_bindings C e e' \<Longrightarrow> good_buffer lb C e' buffer = good_buffer lb C e buffer"
  by (simp add: good_buffer_def good_call_same)

definition good_request :: "('v, 'o, 'q, 'r) libs \<Rightarrow> (nat \<Rightarrow> 's \<Rightarrow> bool) \<Rightarrow> ('s, 'v, 'q, 'r) executor \<Rightarrow> 'o DousiRequest \<Rightarrow> bool" where
  "good_request lb C e r = good_call lb C e (req_method_name r) (req_unpacked r)"

lemma good_request_computed:
  assumes "good_request lb C e r" and "in_classes C e"
  shows "\<exists>x e'. compute_response lb r e = Inr (x, e') \<and> same_bindings C e e'"
proof -
  obtain cl d ob where c: "registered_methods e (req_method_name r) = Some (Some cl)"
    "instances e (cl_service_instance cl) = Some d" "objects e (service_object d) = Some ob"
    and total: "\<And>ob. C (service_object d) ob \<Longrightarrow>
      \<exists>bs ob'. InvokeHelper_Invoke (lb_msgpack lb) (cl_method cl) ob (req_unpacked r) [] = Inr (bs, ob') \<and> C (service_object d) ob'"
    using assms(1) by (auto simp: good_request_def good_call_def)
  have "C (service_object d) ob" using assms(2) c(3) by (simp add: in_classes_def)
  from total [OF this] obtain bs ob' where
    "InvokeHelper_Invoke (lb_msgpack lb) (cl_method cl) ob (req_unpacked r) [] = Inr (bs, ob')" "C (service_object d) ob'"
    by blast
  with c show ?thesis
    by (auto simp: compute_response_def find_method_def call_closure_def same_bindings_def in_classes_def)
qed

lemma good_request_performed:
  assumes "good_request lb C e r" and "in_classes C e"
  shows "\<exists>e'. PerformRequest lb r e = Inr e' \<and> same_bindings C e e'"
  using good_request_computed [OF assms]
  by (fastforce simp: PerformRequest_def push_response_def same_bindings_def in_classes_def)

section \<open>The invariant of good runs\<close>

definition all_good ::
  "('v, 'o, 'q, 'r) libs \<Rightarrow> (nat \<Rightarrow> 's \<Rightarrow> bool) \<Rightarrow> ('q \<Rightarrow> 'o DousiRequest list) \<Rightarrow> ('s, 'v, 'o, 'q, 'r) server_threads \<Rightarrow> bool" where
  "all_good lb C rq t \<longleftrightarrow> in_classes C (shared t)
     \<and> (\<forall>r \<in> set (rq (request_queue (shared t))) \<union> set (performing (workers t)). good_request lb C (shared t) r)"

lemma good_request_same: "same_bindings C e e' \<Longrightarrow> good_request lb C e' r = good_request lb C e r"
  by (simp add: good_request_def good_call_same)

lemma all_good_change:
  assumes "all_good lb C rq t" and "same_bindings C (shared t) (shared t')"
    and "set (rq (request_queue (shared t'))) \<union> set (performing (workers t')) \<subseteq>
      set (rq (request_queue (shared t))) \<union> set (performing (workers t))"
  shows "all_good lb C rq t'"
proof -
  have "in_classes C (shared t')" using assms(1,2) by (simp add: all_good_def same_bindings_def)
  with assms show ?thesis by (auto simp: all_good_def good_request_same)
qed

lemma set_busy_take:
  "i < length xs \<Longrightarrow> xs ! i = None \<Longrightarrow> set (busy (xs[i := Some r])) = insert r (set (busy xs))"
  using arg_cong [OF busy_take, of i xs set_mset r] by simp

lemma set_busy_release:
  "i < length xs \<Longrightarrow> xs ! i = Some r \<Longrightarrow> set (busy xs) = insert r (set (busy (xs[i := None])))"
  using arg_cong [OF busy_release, of i xs r set_mset] by simp

lemma on_accept_bindings:
  assumes "on_accept failed e = Inr e'"
  shows "same_bindings C e e'"
  using assms
  by (auto simp: on_accept_eq DoAccept_def res_bind_Inr_iff add_stream_def same_bindings_def in_classes_def
      split: if_splits prod.splits)

lemma write_response_bindings:
  assumes "write_response lb x e = Inr e'"
  shows "same_bindings C e e' \<and> request_queue e' = request_queue e"
  using assms by (auto simp: write_response_def same_bindings_def in_classes_def split: option.splits)

context executor_queues
begin

lemma invoke_good:
  assumes "good_buffer lb C e buffer" and "in_classes C e"
  shows "\<exists>e'. InvokeMethod lb sid oid buffer e = Inr e' \<and> same_bindings C e e'
    \<and> (\<forall>r \<in> set (rq (request_queue e')). r \<in> set (rq (request_queue e)) \<or> good_request lb C e r)"
proof -
  obtain unpacked service name where b: "mp_unpack (lb_msgpack lb) buffer = Inr unpacked"
    "mp_as_names (lb_msgpack lb) unpacked = Inr (service, name)" "good_call lb C e name unpacked"
    using assms(1) by (auto simp: good_buffer_def)
  let ?r = "\<lparr>req_object_id = oid, req_stream_id = sid, req_unpacked = unpacked, req_method_name = name\<rparr>"
  have good: "good_request lb C e ?r" using b(3) by (simp add: good_request_def)
  show ?thesis
  proof (cases "0 < work_thread_num (executor_options e)")
    case True
    with b good show ?thesis
      by (simp add: InvokeMethod_def Let_def req.contents_push same_bindings_def in_classes_def)
  next
    case False
    obtain e' where e': "PerformRequest lb ?r e = Inr e'" "same_bindings C e e'"
      using good_request_performed [OF good assms(2)] by blast
    with PerformRequest_frame [OF e'(1)] b(1,2) False show ?thesis
      by (simp add: InvokeMethod_def Let_def)
  qed
qed

lemma invoke_messages_good:
  assumes "list_all (\<lambda>m. good_buffer lb C e (snd (snd m))) ms" and "in_classes C e"
  shows "\<exists>e'. invoke_messages lb ms e = Inr e' \<and> same_bindings C e e'
    \<and> (\<forall>r \<in> set (rq (request_queue e')). r \<in> set (rq (request_queue e)) \<or> good_request lb C e r)"
  using assms
proof (induction ms arbitrary: e)
  case (Cons m ms)
  obtain sid oid buffer where m: "m = (sid, oid, buffer)" by (cases m)
  obtain e1 where e1: "InvokeMethod lb sid oid buffer e = Inr e1" "same_bindings C e e1"
    "\<forall>r \<in> set (rq (request_queue e1)). r \<in> set (rq (request_queue e)) \<or> good_request lb C e r"
    using invoke_good [of C e buffer sid oid] Cons.prems by (auto simp: m)
  have "list_all (\<lambda>m. good_buffer lb C e1 (snd (snd m))) ms" "in_classes C e1"
    using Cons.prems e1(2) by (simp_all add: good_buffer_same [OF e1(2)] same_bindings_def)
  from Cons.IH [OF this] obtain e2 where e2: "invoke_messages lb ms e1 = Inr e2" "same_bindings C e1 e2"
    "\<forall>r \<in> set (rq (request_queue e2)). r \<in> set (rq (request_queue e1)) \<or> good_request lb C e1 r"
    by blast
  with e1 same_bindings_trans [OF e1(2) e2(2)] show ?case
    by (auto simp: m good_request_same [OF e1(2)])
qed simp

lemma on_bytes_good:
  assumes "good_bytes lb C sid bs e" and "in_classes C e"
  shows "\<exists>e'. on_bytes lb sid bs e = Inr e' \<and> same_bindings C e e'
    \<and> (\<forall>r \<in> set (rq (request_queue e')). r \<in> set (rq (request_queue e)) \<or> good_request lb C e r)"
proof (cases "streams e sid")
  case (Some st)
  let ?e = "e\<lparr>streams := (streams e)(sid \<mapsto> fst (receive (lb_order lb) bs st))\<rparr>"
  have same: "same_bindings C e ?e" by (simp add: same_bindings_def in_classes_def)
  have "list_all (\<lambda>m. good_buffer lb C ?e (snd (snd m))) (snd (receive (lb_order lb) bs st))" "in_classes C ?e"
    using assms Some by (simp_all add: good_bytes_def good_buffer_same [OF same] in_classes_def)
  from invoke_messages_good [OF this] show ?thesis
    using Some same_bindings_trans [OF same] by (auto simp: on_bytes_def good_request_same [OF same])
qed (simp add: on_bytes_def)

lemma internal_step_good:
  assumes "internal_step lb t ev r" and "threads_ok rq rs t" and "all_good lb C rq t"
  shows "\<exists>t'. r = Inr t' \<and> all_good lb C rq t' \<and> same_bindings C (shared t) (shared t')"
  using assms(1)
proof (cases rule: internal_step.cases)
  case (worker_pops i r q)
  then show ?thesis
    using assms(3)
    by (auto simp: all_good_def job_sets(1) req.pop_Some good_request_def good_call_def same_bindings_def in_classes_def)
next
  case (worker_performs i r)
  note held = job_sets(2) [OF worker_performs(3,4)]
  have "good_request lb C (shared t) r" "in_classes C (shared t)"
    using assms(3) job_at_hand [OF worker_performs(3,4)] by (simp_all add: all_good_def)
  then obtain x e where e: "compute_response lb r (shared t) = Inr (x, e)" "same_bindings C (shared t) e"
    using good_request_computed by blast
  let ?t = "t\<lparr>shared := e, workers := (workers t)[i := Some (Pushes x)]\<rparr>"
  from e(1) obtain obs where "e = (shared t)\<lparr>objects := obs\<rparr>" by (rule compute_response_frame)
  then have "all_good lb C rq ?t"
    by (intro all_good_change [OF assms(3)]) (use e(2) held in auto)
  with worker_performs(2) e show ?thesis by simp
next
  case (worker_pushes i x)
  then show ?thesis
    using assms(3) job_pushed [OF worker_pushes(3,4)]
    by (auto simp: all_good_def push_response_def good_request_def good_call_def same_bindings_def in_classes_def)
next
  case (writer_pops i x q)
  then show ?thesis
    using assms(3) by (auto simp: all_good_def good_request_def good_call_def same_bindings_def in_classes_def)
next
  case (writer_writes i x)
  obtain e where e: "write_response lb x (shared t) = Inr e"
    using write_response_in_order [OF assms(2) writer_writes(3,4)] by blast
  have "all_good lb C rq (t\<lparr>shared := e, writers := (writers t)[i := None]\<rparr>)"
    by (rule all_good_change [OF assms(3)]) (use write_response_bindings [OF e] in auto)
  with writer_writes(2) e write_response_bindings [OF e] show ?thesis by simp
qed

lemma good_run_ok:
  assumes "good_run lb C t evs r" and "threads_ok rq rs t" and "all_good lb C rq t"
  shows "\<exists>t'. r = Inr t' \<and> threads_ok rq rs t' \<and> all_good lb C rq t' \<and> same_bindings C (shared t) (shared t')"
  using assms
proof (induction rule: good_run.induct)
  case (good_internal t evs t1 ev r)
  then have ok: "threads_ok rq rs t1" "all_good lb C rq t1" and same: "same_bindings C (shared t) (shared t1)" by blast+
  from internal_step_good [OF good_internal.hyps(2) ok] obtain t' where "r = Inr t'" "all_good lb C rq t'"
    "same_bindings C (shared t1) (shared t')"
    by blast
  with internal_step_ok [OF _ ok(1)] good_internal.hyps(2) same_bindings_trans [OF same] show ?case by blast
next
  case (good_connection t evs t1 failed)
  then have ok: "threads_ok rq rs t1" "all_good lb C rq t1" and same: "same_bindings C (shared t) (shared t1)" by blast+
  then have "streams_ok (shared t1)" by (simp add: threads_ok_def)
  from on_accept_ok [OF this good_connection.hyps(2)] obtain e where e: "on_accept failed (shared t1) = Inr e"
    by blast
  have step: "external_step lb t1 [] (Inr (t1\<lparr>shared := e\<rparr>))"
    using connection [OF good_connection.hyps(2), of lb failed] e by simp
  have "streams_ok (shared t1)" using ok by (simp add: threads_ok_def)
  note frame = on_accept_frame [OF e this good_connection.hyps(2)]
  have "all_good lb C rq (t1\<lparr>shared := e\<rparr>)"
    by (rule all_good_change [OF ok(2)]) (use on_accept_bindings [OF e] frame in auto)
  with external_step_ok [OF step ok(1)] e same_bindings_trans [OF same on_accept_bindings [OF e]] show ?case by simp
next
  case (good_bytes_arrive t evs t1 sid bs)
  then have ok: "threads_ok rq rs t1" "all_good lb C rq t1" and same: "same_bindings C (shared t) (shared t1)" by blast+
  then have "in_classes C (shared t1)" by (simp add: all_good_def)
  from on_bytes_good [OF good_bytes_arrive.hyps(2) this] obtain e where e: "on_bytes lb sid bs (shared t1) = Inr e"
    "same_bindings C (shared t1) e"
    "\<forall>r \<in> set (rq (request_queue e)). r \<in> set (rq (request_queue (shared t1))) \<or> good_request lb C (shared t1) r"
    by blast
  have step: "external_step lb t1 (map Received (received_keys lb sid bs (shared t1))) (Inr (t1\<lparr>shared := e\<rparr>))"
    using bytes_arrive [of lb t1 sid bs] e(1) by simp
  have "all_good lb C rq (t1\<lparr>shared := e\<rparr>)"
    using ok(2) e(2,3) by (auto simp: all_good_def good_request_same [OF e(2)]) (auto simp: same_bindings_def)
  with external_step_ok [OF step ok(1)] e(1) same_bindings_trans [OF same e(2)] show ?case by simp
qed simp

lemma internal_event: "internal_step lb t ev r \<Longrightarrow> received ev = {#}"
  by (erule internal_step_elim) simp_all

text \<open>A good run can go on until nothing is left to do, without another message.\<close>

lemma good_comes_to_rest:
  assumes "good_run lb C t0 evs (Inr t)" and "threads_ok rq rs t0" and "all_good lb C rq t0"
  shows "\<exists>evs' t'. good_run lb C t0 evs' (Inr t') \<and> received evs' = received evs \<and> (\<nexists>ev r. internal_step lb t' ev r)"
  using assms(1)
proof (induction t arbitrary: evs rule: wf_induct_rule [OF internal_steps_end])
  case (1 t)
  show ?case
  proof (cases "\<exists>ev r. internal_step lb t ev r")
    case True
    then obtain ev r where step: "internal_step lb t ev r" by blast
    have "threads_ok rq rs t" "all_good lb C rq t" using good_run_ok [OF 1(2) assms(2,3)] by auto
    from internal_step_good [OF step this] obtain t' where r: "r = Inr t'" by blast
    have "received (evs @ ev) = received evs" by (simp add: internal_event [OF step])
    with 1(1) [OF _ good_internal [OF 1(2) step, unfolded r]] step r show ?thesis by auto
  next
    case False
    with 1(2) show ?thesis by blast
  qed
qed

end

section \<open>Properties\<close>

text \<open>
  C13: well-behaved clients cannot bring the server down: in no interleaving does a run end
  in a fault when every message received is a packed call of a registered method of a live service
  that takes its arguments without a fault, whatever state of its class the object is in: no lookup, pointer,
  assertion, queue or index fails.
\<close>

theorem server_survives_good_calls:
  assumes "executor_queues lb rq rs" and "serving rq rs e" and "in_classes C e"
    and "good_run lb C (start_threads e) evs r"
  shows "\<exists>t. r = Inr t"
proof -
  have "all_good lb C rq (start_threads e)"
    using assms(2,3) by (simp add: all_good_def start_threads_def serving_def queued_def)
  with executor_queues.good_run_ok [OF assms(1,4)] executor_queues.start_threads_ok [OF assms(1,2)]
  show ?thesis by blast
qed

text \<open>A packed call of a bound method that takes its arguments is a good message.\<close>

lemma good_buffer_call:
  assumes "msgpack_codec (lb_msgpack lb) has_type" and "registered_methods e name = Some (Some cl)"
    and "instances e (cl_service_instance cl) = Some d" and "service_object d \<in> dom (objects e)"
    and "args_fit (lb_msgpack lb) has_type service name (cl_method cl) args"
    and "\<And>ob. C (service_object d) ob \<Longrightarrow>
      \<exists>bs ob'. call_result (lb_msgpack lb) (cl_method cl) ob args [] = Inr (bs, ob') \<and> C (service_object d) ob'"
  shows "good_buffer lb C e
    (PackArgsToBuffer (lb_msgpack lb) (mp_string (lb_msgpack lb) service # mp_string (lb_msgpack lb) name # args))"
proof -
  obtain unpacked where u: "mp_unpack (lb_msgpack lb)
      (PackArgsToBuffer (lb_msgpack lb) (mp_string (lb_msgpack lb) service # mp_string (lb_msgpack lb) name # args)) =
      Inr unpacked" "mp_as_names (lb_msgpack lb) unpacked = Inr (service, name)"
    "\<And>ob. InvokeHelper_Invoke (lb_msgpack lb) (cl_method cl) ob unpacked [] =
      call_result (lb_msgpack lb) (cl_method cl) ob args []"
    using msgpack_codec.packed_call [OF assms(1,5)] by blast
  then have "good_call lb C e name unpacked" using assms(2-4,6) unfolding good_call_def by auto
  with u(1,2) show ?thesis by (auto simp: good_buffer_def)
qed

text \<open>The message of 20 + 22 is good for the example server.\<close>

lemma add_buffer_good: "good_buffer wire_libs (\<lambda>_ _. True) (one_client pool) add_buffer"
  unfolding add_buffer_def wire_call [symmetric]
proof (rule good_buffer_call [OF wire_codec, where cl = add_closure and d = "\<lparr>service_name = [], service_object = 0\<rparr>"])
  show "args_fit (lb_msgpack wire_libs) wire_has_type ''Adder'' ''add'' (cl_method add_closure) [WInt 20, WInt 22]"
    by (simp only: fits_example) simp
qed (simp_all add: example_executor_def add_closure_def call_result_def ptr_add_def Adder_add_def int_result_def)

theorem server_survives_good_calls_witness:
  "\<exists>t. good_run wire_libs (\<lambda>_ _. True) (start_threads example_executor) [Received (0, 3)] (Inr t)"
proof -
  let ?t0 = "start_threads example_executor :: (service_state, wire_value, wire_object, _, _) server_threads"
  obtain pool where accept: "on_accept False example_executor = Inr (one_client pool)"
    using one_client_accepted by blast
  have start: "shared ?t0 = example_executor" by (simp add: start_threads_def)
  have "unat (curr_stream_id (shared ?t0)) + 1 < 2 ^ 64"
    by (simp add: start_threads_def example_executor_def Executor_def)
  from good_connection [OF good_start this, of wire_libs "\<lambda>_ _. True" False]
  have run1: "good_run wire_libs (\<lambda>_ _. True) ?t0 [] (Inr (?t0\<lparr>shared := one_client pool\<rparr>))"
    unfolding start accept by simp
  let ?bs = "frame Little_endian (3, add_buffer)"
  have new: "unread Little_endian (Start (AsioStream 0)) = []"
    by (simp add: AsioStream_def Start_def DoReadObjectID_def unread_def)
  have "good_bytes wire_libs (\<lambda>_ _. True) 0 ?bs (shared (?t0\<lparr>shared := one_client pool\<rparr>))"
    using receive_one_frame [OF reading_Start new length_add_buffer, of 3] add_buffer_good
    by (simp add: good_bytes_def wire_libs_simps)
  note run2 = good_bytes_arrive [OF run1 this]
  from server_survives_good_calls [OF wire_queues.executor_queues_axioms serving_example _ run2] obtain t where
    "res_bind (on_bytes wire_libs 0 ?bs (one_client pool)) (\<lambda>e. Inr (?t0\<lparr>shared := one_client pool, shared := e\<rparr>)) = Inr t"
    by (auto simp: in_classes_def)
  with run2 show ?thesis by (auto simp: one_client_receives)
qed

end
