(* ===== verification/Benchmarks.thy ===== *)
theory Benchmarks
  imports Client_Session Server_Safety
begin

text \<open>
  \<^verbatim>\<open>src/benchmarks/single_node\<close>: the call counter with the thread that reports it (\<^verbatim>\<open>qps.h\<close>), the
  benchmark's service, its server and the calls of its clients.
\<close>

section \<open>The counter\<close>

text \<open>
  The orders of an atomic access that the counter names. The standard requires of a store that its
  order is none of those that acquire; otherwise the behaviour is undefined.
\<close>

datatype memory_order = Order_relaxed | Order_acquire | Order_release

definition atomic_store :: "memory_order \<Rightarrow> 'a \<Rightarrow> 'a res" where
  "atomic_store order v = (if order = Order_acquire then Inl Invalid_memory_order else Inr v)"

text \<open>
  The counter's fields, where its thread is, and what the thread has printed, oldest first: the
  rate and the sum of each round. \<open>Sleeping c\<close> is the sleep of a round that has read \<open>c\<close>.
\<close>

datatype qps_thread = Loop_head | Sleeping u32 | Thread_ended

record qps =
  qps_stop :: bool
  qps_thd :: qps_thread
  qps_counter :: u32
  qps_last_counter :: u32
  qps_printed :: "(u32 \<times> u32) list"

definition Qps :: qps where
  "Qps = \<lparr>qps_stop = False, qps_thd = Loop_head, qps_counter = 0, qps_last_counter = 0, qps_printed = []\<rparr>"

definition increase :: "qps \<Rightarrow> qps" where
  "increase q = q\<lparr>qps_counter := qps_counter q + 1\<rparr>"

text \<open>The thread's function: the head of the loop with the report, and what follows the sleep.\<close>

definition qps_report :: "qps \<Rightarrow> qps" where
  "qps_report q =
     (if qps_stop q then q\<lparr>qps_thd := Thread_ended\<rparr>
      else (let counter = qps_counter q
            in q\<lparr>qps_printed := qps_printed q @ [(counter - qps_last_counter q, counter)],
                 qps_last_counter := counter, qps_thd := Sleeping counter\<rparr>))"

definition qps_wake :: "u32 \<Rightarrow> qps \<Rightarrow> qps res" where
  "qps_wake counter q =
     (if 10000 * 10000 < counter
      then res_bind (atomic_store Order_acquire 0) (\<lambda>v. Inr (q\<lparr>qps_counter := v, qps_thd := Loop_head\<rparr>))
      else Inr (q\<lparr>qps_thd := Loop_head\<rparr>))"

definition thread_step :: "qps \<Rightarrow> qps res" where
  "thread_step q = (case qps_thd q of
       Loop_head \<Rightarrow> Inr (qps_report q)
     | Sleeping counter \<Rightarrow> qps_wake counter q
     | Thread_ended \<Rightarrow> Inr q)"

text \<open>The destructor tells the thread to stop and waits for its end.\<close>

definition Qps_stop :: "qps \<Rightarrow> qps" where
  "Qps_stop q = q\<lparr>qps_stop := True\<rparr>"

partial_function (option) join_thd :: "qps \<Rightarrow> qps res option" where
  "join_thd q =
     (if qps_thd q = Thread_ended then Some (Inr q)
      else (case thread_step q of Inl f \<Rightarrow> Some (Inl f) | Inr q' \<Rightarrow> join_thd q'))"

definition Qps_destructor :: "qps \<Rightarrow> qps res option" where
  "Qps_destructor q = join_thd (Qps_stop q)"

text \<open>The methods of the service increase the counter while its thread runs, in any order.\<close>

inductive qps_run :: "nat \<Rightarrow> qps res \<Rightarrow> bool" where
  qps_start: "qps_run 0 (Inr Qps)"
| qps_increase: "qps_run n (Inr q) \<Longrightarrow> qps_run (Suc n) (Inr (increase q))"
| qps_thread: "qps_run n (Inr q) \<Longrightarrow> qps_run n (thread_step q)"

text \<open>
  As long as the calls fit the counter's 32 bits: it holds their number, the rates printed add up
  to the number of calls at the last report, and a sleeping round has read that number.
\<close>

definition qps_ok :: "nat \<Rightarrow> qps \<Rightarrow> bool" where
  "qps_ok n q \<longleftrightarrow> unat (qps_counter q) = n \<and> unat (qps_last_counter q) \<le> n \<and> \<not> qps_stop q
     \<and> sum_list (map (\<lambda>(rate, _). unat rate) (qps_printed q)) = unat (qps_last_counter q)
     \<and> (\<forall>c. qps_thd q = Sleeping c \<longrightarrow> c = qps_last_counter q)"

lemma qps_ok_increase:
  assumes "qps_ok n q" and "Suc n < 2 ^ 32"
  shows "qps_ok (Suc n) (increase q)"
proof -
  have "unat (qps_counter q + 1) = Suc n"
    using assms by (simp add: qps_ok_def unat_word_ariths)
  with assms(1) show ?thesis by (simp add: qps_ok_def increase_def)
qed

lemma qps_ok_report:
  assumes "qps_ok n q"
  shows "qps_ok n (qps_report q)"
proof -
  have "unat (qps_counter q - qps_last_counter q) = unat (qps_counter q) - unat (qps_last_counter q)"
    using assms by (simp add: qps_ok_def unat_sub word_le_nat_alt)
  with assms show ?thesis by (simp add: qps_ok_def qps_report_def Let_def)
qed

lemma qps_ok_wake: "qps_ok n q \<Longrightarrow> qps_wake c q = Inr q' \<Longrightarrow> qps_ok n q'"
  by (auto simp: qps_ok_def qps_wake_def atomic_store_def split: if_splits)

lemma qps_ok_thread: "qps_ok n q \<Longrightarrow> thread_step q = Inr q' \<Longrightarrow> qps_ok n q'"
  unfolding thread_step_def by (cases "qps_thd q") (auto intro: qps_ok_report qps_ok_wake)

lemma qps_run_ok: "qps_run n r \<Longrightarrow> n < 2 ^ 32 \<Longrightarrow> r = Inr q \<Longrightarrow> qps_ok n q"
proof (induction arbitrary: q rule: qps_run.induct)
  case qps_start
  then have "q = Qps" by simp
  then show ?case by (simp add: qps_ok_def Qps_def)
qed (auto intro: qps_ok_increase qps_ok_thread)

lemma qps_many_increases: "qps_run n (Inr (Qps\<lparr>qps_counter := of_nat n\<rparr>))"
proof (induction n)
  case 0
  have "Qps\<lparr>qps_counter := of_nat 0\<rparr> = Qps" by (simp add: Qps_def)
  then show ?case by (simp only: qps_start)
next
  case (Suc n)
  have "increase (Qps\<lparr>qps_counter := of_nat n\<rparr>) = Qps\<lparr>qps_counter := of_nat (Suc n)\<rparr>"
    by (simp add: increase_def)
  with qps_run.qps_increase [OF Suc] show ?case by (simp only:)
qed

lemma join_thd_ended: "qps_thd q = Thread_ended \<Longrightarrow> join_thd q = Some (Inr q)"
  by (simp add: join_thd.simps)

lemma join_thd_step: "qps_thd q \<noteq> Thread_ended \<Longrightarrow> thread_step q = Inr q' \<Longrightarrow> join_thd q = join_thd q'"
  by (simp add: join_thd.simps [of q])

lemma join_thd_at_head:
  assumes "qps_stop q" and "qps_thd q = Loop_head"
  shows "join_thd q = Some (Inr (q\<lparr>qps_thd := Thread_ended\<rparr>))"
  using assms join_thd_step [of q "qps_report q"] by (simp add: thread_step_def qps_report_def join_thd_ended)

section \<open>The service, the server and the clients\<close>

definition Echo :: "qps \<Rightarrow> wire_value list \<Rightarrow> (wire_value \<times> qps) res" where
  "Echo this args = (case args of
       [WStr str] \<Rightarrow> Inr (WStr str, increase this)
     | _ \<Rightarrow> Inl (Throws Msgpack_error))"

text \<open>It also sleeps.\<close>

definition SlowlyEcho :: "qps \<Rightarrow> wire_value list \<Rightarrow> (wire_value \<times> qps) res" where
  "SlowlyEcho this args = (case args of
       [WStr str] \<Rightarrow> Inr (WStr str, increase this)
     | _ \<Rightarrow> Inl (Throws Msgpack_error))"

definition ptr_Echo :: "(qps, wire_value) method_pointer" where
  "ptr_Echo = \<lparr>mt_type = MemFn ''BenchmarkService'' std_string [LRef (Const std_string)], mt_body = Returning Echo\<rparr>"

definition ptr_SlowlyEcho :: "(qps, wire_value) method_pointer" where
  "ptr_SlowlyEcho =
     \<lparr>mt_type = MemFn ''BenchmarkService'' std_string [LRef (Const std_string)], mt_body = Returning SlowlyEcho\<rparr>"

type_synonym benchmark_executor = "(qps, wire_value, wire_object DousiRequest std_locked_queue,
  DousiResponse std_locked_queue) executor"

type_synonym benchmark_rpc_server = "(qps, wire_value, wire_object DousiRequest std_locked_queue,
  DousiResponse std_locked_queue) rpc_server"

definition benchmark_setup :: "benchmark_rpc_server res" where
  "benchmark_setup =
     res_bind (RpcServer wire_libs start_ok ''127.0.0.1:10002'' logging_initial) (\<lambda>s.
     case RpcServer_CreateService ''BenchmarkService'' Qps s of (bm_service, s) \<Rightarrow>
     res_bind (RpcServer_RegisterMethod bm_service (Remote ''&BenchmarkService::Echo'' ptr_Echo) s) (\<lambda>s.
     RpcServer_RegisterMethod bm_service (Remote ''&BenchmarkService::SlowlyEcho'' ptr_SlowlyEcho) s))"

definition benchmark_server :: "benchmark_rpc_server res" where
  "benchmark_server = res_bind benchmark_setup RpcServer_Loop"

text \<open>A round of the loop of \<^verbatim>\<open>benchmark_client.cc\<close>, and one of \<^verbatim>\<open>benchmark_multi_threads_client.cc\<close>.\<close>

definition benchmark_client_call :: "'j rpc_client \<Rightarrow> (qps, wire_value) client_call" where
  "benchmark_client_call rpc_client =
     (RpcClient_GetService ''BenchmarkService'' rpc_client, Remote ''&BenchmarkService::Echo'' ptr_Echo, [WStr ''hello world.''])"

definition benchmark_thread_call :: "'j rpc_client \<Rightarrow> u32 \<Rightarrow> (qps, wire_value) client_call" where
  "benchmark_thread_call rpc_client i =
     (let bm_service = RpcClient_GetService ''BenchmarkService'' rpc_client
      in if i mod 100 = 0
         then (bm_service, Remote ''&BenchmarkService::SlowlyEcho'' ptr_SlowlyEcho, [WStr ''slowly echo.''])
         else (bm_service, Remote ''&BenchmarkService::Echo'' ptr_Echo, [WStr ''hello world.'']))"

section \<open>The server\<close>

definition benchmark_executor :: benchmark_executor where
  "benchmark_executor = (Executor wire_libs default_options)
     \<lparr>listening_addr := ''127.0.0.1:10002'', acceptor := Some ((Any_v4, 10002), True),
      objects := [0 \<mapsto> Qps], created_services := [''BenchmarkService'' \<mapsto> 0],
      instances := [1 \<mapsto> \<lparr>service_name = [], service_object = 0\<rparr>],
      registered_methods :=
        [''Echo'' \<mapsto> Some \<lparr>cl_method = ptr_Echo, cl_service_instance = 1\<rparr>,
         ''SlowlyEcho'' \<mapsto> Some \<lparr>cl_method = ptr_SlowlyEcho, cl_service_instance = 1\<rparr>],
      next_addr := 2\<rparr>"

lemma benchmark_names [simp]:
  "Remote ''&BenchmarkService::Echo'' m = \<lparr>method_name = ''Echo'', method_ptr = m\<rparr>"
  "Remote ''&BenchmarkService::SlowlyEcho'' m = \<lparr>method_name = ''SlowlyEcho'', method_ptr = m\<rparr>"
  using pretty_name_member [of "''Echo''" "''BenchmarkService:''"]
    pretty_name_member [of "''SlowlyEcho''" "''BenchmarkService:''"]
  by (simp_all add: Remote_def NAMEOF_def is_name_char_def is_name_start_def is_decimal_def char_between_def)

lemma benchmark_setup_eq: "\<exists>s. benchmark_setup = Inr s \<and> srv_executor s = benchmark_executor"
  by (simp add: listening_servers benchmark_setup_def server_setup benchmark_executor_def Executor_def eval_nat_numeral)

lemma benchmark_server_eq:
  "\<exists>pool s. benchmark_server = Inr s \<and> srv_executor s = benchmark_executor\<lparr>io_pool := pool\<rparr> \<and> pool_ok 8 pool"
proof -
  obtain s where s: "benchmark_setup = Inr s" "srv_executor s = benchmark_executor"
    using benchmark_setup_eq by blast
  then have "io_pool (srv_executor s) = IOThreadPool 8"
    by (simp add: benchmark_executor_def Executor_def default_options_def)
  from RpcServer_Loop_starts [OF this] obtain pool s' where s': "RpcServer_Loop s = Inr s'"
    "srv_executor s' = (srv_executor s)\<lparr>io_pool := pool\<rparr>" "pool_ok 8 pool"
    by auto
  have "benchmark_server = Inr s'"
    by (simp add: benchmark_server_def s(1) s'(1))
  with s' s(2) show ?thesis by auto
qed

text \<open>Every call that succeeds has counted itself.\<close>

lemma echoes_count:
  "Echo q args = Inr (v, q') \<Longrightarrow> q' = increase q" "SlowlyEcho q args = Inr (v, q') \<Longrightarrow> q' = increase q"
  by (auto simp: Echo_def SlowlyEcho_def split: list.splits wire_value.splits)

lemma benchmark_methods_count:
  assumes "InvokeHelper_Invoke mp m q unpacked result = Inr (bs, q')" and "m = ptr_Echo \<or> m = ptr_SlowlyEcho"
  shows "q' = increase q"
  using assms
  by (auto simp: InvokeHelper_Invoke_def res_bind_Inr_iff ptr_Echo_def ptr_SlowlyEcho_def TraitAndCall_def
      TraitAndCall2_def dest: echoes_count)

text \<open>
  What stays as the server's program made it, and the counter: the calls performed are those
  answered and those whose response is queued or being written.
\<close>

definition benchmark_service :: "benchmark_executor \<Rightarrow> bool" where
  "benchmark_service e \<longleftrightarrow> registered_methods e = registered_methods benchmark_executor
     \<and> instances e = instances benchmark_executor \<and> 0 < work_thread_num (executor_options e)"

definition performed :: "event list \<Rightarrow> (qps, wire_value, wire_object, wire_object DousiRequest std_locked_queue,
  DousiResponse std_locked_queue) server_threads \<Rightarrow> nat" where
  "performed evs t = size (responded evs) + length (pushing (workers t))
     + length (slq_data (response_queue (shared t))) + length (busy (writers t))"

definition counted :: "event list \<Rightarrow> (qps, wire_value, wire_object, wire_object DousiRequest std_locked_queue,
  DousiResponse std_locked_queue) server_threads \<Rightarrow> bool" where
  "counted evs t \<longleftrightarrow> benchmark_service (shared t)
     \<and> (\<exists>q. objects (shared t) 0 = Some q \<and> qps_counter q = of_nat (performed evs t))"

lemma computes_count:
  assumes "compute_response wire_libs r e = Inr (x, e')" and "benchmark_service e" and "objects e 0 = Some q"
  shows "objects e' 0 = Some (increase q) \<and> benchmark_service e' \<and> response_queue e' = response_queue e"
  using assms(1)
proof (rule compute_response_Inr)
  fix cl d ob ob'
  assume *: "registered_methods e (req_method_name r) = Some (Some cl)"
    "instances e (cl_service_instance cl) = Some d" "objects e (service_object d) = Some ob"
    "InvokeHelper_Invoke (lb_msgpack wire_libs) (cl_method cl) ob (req_unpacked r) [] = Inr (rsp_result x, ob')"
    and e': "e' = e\<lparr>objects := (objects e)(service_object d \<mapsto> ob')\<rparr>"
  have cl: "cl_method cl = ptr_Echo \<or> cl_method cl = ptr_SlowlyEcho" "service_object d = 0"
    using *(1,2) assms(2)
    by (auto simp: benchmark_service_def benchmark_executor_def split: if_splits)
  with *(3) assms(3) benchmark_methods_count [OF *(4) cl(1)] have "ob' = increase q" by simp
  with e' cl(2) assms(2) show ?thesis by (simp add: benchmark_service_def)
qed

lemma invoke_messages_queue:
  assumes "invoke_messages wire_libs ms e = Inr e'" and "benchmark_service e"
  shows "objects e' = objects e \<and> response_queue e' = response_queue e \<and> benchmark_service e'"
  using assms
proof (induction ms arbitrary: e)
  case (Cons m ms)
  obtain sid oid buffer where m: "m = (sid, oid, buffer)" by (cases m)
  obtain e1 where e1: "InvokeMethod wire_libs sid oid buffer e = Inr e1" "invoke_messages wire_libs ms e1 = Inr e'"
    using Cons.prems(1) by (auto simp: res_bind_Inr_iff m)
  from e1(1) Cons.prems(2)
  have "objects e1 = objects e \<and> response_queue e1 = response_queue e \<and> benchmark_service e1"
    by (auto simp: InvokeMethod_def res_bind_Inr_iff Let_def benchmark_service_def)
  with Cons.IH [OF e1(2)] show ?case by simp
qed simp

lemma internal_counted:
  assumes "internal_step wire_libs t ev (Inr t')" and "counted evs t"
  shows "counted (evs @ ev) t'"
  using assms(1)
proof (cases rule: internal_step.cases)
  case (worker_pops i r q)
  with assms(2) job_taken [OF worker_pops(3,4), of r] show ?thesis
    by (simp add: counted_def performed_def benchmark_service_def)
next
  case (worker_performs i r)
  then obtain x e where e: "compute_response wire_libs r (shared t) = Inr (x, e)"
    "t' = t\<lparr>shared := e, workers := (workers t)[i := Some (Pushes x)]\<rparr>"
    by (auto simp: Inr_res_bind_iff)
  from assms(2) obtain q where q: "benchmark_service (shared t)" "objects (shared t) 0 = Some q"
    "qps_counter q = of_nat (performed evs t)"
    by (auto simp: counted_def)
  with computes_count [OF e(1)] worker_performs(1) e(2) job_sizes(3) [OF worker_performs(3,4), of x] show ?thesis
    by (simp add: counted_def performed_def increase_def)
next
  case (worker_pushes i x)
  with assms(2) job_sizes(4) [OF worker_pushes(3,4)] show ?thesis
    by (simp add: counted_def performed_def benchmark_service_def push_response_def wire_libs_simps slq.contents_push)
next
  case (writer_pops i x q)
  then have "slq_data (response_queue (shared t)) = x # slq_data q"
    by (intro slq.pop_Some) (simp add: wire_libs_simps)
  with assms(2) writer_pops busy_length_take [OF writer_pops(3,4), of x] show ?thesis
    by (simp add: counted_def performed_def benchmark_service_def)
next
  case (writer_writes i x)
  then obtain e where e: "write_response wire_libs x (shared t) = Inr e"
    "t' = t\<lparr>shared := e, writers := (writers t)[i := None]\<rparr>"
    by (auto simp: Inr_res_bind_iff)
  then have "objects e = objects (shared t)" "response_queue e = response_queue (shared t)"
    "registered_methods e = registered_methods (shared t)" "instances e = instances (shared t)"
    "executor_options e = executor_options (shared t)"
    by (auto simp: write_response_def split: option.splits)
  with assms(2) e(2) writer_writes(1) busy_length_release [OF writer_writes(3,4)] show ?thesis
    by (simp add: counted_def performed_def benchmark_service_def)
qed

lemma on_accept_counted:
  assumes "on_accept failed e = Inr e'"
  shows "objects e' = objects e \<and> response_queue e' = response_queue e \<and> registered_methods e' = registered_methods e
    \<and> instances e' = instances e \<and> executor_options e' = executor_options e"
  using assms
  by (auto simp: on_accept_eq DoAccept_def add_stream_def res_bind_Inr_iff split: if_splits prod.splits)

lemma external_counted:
  assumes "external_step wire_libs t ev (Inr t')" and "counted evs t"
  shows "counted (evs @ ev) t'"
  using assms(1)
proof (cases rule: external_step.cases)
  case (connection failed)
  then obtain e where e: "on_accept failed (shared t) = Inr e" "t' = t\<lparr>shared := e\<rparr>"
    by (auto simp: Inr_res_bind_iff)
  from on_accept_counted [OF e(1)] connection(1) e(2) assms(2) show ?thesis
    by (simp add: counted_def performed_def benchmark_service_def)
next
  case (bytes_arrive sid bs)
  then obtain e where e: "on_bytes wire_libs sid bs (shared t) = Inr e" "t' = t\<lparr>shared := e\<rparr>"
    by (auto simp: Inr_res_bind_iff)
  have "objects e = objects (shared t) \<and> response_queue e = response_queue (shared t) \<and> benchmark_service e"
  proof (cases "streams (shared t) sid")
    case None
    with e(1) assms(2) show ?thesis by (simp add: on_bytes_def counted_def)
  next
    case (Some st)
    with e(1) have "invoke_messages wire_libs (snd (receive (lb_order wire_libs) bs st))
        ((shared t)\<lparr>streams := (streams (shared t))(sid \<mapsto> fst (receive (lb_order wire_libs) bs st))\<rparr>) = Inr e"
      by (simp add: on_bytes_def)
    from invoke_messages_queue [OF this] assms(2) show ?thesis by (simp add: counted_def benchmark_service_def)
  qed
  with bytes_arrive(1) e(2) assms(2) show ?thesis by (simp add: counted_def performed_def)
qed

lemma run_counted: "server_run wire_libs t evs r \<Longrightarrow> counted [] t \<Longrightarrow> r = Inr t' \<Longrightarrow> counted evs t'"
proof (induction arbitrary: t' rule: server_run.induct)
  case (run_internal t evs t1 ev r)
  then show ?case using internal_counted by blast
next
  case (run_external t evs t1 ev r)
  then show ?case using external_counted by blast
qed simp

lemma start_counted: "counted [] (start_threads (benchmark_executor\<lparr>io_pool := pool\<rparr>))"
  by (simp add: counted_def performed_def start_threads_def benchmark_service_def)
    (simp add: benchmark_executor_def Executor_def default_options_def wire_libs_simps StdLockedQueue_def Qps_def)

lemma benchmark_serving:
  assumes "pool_ok 8 pool"
  shows "serving slq_data slq_data (benchmark_executor\<lparr>io_pool := pool\<rparr>)"
  using assms
  by (auto simp: serving_def streams_ok_def queued_def benchmark_executor_def Executor_def default_options_def
      wire_libs_simps StdLockedQueue_def intro!: exI [of _ 8])

text \<open>A run in which one client's call of \<^verbatim>\<open>Echo\<close> is received, up to where the threads rest.\<close>

definition echo_buffer :: bytes where
  "echo_buffer = wire_pack_tuple [WStr ''BenchmarkService'', WStr ''Echo'', WStr ''hello world.'']"

lemma length_echo_buffer: "length echo_buffer < 2 ^ 32"
  by (simp add: echo_buffer_def wire_pack_tuple_def be32_def)

lemma echo_buffer_good:
  assumes "benchmark_service e" and "0 \<in> dom (objects e)"
  shows "good_buffer wire_libs (\<lambda>_ _. True) e echo_buffer"
  unfolding echo_buffer_def wire_call [symmetric]
proof (rule good_buffer_call [OF wire_codec, where cl = "\<lparr>cl_method = ptr_Echo, cl_service_instance = 1\<rparr>"
      and d = "\<lparr>service_name = [], service_object = 0\<rparr>"])
  show "registered_methods e ''Echo'' = Some (Some \<lparr>cl_method = ptr_Echo, cl_service_instance = 1\<rparr>)"
    "instances e (cl_service_instance \<lparr>cl_method = ptr_Echo, cl_service_instance = 1\<rparr>) =
      Some \<lparr>service_name = [], service_object = 0\<rparr>"
    using assms(1) by (simp_all add: benchmark_service_def benchmark_executor_def)
  show "service_object \<lparr>service_name = [], service_object = 0\<rparr> \<in> dom (objects e)" using assms(2) by simp
qed (simp_all add: args_fit_def call_result_def ptr_Echo_def Echo_def wire_libs_simps wire_msgpack_def
    BaseFunctionTraits_def std_string_def)

lemma benchmark_run:
  assumes "pool_ok 8 pool"
  shows "\<exists>evs t. server_run wire_libs (start_threads (benchmark_executor\<lparr>io_pool := pool\<rparr>)) evs (Inr t)
    \<and> received evs = {#(0, 3)#} \<and> (\<nexists>ev r. internal_step wire_libs t ev r)"
proof -
  let ?e0 = "benchmark_executor\<lparr>io_pool := pool\<rparr>" and ?bs = "frame Little_endian (3, echo_buffer)"
  let ?t0 = "start_threads ?e0 :: (qps, wire_value, wire_object, _, _) server_threads"
  have start: "shared ?t0 = ?e0" by (simp add: start_threads_def)
  have "pool_ok 8 (io_pool (add_stream ?e0))" using assms by (simp add: add_stream_def)
  from DoAccept_ok [OF this] obtain pool' where
    accept: "on_accept False ?e0 = Inr ((add_stream ?e0)\<lparr>io_pool := pool'\<rparr>)"
    by (auto simp: on_accept_eq)
  let ?e1 = "(add_stream ?e0)\<lparr>io_pool := pool'\<rparr>"
  have streams: "streams ?e1 0 = Some (Start (AsioStream 0))" and objects: "0 \<in> dom (objects ?e1)"
    and service: "benchmark_service ?e1"
    by (simp_all add: add_stream_def benchmark_service_def)
      (simp_all add: benchmark_executor_def Executor_def default_options_def)
  have "unat (curr_stream_id (shared ?t0)) + 1 < 2 ^ 64"
    by (simp add: start_threads_def benchmark_executor_def Executor_def)
  from good_connection [OF good_start this, of wire_libs "\<lambda>_ _. True" False]
  have run1: "good_run wire_libs (\<lambda>_ _. True) ?t0 [] (Inr (?t0\<lparr>shared := ?e1\<rparr>))"
    unfolding start accept by simp
  have "snd (receive Little_endian ?bs (Start (AsioStream 0))) = [(0, 3, echo_buffer)]"
    using receive_one_frame [OF reading_Start _ length_echo_buffer, of Little_endian "AsioStream 0" 3]
    by (simp add: AsioStream_def Start_def DoReadObjectID_def unread_def)
  then have keys: "received_keys wire_libs 0 ?bs ?e1 = [(0, 3)]" and good: "good_bytes wire_libs (\<lambda>_ _. True) 0 ?bs (shared (?t0\<lparr>shared := ?e1\<rparr>))"
    using streams echo_buffer_good [OF service objects]
    by (simp_all add: received_keys_def message_key_def good_bytes_def wire_libs_simps)
  have ok: "threads_ok slq_data slq_data ?t0" "all_good wire_libs (\<lambda>_ _. True) slq_data ?t0"
    using wire_queues.start_threads_ok [OF benchmark_serving [OF assms]] benchmark_serving [OF assms]
    by (simp_all add: all_good_def in_classes_def start_threads_def serving_def queued_def)
  note run2 = good_bytes_arrive [OF run1 good]
  from wire_queues.good_run_ok [OF run2 ok] obtain t where
    "res_bind (on_bytes wire_libs 0 ?bs (shared (?t0\<lparr>shared := ?e1\<rparr>))) (\<lambda>e. Inr (?t0\<lparr>shared := ?e1, shared := e\<rparr>)) = Inr t"
    by blast
  with run2 keys have "good_run wire_libs (\<lambda>_ _. True) ?t0 [Received (0, 3)] (Inr t)" by simp
  from wire_queues.good_comes_to_rest [OF this ok] show ?thesis using good_run_is_run by fastforce
qed

section \<open>Clients that wait\<close>

definition round_text :: "u32 \<Rightarrow> string" where
  "round_text i = (if i mod 100 = 0 then ''slowly echo.'' else ''hello world.'')"

lemma benchmark_call_local:
  assumes "benchmark_service e" and "obs 0 = Some q"
  shows "local_call e (benchmark_thread_call c i) obs = Inr (Some (WStr (round_text i)), obs(0 \<mapsto> increase q))"
  using assms
  by (simp add: local_call_def benchmark_thread_call_def Let_def benchmark_service_def round_text_def GetName_def
      GetMethod_def benchmark_executor_def ptr_Echo_def ptr_SlowlyEcho_def Echo_def SlowlyEcho_def)

lemma benchmark_calls_local:
  assumes "benchmark_service e" and "obs 0 = Some q"
  shows "\<exists>obs' q'. local_calls e (map (benchmark_thread_call c) is) obs = Inr (map (\<lambda>i. Some (WStr (round_text i))) is, obs')
    \<and> obs' 0 = Some q' \<and> qps_counter q' = qps_counter q + of_nat (length is)"
  using assms(2)
proof (induction "is" arbitrary: obs q)
  case (Cons i "is")
  have "(obs(0 \<mapsto> increase q)) 0 = Some (increase q)" by simp
  from Cons.IH [of "obs(0 \<mapsto> increase q)" "increase q", OF this] obtain obs' q' where
    "local_calls e (map (benchmark_thread_call c) is) (obs(0 \<mapsto> increase q)) =
      Inr (map (\<lambda>i. Some (WStr (round_text i))) is, obs')"
    "obs' 0 = Some q'" "qps_counter q' = qps_counter (increase q) + of_nat (length is)"
    by blast
  then show ?case
    using benchmark_call_local [OF assms(1), of obs q c i, OF Cons.prems] by (simp add: increase_def)
qed simp

lemma benchmark_calls_ok:
  assumes "benchmark_service e"
  shows "list_all (call_ok wire_libs wire_has_type e) (map (benchmark_thread_call c) is)"
proof -
  note defs = GetName_def GetMethod_def GetService_def RpcClient_GetService_def ServiceHandle_def args_fit_def
    call_buffer_def PackArgsToBuffer_def method_typed_def future_type_def ptr_Echo_def ptr_SlowlyEcho_def
    Echo_def SlowlyEcho_def BaseFunctionTraits_def std_string_def wire_libs_simps
    wire_msgpack_def wire_pack_tuple_def be32_def
  have "call_ok wire_libs wire_has_type e (benchmark_thread_call c i)" for i
    using assms
    by (auto simp: call_ok_def call_fits_def result_fits_def benchmark_thread_call_def Let_def benchmark_service_def benchmark_executor_def defs)
  then show ?thesis by (simp add: list_all_length)
qed

text \<open>Its rounds give back the texts, and the counter has counted them.\<close>

lemma benchmark_session:
  assumes "length is \<le> 2 ^ 32"
  shows "\<exists>s e q. session wire_libs (\<lambda>_. None) [] 0 (map (benchmark_thread_call c) is)
      ((logging_initial, connected_client), (add_stream benchmark_executor)\<lparr>io_pool := pool\<rparr>) =
        Inr (map (\<lambda>i. Some (Inr (Some (WStr (round_text i))))) is, ((logging_initial, s), e))
    \<and> objects e 0 = Some q \<and> qps_counter q = of_nat (length is)"
proof -
  let ?e = "(add_stream benchmark_executor)\<lparr>io_pool := pool\<rparr>"
  have service: "benchmark_service ?e" and ob: "objects ?e 0 = Some Qps"
    by (simp_all add: add_stream_def benchmark_service_def)
      (simp_all add: benchmark_executor_def Executor_def default_options_def)
  have "server_ready wire_libs slq_data slq_data 0 (Start (AsioStream 0)) ?e"
    by (simp add: server_ready_def add_stream_def benchmark_executor_def Executor_def wire_libs_simps
        StdLockedQueue_def idle_def) (simp add: Start_def DoReadObjectID_def AsioStream_def)
  then have idle: "server_idle wire_libs slq_data slq_data 0 ?e"
    by (auto simp: server_idle_def Start_def DoReadObjectID_def AsioStream_def)
  have client: "client_idle (lb_order wire_libs) (length (map (benchmark_thread_call c) is)) connected_client"
    using assms by (intro client_idle_new) simp
  obtain obs' q where local: "local_calls ?e (map (benchmark_thread_call c) is) (objects ?e) =
      Inr (map (\<lambda>i. Some (WStr (round_text i))) is, obs')" "obs' 0 = Some q"
    "qps_counter q = qps_counter Qps + of_nat (length is)"
    using benchmark_calls_local [OF service, of "objects ?e" Qps c "is", OF ob] by blast
  from session_calls [OF wire_queues.executor_queues_axioms wire_codec client idle benchmark_calls_ok [OF service] local(1),
      of "\<lambda>_. None" "[]" logging_initial] local(2,3)
  show ?thesis by (auto simp: get_outcome_def comp_def Qps_def)
qed

section \<open>Properties\<close>



text \<open>
  The reports are right until the counter is reset: with fewer than 2 to the 32 calls,
  in every run in which the thread has not met the reset, the rates it has printed add up to the
  number of calls at its last report, and with the calls since then to the number of calls.
\<close>

theorem qps_reports_every_call:
  assumes "qps_run n (Inr q)" and "n < 2 ^ 32"
  shows "unat (qps_counter q) = n
    \<and> sum_list (map (\<lambda>(rate, _). unat rate) (qps_printed q)) + unat (qps_counter q - qps_last_counter q) = n"
  using qps_run_ok [OF assms refl] by (simp add: qps_ok_def unat_sub word_le_nat_alt)

text \<open>One call, a report, and two calls during its sleep with the report of the next round.\<close>

lemma qps_first_report: "qps_run 1 (Inr (qps_report (increase Qps)))"
proof -
  have "qps_run (Suc 0) (thread_step (increase Qps))" by (intro qps_thread qps_increase qps_start)
  then show ?thesis by (simp add: thread_step_def increase_def Qps_def)
qed

theorem qps_reports_every_call_witness:
  "\<exists>q. qps_run 3 (Inr q) \<and> qps_printed q = [(1, 1), (2, 3)]
    \<and> sum_list (map (\<lambda>(rate, _). unat rate) (qps_printed q)) + unat (qps_counter q - qps_last_counter q) = 3"
proof -
  let ?q3 = "increase (increase (qps_report (increase Qps)))"
  let ?q4 = "?q3\<lparr>qps_thd := Loop_head\<rparr>"
  note defs = thread_step_def increase_def qps_report_def Qps_def qps_wake_def Let_def
  have "qps_run (Suc (Suc 1)) (Inr ?q3)" by (intro qps_run.qps_increase qps_first_report)
  from qps_thread [OF this] have "qps_run (Suc (Suc 1)) (Inr ?q4)" by (simp add: defs)
  from qps_thread [OF this] have run: "qps_run 3 (Inr (qps_report ?q4))" by (simp add: defs eval_nat_numeral)
  from qps_reports_every_call [OF run] run show ?thesis
    by (intro exI [of _ "qps_report ?q4"]) (simp add: defs)
qed

text \<open>
  The thread ends: unless more than a hundred million calls were counted, the destructor
  returns, with the thread ended and no further report.
\<close>

theorem qps_thread_ends:
  assumes "qps_run n (Inr q)" and "n \<le> 100000000"
  shows "\<exists>q'. Qps_destructor q = Some (Inr q') \<and> qps_thd q' = Thread_ended \<and> qps_printed q' = qps_printed q"
proof (cases "qps_thd q")
  case Loop_head
  then show ?thesis using join_thd_at_head [of "Qps_stop q"] by (simp add: Qps_destructor_def Qps_stop_def)
next
  case (Sleeping c)
  have "qps_ok n q" using assms by (intro qps_run_ok [OF assms(1) _ refl]) simp
  with Sleeping assms(2) have "\<not> 100000000 < c" by (simp add: qps_ok_def word_less_nat_alt)
  with Sleeping have "thread_step (Qps_stop q) = Inr ((Qps_stop q)\<lparr>qps_thd := Loop_head\<rparr>)"
    by (simp add: thread_step_def Qps_stop_def qps_wake_def)
  from join_thd_step [OF _ this] join_thd_at_head [of "(Qps_stop q)\<lparr>qps_thd := Loop_head\<rparr>"] Sleeping
  show ?thesis by (simp add: Qps_destructor_def Qps_stop_def)
next
  case Thread_ended
  then show ?thesis using join_thd_ended [of "Qps_stop q"] by (simp add: Qps_destructor_def Qps_stop_def)
qed

theorem qps_thread_ends_witness:
  "\<exists>q'. Qps_destructor (qps_report (increase Qps)) = Some (Inr q') \<and> qps_thd q' = Thread_ended
    \<and> qps_printed q' = qps_printed (qps_report (increase Qps))"
  by (rule qps_thread_ends [OF qps_first_report]) simp

text \<open>
  After more than a hundred million calls the next report that starts is the end: when the
  thread is at the head of its loop, its report is followed by the store with an acquiring order,
  which is undefined behaviour.
\<close>

theorem qps_reset_undefined:
  assumes "qps_run n (Inr q)" and "100000000 < n" and "n < 2 ^ 32" and "qps_thd q = Loop_head"
  shows "res_bind (thread_step q) thread_step = Inl Invalid_memory_order"
proof -
  have "qps_ok n q" by (rule qps_run_ok [OF assms(1,3) refl])
  then have "\<not> qps_stop q" "100000000 < qps_counter q"
    using assms(2) by (simp_all add: qps_ok_def word_less_nat_alt)
  with assms(4) show ?thesis
    by (simp add: thread_step_def qps_report_def qps_wake_def atomic_store_def Let_def)
qed

theorem qps_reset_undefined_witness:
  "res_bind (thread_step (Qps\<lparr>qps_counter := of_nat 100000001\<rparr>)) thread_step = Inl Invalid_memory_order"
  by (rule qps_reset_undefined [OF qps_many_increases]) (simp_all add: Qps_def)

end
