(* ===== verification/Executor_Lifetime.thy ===== *)
theory Executor_Lifetime
  imports Rpc_System
begin

text \<open>
  The executor's threads as whole functions, from their start to their end, and the destructor
  that joins them. A thread's function is a loop without an exit: each round acts on the executor
  as the other threads have left it. The result is \<open>None\<close> for a loop that goes on for ever,
  \<open>Some (Inr ())\<close> for a function that returns and \<open>Some (Inl f)\<close> for one that ends the process.
\<close>

section \<open>Loops without an exit\<close>

partial_function (option) endless :: "('e \<Rightarrow> 'e res) \<Rightarrow> (nat \<Rightarrow> 'e \<Rightarrow> 'e) \<Rightarrow> nat \<Rightarrow> 'e \<Rightarrow> unit res option" where
  "endless round others i e =
     (case round e of Inl f \<Rightarrow> Some (Inl f) | Inr e' \<Rightarrow> endless round others (Suc i) (others i e'))"

text \<open>The state before the k-th round, if no round before it fails.\<close>

fun before_round :: "('e \<Rightarrow> 'e res) \<Rightarrow> (nat \<Rightarrow> 'e \<Rightarrow> 'e) \<Rightarrow> nat \<Rightarrow> nat \<Rightarrow> 'e \<Rightarrow> 'e res" where
  "before_round round others i 0 e = Inr e"
| "before_round round others i (Suc k) e =
     res_bind (round e) (\<lambda>e. before_round round others (Suc i) k (others i e))"

lemma endless_fails:
  "before_round round others i k e = Inl f \<Longrightarrow> endless round others i e = Some (Inl f)"
proof (induction k arbitrary: i e)
  case (Suc k)
  then show ?case by (cases "round e") (simp_all add: endless.simps [of round others i e])
qed simp

lemma endless_ended:
  fixes round :: "'e \<Rightarrow> 'e res"
  assumes "endless round others i e = Some r"
  shows "\<exists>k f. r = Inl f \<and> before_round round others i k e = Inl f"
proof (rule endless.raw_induct
    [where P = "\<lambda>round others i e r. \<exists>k f. r = Inl f \<and> before_round round others i k e = Inl f", OF _ assms])
  fix loop and round :: "'e \<Rightarrow> 'e res" and others i e r
  assume IH: "\<And>round others i e r. loop round others i e = Some r \<Longrightarrow>
      \<exists>k f. r = Inl f \<and> before_round round others i k e = Inl f"
    and eq: "(case round e of Inl f \<Rightarrow> Some (Inl f) | Inr e' \<Rightarrow> loop round others (Suc i) (others i e')) = Some r"
  show "\<exists>k f. r = Inl f \<and> before_round round others i k e = Inl f"
  proof (cases "round e")
    case (Inl f)
    with eq have "r = Inl f \<and> before_round round others i (Suc 0) e = Inl f" by simp
    then show ?thesis by blast
  next
    case (Inr e')
    with eq have "loop round others (Suc i) (others i e') = Some r" by simp
    from IH [OF this] obtain k f where "r = Inl f" "before_round round others (Suc i) k (others i e') = Inl f"
      by blast
    with Inr have "r = Inl f \<and> before_round round others i (Suc k) e = Inl f" by simp
    then show ?thesis by blast
  qed
qed

lemma endless_never_returns: "endless round others i e \<noteq> Some (Inr u)"
  using endless_ended by fastforce

lemma endless_iff: "endless round others i e = None \<longleftrightarrow> (\<forall>k f. before_round round others i k e \<noteq> Inl f)"
proof (cases "endless round others i e")
  case None
  then show ?thesis using endless_fails [of round others i _ e] by force
next
  case (Some r)
  from endless_ended [OF this] Some show ?thesis by auto
qed

lemma before_round_invariant:
  assumes "\<And>e. I e \<Longrightarrow> \<exists>e'. round e = Inr e' \<and> I e'" and "\<And>i e. I e \<Longrightarrow> I (others i e)" and "I e"
  shows "\<exists>e'. before_round round others i k e = Inr e' \<and> I e'"
  using assms(3)
proof (induction k arbitrary: i e)
  case (Suc k)
  obtain e' where "round e = Inr e'" "I e'" using assms(1) [OF Suc.prems] by blast
  with Suc.IH [OF assms(2) [OF this(2)]] show ?case by simp
qed simp

lemma endless_runs:
  assumes "\<And>e. I e \<Longrightarrow> \<exists>e'. round e = Inr e' \<and> I e'" and "\<And>i e. I e \<Longrightarrow> I (others i e)" and "I e"
  shows "endless round others i e = None"
proof -
  have "\<exists>e'. before_round round others i k e = Inr e' \<and> I e'" for k
    using assms by (rule before_round_invariant)
  then show ?thesis unfolding endless_iff by (metis Inl_Inr_False)
qed

section \<open>The threads' functions and the destructor\<close>

definition LoopToPerformRequest ::
  "('v, 'o, 'q, 'r) libs \<Rightarrow> (nat \<Rightarrow> ('s, 'v, 'q, 'r) executor \<Rightarrow> ('s, 'v, 'q, 'r) executor) \<Rightarrow>
   ('s, 'v, 'q, 'r) executor \<Rightarrow> unit res option" where
  "LoopToPerformRequest lb others e = endless (work_once lb) others 0 e"

definition LoopToWriteResponse ::
  "('v, 'o, 'q, 'r) libs \<Rightarrow> (nat \<Rightarrow> ('s, 'v, 'q, 'r) executor \<Rightarrow> ('s, 'v, 'q, 'r) executor) \<Rightarrow>
   ('s, 'v, 'q, 'r) executor \<Rightarrow> unit res option" where
  "LoopToWriteResponse lb others e = endless (write_once lb) others 0 e"

text \<open>\<^verbatim>\<open>th.join()\<close> for each thread of a pool, one after the other.\<close>

fun join_all :: "unit res option list \<Rightarrow> unit res option" where
  "join_all [] = Some (Inr ())"
| "join_all (None # ths) = None"
| "join_all (Some (Inl f) # ths) = Some (Inl f)"
| "join_all (Some (Inr u) # ths) = join_all ths"

text \<open>
  \<open>others\<close> is what the rest of the process does to the executor between the rounds of each worker
  and each writer.
\<close>

definition Executor_destructor ::
  "('v, 'o, 'q, 'r) libs \<Rightarrow> (nat + nat \<Rightarrow> nat \<Rightarrow> ('s, 'v, 'q, 'r) executor \<Rightarrow> ('s, 'v, 'q, 'r) executor) \<Rightarrow>
   ('s, 'v, 'q, 'r) executor \<Rightarrow> unit res option" where
  "Executor_destructor lb others e =
     (case join_all (map (\<lambda>k. LoopToPerformRequest lb (others (Inl k)) e) [0..<work_thread_pool e]) of
        Some (Inr u) \<Rightarrow> join_all (map (\<lambda>k. LoopToWriteResponse lb (others (Inr k)) e) [0..<write_thread_pool e])
      | r \<Rightarrow> r)"

lemma join_all_ended:
  assumes "join_all ths = Some (Inr u)" and "th \<in> set ths"
  shows "\<exists>u. th = Some (Inr u)"
  using assms by (induction ths rule: join_all.induct) auto

lemma join_all_waits: "ths \<noteq> [] \<Longrightarrow> \<forall>th \<in> set ths. th = None \<Longrightarrow> join_all ths = None"
  by (cases ths) auto

text \<open>
  What the monitor thread prints in each round. \<^verbatim>\<open>GetSize\<close> of both queues is that of
  \<^verbatim>\<open>BoostLockFreeQueue\<close>.
\<close>

definition monitor_line :: "('v, 'o, 'q, 'r) libs \<Rightarrow> ('s, 'v, 'q, 'r) executor \<Rightarrow> string" where
  "monitor_line lb e =
     ''request queue size = '' @ to_string (unat (BoostLockFreeQueue_GetSize (lb_requests lb) (request_queue e))) @ [CHR 0x0A]
     @ ''response queue size = '' @ to_string (unat (BoostLockFreeQueue_GetSize (lb_responses lb) (response_queue e))) @ [CHR 0x0A]"

definition monitor_round ::
  "('v, 'o, 'q, 'r) libs \<Rightarrow> ('s, 'v, 'q, 'r) executor \<times> string list \<Rightarrow> (('s, 'v, 'q, 'r) executor \<times> string list) res" where
  "monitor_round lb m = (case m of (e, printed) \<Rightarrow> Inr (e, printed @ [monitor_line lb e]))"

definition monitor_th ::
  "('v, 'o, 'q, 'r) libs \<Rightarrow> (nat \<Rightarrow> ('s, 'v, 'q, 'r) executor \<Rightarrow> ('s, 'v, 'q, 'r) executor) \<Rightarrow>
   ('s, 'v, 'q, 'r) executor \<Rightarrow> unit res option" where
  "monitor_th lb others e = endless (monitor_round lb) (\<lambda>i (e, printed). (others i e, printed)) 0 (e, [])"

text \<open>
  \<^verbatim>\<open>io_service_.run()\<close> in \<^verbatim>\<open>Loop\<close>: a round is the handler of the accept that is outstanding.
  An accept on an acceptor that is closed fails at once, as Boost.Asio documents; on an open one
  \<open>error\<close> says whether it fails.
\<close>

definition accept_round :: "bool \<Rightarrow> ('s, 'v, 'q, 'r) executor \<Rightarrow> ('s, 'v, 'q, 'r) executor res" where
  "accept_round error e = on_accept (case acceptor e of None \<Rightarrow> True | Some (_, opened) \<Rightarrow> error \<or> \<not> opened) e"

definition run_accepts ::
  "bool \<Rightarrow> (nat \<Rightarrow> ('s, 'v, 'q, 'r) executor \<Rightarrow> ('s, 'v, 'q, 'r) executor) \<Rightarrow> ('s, 'v, 'q, 'r) executor \<Rightarrow>
   unit res option" where
  "run_accepts error others e = endless (accept_round error) others 0 e"

section \<open>Lemmas\<close>

lemma closed_accept_round:
  assumes "acceptor e = Some (addr, False)" and "pool_ok n (io_pool e)"
  shows "\<exists>pool. accept_round error e = Inr (e\<lparr>io_pool := pool\<rparr>) \<and> pool_ok n pool"
  using DoAccept_ok [OF assms(2)] assms(1) by (simp add: accept_round_def on_accept_eq)

lemma monitor_prints_zero:
  "monitor_line lb e = ''request queue size = 0'' @ [CHR 0x0A] @ ''response queue size = 0'' @ [CHR 0x0A]"
  by (simp add: monitor_line_def BoostLockFreeQueue_GetSize_def to_string.simps) (simp add: digit_char_def, code_simp)

lemma monitor_for_ever: "monitor_th lb others e = None"
  unfolding monitor_th_def by (rule endless_runs [where I = "\<lambda>_. True"]) (auto simp: monitor_round_def split: prod.splits)

text \<open>An executor with nothing to do.\<close>

definition quiet ::
  "('q \<Rightarrow> 'o DousiRequest list) \<Rightarrow> ('r \<Rightarrow> DousiResponse list) \<Rightarrow> ('s, 'v, 'q, 'r) executor \<Rightarrow> bool" where
  "quiet rq rs e \<longleftrightarrow> rq (request_queue e) = [] \<and> rs (response_queue e) = []"

context executor_queues
begin

lemma quiet_rounds:
  assumes "quiet rq rs e"
  shows "work_once lb e = Inr e" and "write_once lb e = Inr e"
proof -
  have "lf_pop (lb_requests lb) (request_queue e) = None" "lf_pop (lb_responses lb) (response_queue e) = None"
    using assms by (simp_all add: quiet_def req.boost_pop_fails rsp.boost_pop_fails)
  then show "work_once lb e = Inr e" "write_once lb e = Inr e"
    by (simp_all add: work_once_def write_once_def)
qed

lemma quiet_loops:
  assumes "quiet rq rs e" and "\<And>i e. quiet rq rs e \<Longrightarrow> quiet rq rs (others i e)"
  shows "LoopToPerformRequest lb others e = None" and "LoopToWriteResponse lb others e = None"
  unfolding LoopToPerformRequest_def LoopToWriteResponse_def
  by (rule endless_runs [where I = "quiet rq rs"]; use assms quiet_rounds in blast)+

lemma destructor_waits:
  assumes "quiet rq rs e" and "\<And>th i e. quiet rq rs e \<Longrightarrow> quiet rq rs (others th i e)" and "0 < write_thread_pool e"
  shows "Executor_destructor lb others e = None"
proof -
  have loops: "LoopToPerformRequest lb (others th) e = None" "LoopToWriteResponse lb (others th) e = None" for th
    using quiet_loops [OF assms(1), of "others th"] assms(2) by blast+
  then have "join_all (map (\<lambda>k. LoopToWriteResponse lb (others (Inr k)) e) [0..<write_thread_pool e]) = None"
    using assms(3) by (intro join_all_waits) auto
  moreover have "work_thread_pool e \<noteq> 0 \<Longrightarrow>
      join_all (map (\<lambda>k. LoopToPerformRequest lb (others (Inl k)) e) [0..<work_thread_pool e]) = None"
    using loops by (intro join_all_waits) auto
  ultimately show ?thesis
    by (cases "work_thread_pool e = 0") (auto simp: Executor_destructor_def)
qed

end

section \<open>Properties\<close>

text \<open>
  C28: the executor's destructor never returns: it joins threads whose functions have no exit,
  so it blocks for ever or one of them ends the process with a fault; and with empty queues
  that stay empty it blocks for ever.
\<close>

theorem executor_never_joined:
  assumes "executor_queues lb rq rs" and "0 < write_thread_pool e"
  shows "Executor_destructor lb others e \<noteq> Some (Inr u)
    \<and> (quiet rq rs e \<and> (\<forall>th i e. quiet rq rs e \<longrightarrow> quiet rq rs (others th i e)) \<longrightarrow>
        Executor_destructor lb others e = None)"
proof
  show "Executor_destructor lb others e \<noteq> Some (Inr u)"
  proof
    assume "Executor_destructor lb others e = Some (Inr u)"
    then have "join_all (map (\<lambda>k. LoopToWriteResponse lb (others (Inr k)) e) [0..<write_thread_pool e]) = Some (Inr u)"
      by (auto simp: Executor_destructor_def split: option.splits sum.splits)
    from join_all_ended [OF this, of "LoopToWriteResponse lb (others (Inr 0)) e"] assms(2) show False
      by (auto simp: LoopToWriteResponse_def endless_never_returns)
  qed
  show "quiet rq rs e \<and> (\<forall>th i e. quiet rq rs e \<longrightarrow> quiet rq rs (others th i e)) \<longrightarrow>
      Executor_destructor lb others e = None"
    using executor_queues.destructor_waits [OF assms(1), of e others] assms(2) by blast
qed

text \<open>The example server, when its program ends without having received anything.\<close>

theorem executor_never_joined_witness:
  "Executor_destructor wire_libs (\<lambda>_ _ e. e) example_executor = None"
proof -
  have pool: "0 < write_thread_pool example_executor" by (simp add: example_executor_def Executor_def)
  have "quiet slq_data slq_data example_executor"
    by (simp add: quiet_def example_executor_def Executor_def wire_libs_simps StdLockedQueue_def)
  with executor_never_joined [OF wire_queues.executor_queues_axioms pool, of "\<lambda>_ _ e. e" "()"] show ?thesis by simp
qed



end
