(* ===== verification/Stateless_Runs.thy ===== *)
theory Stateless_Runs
  imports Server_Safety
begin

text \<open>
  What the server writes. The events of a run name calls by connection and id only; here the
  contents are followed, for runs in which every message is a call that leaves its object as it is:
  whatever the interleaving, each connection is sent one response per message it sent, with the
  result of the call, in some order.
\<close>

section \<open>Calls that leave their object unchanged\<close>

definition same_service :: "('s, 'v, 'q, 'r) executor \<Rightarrow> ('s, 'v, 'q, 'r) executor \<Rightarrow> bool" where
  "same_service e0 e \<longleftrightarrow> registered_methods e = registered_methods e0 \<and> instances e = instances e0
     \<and> objects e = objects e0"

definition returns_unchanged ::
  "('v, 'o, 'q, 'r) libs \<Rightarrow> ('s, 'v, 'q, 'r) executor \<Rightarrow> 'o \<Rightarrow> string \<Rightarrow> bytes \<Rightarrow> bool" where
  "returns_unchanged lb e unpacked name bs \<longleftrightarrow>
     (\<exists>cl d ob. registered_methods e name = Some (Some cl) \<and> instances e (cl_service_instance cl) = Some d
        \<and> objects e (service_object d) = Some ob
        \<and> InvokeHelper_Invoke (lb_msgpack lb) (cl_method cl) ob unpacked [] = Inr (bs, ob))"

text \<open>The result, as a function.\<close>

definition result_of :: "('v, 'o, 'q, 'r) libs \<Rightarrow> ('s, 'v, 'q, 'r) executor \<Rightarrow> 'o \<Rightarrow> string \<Rightarrow> bytes" where
  "result_of lb e unpacked name = (case registered_methods e name of
       Some (Some cl) \<Rightarrow> (case call_closure lb cl unpacked [] e of Inl _ \<Rightarrow> [] | Inr (bs, _) \<Rightarrow> bs)
     | _ \<Rightarrow> [])"

lemma result_of_unchanged: "returns_unchanged lb e unpacked name bs \<Longrightarrow> result_of lb e unpacked name = bs"
  by (auto simp: returns_unchanged_def result_of_def call_closure_def)

text \<open>Requests and messages, and the responses they will have.\<close>

definition stateless_request :: "('v, 'o, 'q, 'r) libs \<Rightarrow> ('s, 'v, 'q, 'r) executor \<Rightarrow> 'o DousiRequest \<Rightarrow> bool" where
  "stateless_request lb e r \<longleftrightarrow> (\<exists>bs. returns_unchanged lb e (req_unpacked r) (req_method_name r) bs)"

definition request_response ::
  "('v, 'o, 'q, 'r) libs \<Rightarrow> ('s, 'v, 'q, 'r) executor \<Rightarrow> 'o DousiRequest \<Rightarrow> DousiResponse" where
  "request_response lb e r = \<lparr>rsp_object_id = req_object_id r, rsp_stream_id = req_stream_id r,
     rsp_result = result_of lb e (req_unpacked r) (req_method_name r)\<rparr>"

definition stateless_message :: "('v, 'o, 'q, 'r) libs \<Rightarrow> ('s, 'v, 'q, 'r) executor \<Rightarrow> message \<Rightarrow> bool" where
  "stateless_message lb e m \<longleftrightarrow> (\<exists>unpacked service name bs. mp_unpack (lb_msgpack lb) (snd (snd m)) = Inr unpacked
     \<and> mp_as_names (lb_msgpack lb) unpacked = Inr (service, name) \<and> returns_unchanged lb e unpacked name bs)"

definition message_result :: "('v, 'o, 'q, 'r) libs \<Rightarrow> ('s, 'v, 'q, 'r) executor \<Rightarrow> bytes \<Rightarrow> bytes" where
  "message_result lb e buffer = (case mp_unpack (lb_msgpack lb) buffer of Inl _ \<Rightarrow> [] | Inr unpacked \<Rightarrow>
     (case mp_as_names (lb_msgpack lb) unpacked of Inl _ \<Rightarrow> []
      | Inr (service, name) \<Rightarrow> result_of lb e unpacked name))"

definition message_response :: "('v, 'o, 'q, 'r) libs \<Rightarrow> ('s, 'v, 'q, 'r) executor \<Rightarrow> message \<Rightarrow> DousiResponse" where
  "message_response lb e m = \<lparr>rsp_object_id = fst (snd m), rsp_stream_id = fst m,
     rsp_result = message_result lb e (snd (snd m))\<rparr>"

text \<open>Such a request is answered without a change; performing it adds its response and changes nothing else.\<close>

lemma compute_stateless:
  assumes "stateless_request lb e0 r" and "same_service e0 e"
  shows "compute_response lb r e = Inr (request_response lb e0 r, e)"
proof -
  obtain bs where returns: "returns_unchanged lb e0 (req_unpacked r) (req_method_name r) bs"
    using assms(1) by (auto simp: stateless_request_def)
  note bs = result_of_unchanged [OF returns]
  obtain cl d ob where c: "registered_methods e0 (req_method_name r) = Some (Some cl)"
    "instances e0 (cl_service_instance cl) = Some d" "objects e0 (service_object d) = Some ob"
    "InvokeHelper_Invoke (lb_msgpack lb) (cl_method cl) ob (req_unpacked r) [] = Inr (bs, ob)"
    using returns by (auto simp: returns_unchanged_def)
  have "objects e (service_object d) = Some ob" using c(3) assms(2) by (simp add: same_service_def)
  then have "e\<lparr>objects := (objects e)(service_object d \<mapsto> ob)\<rparr> = e" by (simp add: map_upd_triv)
  with c bs assms(2) show ?thesis
    by (simp add: compute_response_def find_method_def call_closure_def same_service_def request_response_def)
qed

lemma perform_stateless:
  assumes "stateless_request lb e0 r" and "same_service e0 e"
  shows "PerformRequest lb r e = Inr (push_response lb (request_response lb e0 r) e)"
  by (simp add: PerformRequest_def compute_stateless [OF assms])

section \<open>Runs with the messages they have read\<close>

inductive stateless_run ::
  "('v, 'o, 'q, 'r) libs \<Rightarrow> ('s, 'v, 'q, 'r) executor \<Rightarrow> message list \<Rightarrow>
   ('s, 'v, 'o, 'q, 'r) server_threads \<Rightarrow> bool" for lb e where
  stateless_start: "stateless_run lb e [] (start_threads e)"
| stateless_internal: "stateless_run lb e ms t \<Longrightarrow> internal_step lb t ev (Inr t') \<Longrightarrow> stateless_run lb e ms t'"
| stateless_connection: "stateless_run lb e ms t \<Longrightarrow> unat (curr_stream_id (shared t)) + 1 < 2 ^ 64 \<Longrightarrow>
    on_accept failed (shared t) = Inr e' \<Longrightarrow> stateless_run lb e ms (t\<lparr>shared := e'\<rparr>)"
| stateless_bytes: "stateless_run lb e ms t \<Longrightarrow> streams (shared t) sid = Some st \<Longrightarrow>
    list_all (stateless_message lb e) (snd (receive (lb_order lb) bs st)) \<Longrightarrow>
    on_bytes lb sid bs (shared t) = Inr e' \<Longrightarrow>
    stateless_run lb e (ms @ snd (receive (lb_order lb) bs st)) (t\<lparr>shared := e'\<rparr>)"

lemma stateless_run_is_run:
  assumes "stateless_run lb e ms t"
  shows "\<exists>evs. server_run lb (start_threads e) evs (Inr t)"
  using assms
proof induction
  case stateless_start
  show ?case using run_start by blast
next
  case (stateless_internal ms t ev t')
  then show ?case using run_internal by blast
next
  case (stateless_connection ms t failed e')
  then obtain evs where "server_run lb (start_threads e) evs (Inr t)" by blast
  from run_external [OF this connection [OF stateless_connection.hyps(2), where failed = failed]] show ?case
    using stateless_connection.hyps(3) by auto
next
  case (stateless_bytes ms t sid st bs e')
  then obtain evs where "server_run lb (start_threads e) evs (Inr t)" by blast
  from run_external [OF this bytes_arrive [where stream_id = sid and bs = bs]] show ?case
    using stateless_bytes.hyps(4) by auto
qed

section \<open>What is written and what is still to be written\<close>

definition writes_of :: "('s, 'v, 'q, 'r) executor \<Rightarrow> u64 \<Rightarrow> bytes list" where
  "writes_of e sid = (case streams e sid of None \<Rightarrow> [] | Some st \<Rightarrow> strm_writes st)"

definition frames_for :: "byte_order \<Rightarrow> u64 \<Rightarrow> DousiResponse multiset \<Rightarrow> bytes multiset" where
  "frames_for en sid M =
     image_mset (\<lambda>x. frame en (rsp_object_id x, rsp_result x)) (filter_mset (\<lambda>x. rsp_stream_id x = sid) M)"

lemma frames_for_simps [simp]:
  "frames_for en sid {#} = {#}" "frames_for en sid (A + B) = frames_for en sid A + frames_for en sid B"
  "frames_for en sid (add_mset x A) =
    (if rsp_stream_id x = sid then add_mset (frame en (rsp_object_id x, rsp_result x)) (frames_for en sid A)
     else frames_for en sid A)"
  by (simp_all add: frames_for_def)

definition queued_responses ::
  "('v, 'o, 'q, 'r) libs \<Rightarrow> ('q \<Rightarrow> 'o DousiRequest list) \<Rightarrow> ('r \<Rightarrow> DousiResponse list) \<Rightarrow>
   ('s, 'v, 'q, 'r) executor \<Rightarrow> ('s, 'v, 'q, 'r) executor \<Rightarrow> DousiResponse multiset" where
  "queued_responses lb rq rs e0 e =
     image_mset (request_response lb e0) (mset (rq (request_queue e))) + mset (rs (response_queue e))"

definition pending_responses ::
  "('v, 'o, 'q, 'r) libs \<Rightarrow> ('q \<Rightarrow> 'o DousiRequest list) \<Rightarrow> ('r \<Rightarrow> DousiResponse list) \<Rightarrow>
   ('s, 'v, 'q, 'r) executor \<Rightarrow> ('s, 'v, 'o, 'q, 'r) server_threads \<Rightarrow> DousiResponse multiset" where
  "pending_responses lb rq rs e0 t = queued_responses lb rq rs e0 (shared t)
     + image_mset (request_response lb e0) (mset (performing (workers t)))
     + mset (pushing (workers t)) + mset (busy (writers t))"

definition all_stateless ::
  "('v, 'o, 'q, 'r) libs \<Rightarrow> ('q \<Rightarrow> 'o DousiRequest list) \<Rightarrow> ('s, 'v, 'q, 'r) executor \<Rightarrow>
   ('s, 'v, 'o, 'q, 'r) server_threads \<Rightarrow> bool" where
  "all_stateless lb rq e0 t \<longleftrightarrow> same_service e0 (shared t)
     \<and> (\<forall>r \<in> set (rq (request_queue (shared t))) \<union> set (performing (workers t)). stateless_request lb e0 r)"

definition accounted ::
  "('v, 'o, 'q, 'r) libs \<Rightarrow> ('q \<Rightarrow> 'o DousiRequest list) \<Rightarrow> ('r \<Rightarrow> DousiResponse list) \<Rightarrow>
   ('s, 'v, 'q, 'r) executor \<Rightarrow> message list \<Rightarrow> ('s, 'v, 'o, 'q, 'r) server_threads \<Rightarrow> bool" where
  "accounted lb rq rs e0 ms t \<longleftrightarrow> (\<forall>sid.
     mset (writes_of (shared t) sid) + frames_for (lb_order lb) sid (pending_responses lb rq rs e0 t) =
     mset (writes_of e0 sid) + frames_for (lb_order lb) sid (mset (map (message_response lb e0) ms)))"

text \<open>New connections are written nothing.\<close>

lemma on_accept_writes:
  assumes "on_accept failed e = Inr e'" and "streams_ok e"
  shows "writes_of e' = writes_of e \<and> same_service e e' \<and> request_queue e' = request_queue e
    \<and> response_queue e' = response_queue e"
proof -
  have "streams e (curr_stream_id e) = None"
    using assms(2) by (cases "streams e (curr_stream_id e)") (auto simp: streams_ok_def)
  then have "writes_of (add_stream e) = writes_of e"
    by (auto simp: writes_of_def add_stream_def fun_eq_iff Start_def DoReadObjectID_def AsioStream_def)
  moreover have "writes_of (e\<lparr>io_pool := p\<rparr>) = writes_of e" for e :: "('a, 'b, 'c, 'd) executor" and p
    by (simp add: writes_of_def fun_eq_iff)
  ultimately show ?thesis
    using assms(1)
    by (auto simp: on_accept_eq DoAccept_def res_bind_Inr_iff same_service_def add_stream_def split: if_splits prod.splits)
qed

lemma write_response_writes:
  assumes "write_response lb x e = Inr e'"
  shows "mset (writes_of e' sid) = mset (writes_of e sid) + frames_for (lb_order lb) sid {#x#}
    \<and> same_service e e' \<and> request_queue e' = request_queue e \<and> response_queue e' = response_queue e"
  using assms
  by (auto simp: write_response_def writes_of_def same_service_def Write_def frame_def split: option.splits)

lemma same_service_trans: "same_service e0 e \<Longrightarrow> same_service e e' \<Longrightarrow> same_service e0 e'"
  by (simp add: same_service_def)

lemma same_service_frame [simp]:
  "same_service e0 (e\<lparr>request_queue := q\<rparr>) = same_service e0 e"
  "same_service e0 (e\<lparr>response_queue := p\<rparr>) = same_service e0 e"
  "same_service e0 (e\<lparr>streams := sts\<rparr>) = same_service e0 e"
  "same_service e0 (push_response lb x e) = same_service e0 e"
  by (simp_all add: same_service_def push_response_def)

lemma writes_of_frame [simp]:
  "writes_of (e\<lparr>request_queue := q\<rparr>) = writes_of e" "writes_of (e\<lparr>response_queue := p\<rparr>) = writes_of e"
  "writes_of (push_response lb x e) = writes_of e"
  by (simp_all add: writes_of_def fun_eq_iff push_response_def)

context executor_queues
begin

lemma queued_responses_frame [simp]:
  "queued_responses lb rq rs e0 (push_response lb x e) = add_mset x (queued_responses lb rq rs e0 e)"
  "queued_responses lb rq rs e0 (e\<lparr>streams := sts\<rparr>) = queued_responses lb rq rs e0 e"
  by (simp_all add: queued_responses_def push_response_def rsp.contents_push)

lemma invoke_stateless:
  assumes "stateless_message lb e0 (sid, oid, buffer)" and "same_service e0 e"
  shows "\<exists>e'. InvokeMethod lb sid oid buffer e = Inr e' \<and> same_service e0 e' \<and> writes_of e' = writes_of e
    \<and> queued_responses lb rq rs e0 e' =
        add_mset (message_response lb e0 (sid, oid, buffer)) (queued_responses lb rq rs e0 e)
    \<and> (\<forall>r \<in> set (rq (request_queue e')). r \<in> set (rq (request_queue e)) \<or> stateless_request lb e0 r)"
proof -
  obtain unpacked service name bs where b: "mp_unpack (lb_msgpack lb) buffer = Inr unpacked"
    "mp_as_names (lb_msgpack lb) unpacked = Inr (service, name)" "returns_unchanged lb e0 unpacked name bs"
    using assms(1) by (auto simp: stateless_message_def)
  let ?r = "\<lparr>req_object_id = oid, req_stream_id = sid, req_unpacked = unpacked, req_method_name = name\<rparr>"
  have r: "stateless_request lb e0 ?r" using b(3) by (auto simp: stateless_request_def)
  have response: "message_response lb e0 (sid, oid, buffer) = request_response lb e0 ?r"
    by (simp add: message_response_def message_result_def request_response_def b(1,2))
  show ?thesis
  proof (cases "0 < work_thread_num (executor_options e)")
    case True
    with b(1,2) r assms(2) response show ?thesis
      by (simp add: InvokeMethod_def Let_def queued_responses_def req.contents_push)
  next
    case False
    with b(1,2) perform_stateless [OF r assms(2)] assms(2) response show ?thesis
      by (simp add: InvokeMethod_def Let_def) (simp add: push_response_def)
  qed
qed

lemma invoke_messages_stateless:
  assumes "list_all (stateless_message lb e0) ms" and "same_service e0 e"
  shows "\<exists>e'. invoke_messages lb ms e = Inr e' \<and> same_service e0 e' \<and> writes_of e' = writes_of e
    \<and> queued_responses lb rq rs e0 e' = mset (map (message_response lb e0) ms) + queued_responses lb rq rs e0 e
    \<and> (\<forall>r \<in> set (rq (request_queue e')). r \<in> set (rq (request_queue e)) \<or> stateless_request lb e0 r)"
  using assms
proof (induction ms arbitrary: e)
  case (Cons m ms)
  obtain sid oid buffer where m: "m = (sid, oid, buffer)" by (cases m)
  have first: "stateless_message lb e0 (sid, oid, buffer)" and rest: "list_all (stateless_message lb e0) ms"
    using Cons.prems(1) by (simp_all add: m)
  obtain e1 where e1: "InvokeMethod lb sid oid buffer e = Inr e1" "same_service e0 e1" "writes_of e1 = writes_of e"
    "queued_responses lb rq rs e0 e1 = add_mset (message_response lb e0 m) (queued_responses lb rq rs e0 e)"
    "\<forall>r \<in> set (rq (request_queue e1)). r \<in> set (rq (request_queue e)) \<or> stateless_request lb e0 r"
    using invoke_stateless [OF first Cons.prems(2)] by (auto simp: m)
  obtain e2 where e2: "invoke_messages lb ms e1 = Inr e2" "same_service e0 e2" "writes_of e2 = writes_of e1"
    "queued_responses lb rq rs e0 e2 = mset (map (message_response lb e0) ms) + queued_responses lb rq rs e0 e1"
    "\<forall>r \<in> set (rq (request_queue e2)). r \<in> set (rq (request_queue e1)) \<or> stateless_request lb e0 r"
    using Cons.IH [OF rest e1(2)] by blast
  with e1 show ?case by (intro exI [of _ e2]) (auto simp: m)
qed simp

lemma on_bytes_stateless:
  assumes "on_bytes lb sid bs e = Inr e'" and "streams e sid = Some st" and "same_service e0 e"
    and "list_all (stateless_message lb e0) (snd (receive (lb_order lb) bs st))"
  shows "same_service e0 e' \<and> writes_of e' = writes_of e
    \<and> queued_responses lb rq rs e0 e' =
        mset (map (message_response lb e0) (snd (receive (lb_order lb) bs st))) + queued_responses lb rq rs e0 e
    \<and> (\<forall>r \<in> set (rq (request_queue e')). r \<in> set (rq (request_queue e)) \<or> stateless_request lb e0 r)"
proof -
  let ?e = "e\<lparr>streams := (streams e)(sid \<mapsto> fst (receive (lb_order lb) bs st))\<rparr>"
  have "same_service e0 ?e" using assms(3) by simp
  from invoke_messages_stateless [OF assms(4) this] assms(1,2)
  have "same_service e0 e' \<and> writes_of e' = writes_of ?e
    \<and> queued_responses lb rq rs e0 e' =
        mset (map (message_response lb e0) (snd (receive (lb_order lb) bs st))) + queued_responses lb rq rs e0 e
    \<and> (\<forall>r \<in> set (rq (request_queue e')). r \<in> set (rq (request_queue e)) \<or> stateless_request lb e0 r)"
    by (auto simp: on_bytes_def)
  moreover have "writes_of ?e = writes_of e"
    using assms(2) by (auto simp: writes_of_def fun_eq_iff)
  ultimately show ?thesis by simp
qed

lemma internal_step_stateless:
  assumes "internal_step lb t ev (Inr t')" and "all_stateless lb rq e0 t"
  shows "all_stateless lb rq e0 t' \<and> (\<forall>sid.
    mset (writes_of (shared t') sid) + frames_for (lb_order lb) sid (pending_responses lb rq rs e0 t') =
    mset (writes_of (shared t) sid) + frames_for (lb_order lb) sid (pending_responses lb rq rs e0 t))"
  using assms(1)
proof (cases rule: internal_step.cases)
  case (worker_pops i r q)
  from req.pop_Some [OF worker_pops(5)] job_taken [OF worker_pops(3,4), of r] worker_pops(2) assms(2)
  show ?thesis
    using job_sets(1) [OF worker_pops(3,4), of r]
    by (auto simp: all_stateless_def pending_responses_def queued_responses_def)
next
  case (worker_performs i r)
  let ?x = "request_response lb e0 r"
  note held = job_performed [OF worker_performs(3,4), of ?x] job_sets(2) [OF worker_performs(3,4), of ?x]
  have r: "stateless_request lb e0 r" "same_service e0 (shared t)"
    using assms(2) held(2) by (auto simp: all_stateless_def)
  from worker_performs(2) compute_stateless [OF r] have
    t': "t' = t\<lparr>workers := (workers t)[i := Some (Pushes ?x)]\<rparr>"
    by simp
  then show ?thesis
    using assms(2) held by (auto simp: all_stateless_def pending_responses_def)
next
  case (worker_pushes i x)
  with assms(2) job_pushed [OF worker_pushes(3,4)] show ?thesis
    by (auto simp: all_stateless_def pending_responses_def push_response_def)
      (simp_all add: queued_responses_def rsp.contents_push writes_of_def)
next
  case (writer_pops i x q)
  from rsp.pop_Some [OF writer_pops(5)] busy_take [OF writer_pops(3,4), of x] writer_pops(2) assms(2)
  show ?thesis
    by (auto simp: all_stateless_def pending_responses_def queued_responses_def)
next
  case (writer_writes i x)
  then obtain e where e: "write_response lb x (shared t) = Inr e"
    "t' = t\<lparr>shared := e, writers := (writers t)[i := None]\<rparr>"
    by (auto simp: Inr_res_bind_iff)
  from write_response_writes [OF e(1)] busy_release [OF writer_writes(3,4)] e(2) assms(2) show ?thesis
    by (auto simp: all_stateless_def pending_responses_def queued_responses_def intro: same_service_trans)
qed

lemma stateless_run_accounted:
  assumes "stateless_run lb e ms t" and "serving rq rs e"
  shows "all_stateless lb rq e t \<and> accounted lb rq rs e ms t"
  using assms(1)
proof induction
  case stateless_start
  show ?case
    using assms(2)
    by (auto simp: all_stateless_def accounted_def start_threads_def serving_def same_service_def
        pending_responses_def queued_responses_def queued_def)
next
  case (stateless_internal ms t ev t')
  then show ?case using internal_step_stateless [OF stateless_internal.hyps(2)] by (simp add: accounted_def)
next
  case (stateless_connection ms t failed e')
  have "threads_ok rq rs t"
    using stateless_run_is_run [OF stateless_connection.hyps(1)] server_run_ok start_threads_ok [OF assms(2)] by blast
  then have "streams_ok (shared t)" by (simp add: threads_ok_def)
  from on_accept_writes [OF stateless_connection.hyps(3) this] stateless_connection.IH show ?case
    by (auto simp: all_stateless_def accounted_def pending_responses_def queued_responses_def intro: same_service_trans)
next
  case (stateless_bytes ms t sid st bs e')
  then have "same_service e (shared t)" by (simp add: all_stateless_def)
  from on_bytes_stateless [OF stateless_bytes.hyps(4,2) this stateless_bytes.hyps(3)] stateless_bytes.IH show ?case
    by (auto simp: all_stateless_def accounted_def pending_responses_def ac_simps)
qed

lemma internal_step_succeeds:
  assumes "internal_step lb t ev r" and "all_stateless lb rq e0 t" and "threads_ok rq rs t"
  shows "\<exists>t'. r = Inr t'"
  using assms(1)
proof (cases rule: internal_step.cases)
  case (worker_performs i r)
  have "stateless_request lb e0 r" "same_service e0 (shared t)"
    using assms(2) job_at_hand [OF worker_performs(3,4)] by (auto simp: all_stateless_def)
  from compute_stateless [OF this] worker_performs(2) show ?thesis by simp
next
  case (writer_writes i x)
  from write_response_in_order [OF assms(3) writer_writes(3,4)] writer_writes(2) show ?thesis by auto
qed auto

text \<open>The threads come to rest without a fault.\<close>

lemma comes_to_rest:
  assumes "stateless_run lb e ms t" and "serving rq rs e"
  shows "\<exists>t'. stateless_run lb e ms t' \<and> (\<nexists>ev r. internal_step lb t' ev r)"
  using assms(1)
proof (induction t rule: wf_induct_rule [OF internal_steps_end])
  case (1 t)
  show ?case
  proof (cases "\<exists>ev r. internal_step lb t ev r")
    case True
    then obtain ev r where step: "internal_step lb t ev r" by blast
    have "threads_ok rq rs t"
      using stateless_run_is_run [OF 1(2)] server_run_ok start_threads_ok [OF assms(2)] by blast
    with internal_step_succeeds [OF step] stateless_run_accounted [OF 1(2) assms(2)] obtain t' where
      t': "r = Inr t'" by blast
    with 1(1) [of t'] step stateless_internal [OF 1(2)] show ?thesis by blast
  next
    case False
    with 1(2) show ?thesis by blast
  qed
qed

text \<open>What has been written then.\<close>

lemma rest_writes:
  assumes "serving rq rs e" and "stateless_run lb e ms t" and "\<nexists>ev r. internal_step lb t ev r"
  shows "mset (writes_of (shared t) sid) = mset (writes_of e sid)
    + image_mset (\<lambda>m. frame (lb_order lb) (fst (snd m), message_result lb e (snd (snd m))))
        (filter_mset (\<lambda>m. fst m = sid) (mset ms))"
proof -
  note acc = stateless_run_accounted [OF assms(2,1)]
  obtain evs where run: "server_run lb (start_threads e) evs (Inr t)"
    using stateless_run_is_run [OF assms(2)] by blast
  have ok: "threads_ok rq rs t" using server_run_ok [OF run _ refl] start_threads_ok [OF assms(1)] by blast
  have "writers t \<noteq> []"
    using writers_kept [OF run refl] assms(1) by (auto simp: start_threads_def serving_def)
  from at_rest [OF ok this assms(3)] have "pending_responses lb rq rs e t = {#}"
    by (simp add: in_flight_def queued_def pending_responses_def queued_responses_def)
  with acc have "mset (writes_of (shared t) sid) =
      mset (writes_of e sid) + frames_for (lb_order lb) sid (mset (map (message_response lb e) ms))"
    by (simp add: accounted_def)
  then show ?thesis
    by (simp add: frames_for_def message_response_def filter_mset_image_mset multiset.map_comp comp_def)
qed

end

section \<open>Properties\<close>

text \<open>
  Every message is answered, with its own result, on its own connection. In a run whose messages
  are calls that leave their objects unchanged, when the threads have come to rest, the writes
  that each connection's stream was given are, up to their order, one frame for each message read
  from it, with the message's id and the result of its call; and no other writes.
\<close>

theorem responses_match_messages:
  assumes "executor_queues lb rq rs" and "serving rq rs e" and "stateless_run lb e ms t"
    and "\<nexists>ev r. internal_step lb t ev r"
  shows "mset (writes_of (shared t) sid) = mset (writes_of e sid)
    + image_mset (\<lambda>m. frame (lb_order lb) (fst (snd m), message_result lb e (snd (snd m))))
        (filter_mset (\<lambda>m. fst m = sid) (mset ms))"
  by (rule executor_queues.rest_writes [OF assms])

text \<open>The example server and its message of 20 + 22.\<close>

lemma add_buffer_answer:
  "stateless_message wire_libs example_executor (0, 3, add_buffer)"
  "message_result wire_libs example_executor add_buffer = wire_pack (WInt 42)"
proof -
  have fit: "args_fit (lb_msgpack wire_libs) wire_has_type ''Adder'' ''add'' (cl_method add_closure) [WInt 20, WInt 22]"
    by (simp only: fits_example) simp
  obtain unpacked where u: "mp_unpack (lb_msgpack wire_libs) add_buffer = Inr unpacked"
    "mp_as_names (lb_msgpack wire_libs) unpacked = Inr (''Adder'', ''add'')"
    "InvokeHelper_Invoke (lb_msgpack wire_libs) (cl_method add_closure) Adder_object unpacked [] =
      call_result (lb_msgpack wire_libs) (cl_method add_closure) Adder_object [WInt 20, WInt 22] []"
    using msgpack_codec.packed_call [OF wire_codec fit] unfolding wire_call add_buffer_def [symmetric] by blast
  have "call_result (lb_msgpack wire_libs) (cl_method add_closure) Adder_object [WInt 20, WInt 22] [] =
      Inr (wire_pack (WInt 42), Adder_object)"
    by (simp add: call_result_def add_closure_def ptr_add_def Adder_add_def int_result_def wire_libs_def wire_msgpack_def)
  with u(3) have "returns_unchanged wire_libs example_executor unpacked ''add'' (wire_pack (WInt 42))"
    unfolding returns_unchanged_def
    by (intro exI [of _ add_closure] exI [of _ "\<lparr>service_name = [], service_object = 0\<rparr>"])
      (simp add: example_executor_def add_closure_def)
  with u(1,2) show "stateless_message wire_libs example_executor (0, 3, add_buffer)"
    "message_result wire_libs example_executor add_buffer = wire_pack (WInt 42)"
    by (auto simp: stateless_message_def message_result_def result_of_unchanged)
qed

text \<open>A run in which one client's bytes arrive at once.\<close>

lemma one_client_run:
  assumes "snd (receive Little_endian bs (Start (AsioStream 0))) = ms"
    and "list_all (stateless_message wire_libs example_executor) ms"
  shows "\<exists>t. stateless_run wire_libs example_executor ms t \<and> (\<nexists>ev r. internal_step wire_libs t ev r)"
proof -
  let ?t0 = "start_threads example_executor :: (service_state, wire_value, wire_object, _, _) server_threads"
  obtain pool where accept: "on_accept False example_executor = Inr (one_client pool)"
    using one_client_accepted by blast
  have "unat (curr_stream_id (shared ?t0)) + 1 < 2 ^ 64"
    by (simp add: start_threads_def example_executor_def Executor_def)
  from stateless_connection [OF stateless_start this, of False "one_client pool"] accept
  have run: "stateless_run wire_libs example_executor [] (?t0\<lparr>shared := one_client pool\<rparr>)"
    by (simp add: start_threads_def)
  let ?e = "(one_client pool)\<lparr>streams := [0 \<mapsto> fst (receive Little_endian bs (Start (AsioStream 0)))]\<rparr>"
  have "same_service example_executor ?e" by (simp add: same_service_def)
  from wire_queues.invoke_messages_stateless [OF assms(2) this] assms(1)
  obtain e' where "on_bytes wire_libs 0 bs (one_client pool) = Inr e'"
    by (auto simp: on_bytes_def wire_libs_simps)
  with stateless_bytes [OF run, of 0 "Start (AsioStream 0)" bs e'] assms
  have "stateless_run wire_libs example_executor ms (?t0\<lparr>shared := one_client pool, shared := e'\<rparr>)"
    by (simp add: wire_libs_simps)
  from wire_queues.comes_to_rest [OF this serving_example] show ?thesis .
qed

lemma add_message_received:
  "snd (receive Little_endian (frame Little_endian (3, add_buffer)) (Start (AsioStream 0))) = [(0, 3, add_buffer)]"
  using receive_one_frame [OF reading_Start _ length_add_buffer, of _ "AsioStream 0" 3]
  by (simp add: AsioStream_def Start_def DoReadObjectID_def unread_def)

lemma answered_run:
  "\<exists>t. stateless_run wire_libs example_executor [(0, 3, add_buffer)] t \<and> (\<nexists>ev r. internal_step wire_libs t ev r)
    \<and> writes_of (shared t) 0 = [frame Little_endian (3, wire_pack (WInt 42))]"
proof -
  obtain t where
    t: "stateless_run wire_libs example_executor [(0, 3, add_buffer)] t" "\<nexists>ev r. internal_step wire_libs t ev r"
    using one_client_run [OF add_message_received] add_buffer_answer(1) by auto
  have "writes_of example_executor 0 = []" by (simp add: writes_of_def example_executor_def Executor_def)
  with wire_queues.rest_writes [OF serving_example t, of 0] add_buffer_answer(2)
  have "mset (writes_of (shared t) 0) = {#frame Little_endian (3, wire_pack (WInt 42))#}"
    by (simp add: wire_libs_simps)
  with t show ?thesis by auto
qed

theorem responses_match_messages_witness:
  "\<exists>t. stateless_run wire_libs example_executor [(0, 3, add_buffer)] t
    \<and> mset (writes_of (shared t) 0) = {#frame Little_endian (3, wire_pack (WInt 42))#}"
proof -
  obtain t where
    t: "stateless_run wire_libs example_executor [(0, 3, add_buffer)] t" "\<nexists>ev r. internal_step wire_libs t ev r"
    using answered_run by blast
  have "writes_of example_executor 0 = []" by (simp add: writes_of_def example_executor_def Executor_def)
  with responses_match_messages [OF wire_queues.executor_queues_axioms serving_example t, of 0] add_buffer_answer(2) t(1)
  show ?thesis by (auto simp: wire_libs_simps)
qed

end
