(* ===== verification/Pipelined_Calls.thy ===== *)
theory Pipelined_Calls
  imports Stateless_Runs Client_Session
begin

text \<open>
  A client that makes several calls without waiting in between, as
  \<^verbatim>\<open>tests/multiple_calls_with_no_wait.cc\<close> does, on a server whose threads work in any order: for
  calls that leave their objects unchanged each future gets the result of its own call. The
  messages are taken to arrive whole; that overlapping writes may tear them is a theorem of
  \<open>Asio_Stream\<close>.
\<close>

section \<open>The client's calls and what it receives\<close>

definition call_type :: "('s, 'v) client_call \<Rightarrow> cpp_type" where
  "call_type c = (case c of (h, m, args) \<Rightarrow> future_type (GetMethod m))"

definition futures_of :: "nat \<Rightarrow> ('s, 'v) client_call list \<Rightarrow> 'v dousi_future list" where
  "futures_of i cs = map (\<lambda>(k, c). DousiFuture (call_type c) (of_nat k)) (zip [i..<i + length cs] cs)"

definition messages_of :: "('v, 'o) msgpack \<Rightarrow> nat \<Rightarrow> ('s, 'v) client_call list \<Rightarrow> (u32 \<times> bytes) list" where
  "messages_of mp i cs = map (\<lambda>(k, c). (of_nat k, buffer_of mp c)) (zip [i..<i + length cs] cs)"

lemma calls_Cons:
  "futures_of i (c # cs) = DousiFuture (call_type c) (of_nat i) # futures_of (Suc i) cs"
  "messages_of mp i (c # cs) = (of_nat i, buffer_of mp c) # messages_of mp (Suc i) cs"
proof -
  have "[i..<i + length (c # cs)] = i # [Suc i..<Suc i + length cs]"
    by (simp add: upt_conv_Cons del: upt_Suc)
  then show "futures_of i (c # cs) = DousiFuture (call_type c) (of_nat i) # futures_of (Suc i) cs"
    "messages_of mp i (c # cs) = (of_nat i, buffer_of mp c) # messages_of mp (Suc i) cs"
    unfolding futures_of_def messages_of_def by (simp_all only: zip_Cons_Cons list.map case_prod_conv)
qed

lemma calls_Nil [simp]: "futures_of i [] = []" "messages_of mp i [] = []"
  by (simp_all add: futures_of_def messages_of_def)

lemma Calls_state:
  assumes "submitter_stream s = Some st" and "curr_object_id s = of_nat i"
  shows "Calls en mp cs s = Inr (futures_of i cs,
    s\<lparr>curr_object_id := of_nat (i + length cs),
      submitter_stream := Some (st\<lparr>strm_writes := strm_writes st @ map (frame en) (messages_of mp i cs)\<rparr>)\<rparr>)"
  using assms
proof (induction cs arbitrary: s st i)
  case Nil
  then have "s\<lparr>curr_object_id := of_nat i, submitter_stream := Some st\<rparr> = s" by simp
  then show ?case by simp
next
  case (Cons c cs)
  obtain h m args where c: "c = (h, m, args)" by (cases c)
  let ?st = "Write en (ucast (curr_object_id s)) (call_buffer mp h m args) st"
  let ?s = "s\<lparr>curr_object_id := curr_object_id s + 1, submitter_stream := Some ?st\<rparr>"
  have "submitter_stream ?s = Some ?st" and "curr_object_id ?s = of_nat (Suc i)"
    using Cons.prems(2) by simp_all
  note IH = Cons.IH [OF this]
  have "?st\<lparr>strm_writes := strm_writes ?st @ ws\<rparr> =
      st\<lparr>strm_writes := strm_writes st @ frame en (of_nat i, buffer_of mp c) # ws\<rparr>" for ws
    using Cons.prems(2) by (simp add: Write_def frame_def ucast_of_nat_u64_u32 buffer_of_def c)
  moreover have "of_nat (Suc i + length cs) = (of_nat (i + length (c # cs)) :: u64)" by simp
  ultimately show ?case
    using IH Cons.prems(2)
    by (simp add: c Call_eq [OF Cons.prems(1)] calls_Cons call_type_def)
qed

text \<open>A list that is a permutation of images is a list of images of a permutation.\<close>

lemma mset_map_exists:
  assumes "mset xs = mset (map f ys)"
  shows "\<exists>zs. mset zs = mset ys \<and> xs = map f zs"
  using assms
proof (induction xs arbitrary: ys)
  case (Cons x xs)
  have "set (x # xs) = set (map f ys)" using Cons.prems by (rule mset_eq_setD)
  then obtain y where y: "y \<in> set ys" "x = f y" by auto
  have ys: "mset ys = add_mset y (mset (remove1 y ys))" using y(1) by (simp add: insert_DiffM)
  have "mset (map f ys) = add_mset (f y) (mset (map f (remove1 y ys)))"
    unfolding mset_map by (subst ys) (simp only: image_mset_add_mset)
  with Cons.prems y(2) have "mset xs = mset (map f (remove1 y ys))" by (metis add_mset_add_mset_same_iff mset.simps(2))
  from Cons.IH [OF this] obtain zs where zs: "mset zs = mset (remove1 y ys)" "xs = map f zs" by blast
  show ?case
  proof (intro exI conjI)
    show "mset (y # zs) = mset ys" using ys by (simp only: mset.simps zs(1))
    show "x # xs = map f (y # zs)" unfolding list.map zs(2) y(2) ..
  qed
qed simp

lemma client_messages_CPP:
  assumes "client_language s = CPP"
  shows "client_messages throws src ms (l, s) = Inr (l, receive_responses (map snd ms) s)"
  using assms
proof (induction ms arbitrary: s)
  case (Cons m ms)
  obtain sid oid buffer where m: "m = (sid, oid, buffer)" by (cases m)
  have "client_language (cache_object oid buffer s) = CPP" using Cons.prems by (simp add: cache_object_def)
  from Cons.IH [OF this] Cons.prems show ?case
    by (simp add: m invocation_callback_CPP receive_responses_def)
qed (simp add: receive_responses_def)

text \<open>Responses with different ids, in any order, are each found under their id.\<close>

lemma client_bytes_found:
  assumes "submitter_stream s = Some st" and "idle en st" and "client_language s = CPP"
    and "distinct (map fst rs)" and "list_all (\<lambda>r. length (snd r) < 2 ^ 32) rs"
  shows "\<exists>s'. client_bytes en throws src (concat (map (frame en) rs)) (l, s) = Inr (l, s')
    \<and> (\<forall>k bs. (of_nat k, bs) \<in> set rs \<longrightarrow> k < 2 ^ 32 \<longrightarrow> cached (of_nat k) s' = Some bs)"
proof -
  let ?ms = "snd (receive en (concat (map (frame en) rs)) st)"
  let ?s = "s\<lparr>submitter_stream := Some (fst (receive en (concat (map (frame en) rs)) st))\<rparr>"
  have "reading st" "unread en st = []" "\<forall>m \<in> set rs. length (snd m) < 2 ^ 32"
    using assms(2,5) by (simp_all add: idle_def list_all_iff)
  with receive_parses [of st en "concat (map (frame en) rs)"] parse_frames_concat [of rs en "[]"]
  have ms: "map snd ?ms = rs" by (simp add: parse_frames_short)
  have "client_bytes en throws src (concat (map (frame en) rs)) (l, s) = Inr (l, receive_responses rs ?s)"
    using assms(1,3) client_messages_CPP [of ?s throws src ?ms l] by (simp add: client_bytes_def ms)
  moreover have "cached (of_nat k) (receive_responses rs ?s) = Some bs"
    if "(of_nat k, bs) \<in> set rs" "k < 2 ^ 32" for k bs
  proof -
    have small: "unat (of_nat k :: u64) < 2 ^ 32" using that(2) by (simp add: conv_simps)
    have "distinct (map fst (rev rs))" using assms(4) by (simp flip: rev_map)
    from map_of_is_SomeI [OF this, of "of_nat k" bs] that(1) cached_receive_responses [OF small, of rs ?s] show ?thesis
      by (simp add: ucast_of_nat_u64_u32)
  qed
  ultimately show ?thesis by blast
qed

section \<open>The messages of local calls\<close>

lemma call_message:
  assumes "msgpack_codec (lb_msgpack lb) has_type" and "call_ok lb has_type e c"
    and "local_call e c (objects e) = Inr (v, objects e)"
  defines "bs \<equiv> message_result lb e (buffer_of (lb_msgpack lb) c)"
  shows "length bs < 2 ^ 32" and "stateless_message lb e (sid, oid, buffer_of (lb_msgpack lb) c)"
    and "case v of None \<Rightarrow> bs = [] \<and> call_type c = Base ''bool''
      | Some x \<Rightarrow> bs = mp_pack (lb_msgpack lb) x \<and> has_type (call_type c) x"
proof -
  have fits: "call_fits lb has_type e c" using assms(2) by (simp add: call_ok_def)
  obtain h m args where c: "c = (h, m, args)" by (cases c)
  obtain cl d ob r ob' where call: "registered_methods e (GetName m) = Some (Some cl)"
    "instances e (cl_service_instance cl) = Some d" "objects e (service_object d) = Some ob"
    "cl_method cl = GetMethod m" "objects e = (objects e)(service_object d \<mapsto> ob')"
    "call_result (lb_msgpack lb) (cl_method cl) ob args [] = Inr (r, ob')" "length r < 2 ^ 32"
    and out: "case v of None \<Rightarrow> r = [] \<and> future_type (GetMethod m) = Base ''bool''
      | Some x \<Rightarrow> r = mp_pack (lb_msgpack lb) x \<and> has_type (future_type (GetMethod m)) x"
    using assms(3) fits call_ok_result [OF assms(2,3)] unfolding c by (elim local_call_Inr)
  have "ob' = ob" using fun_cong [OF call(5), of "service_object d"] call(3) by simp
  have fit: "args_fit (lb_msgpack lb) has_type (sh_service_name h) (GetName m) (cl_method cl) args"
    using fits call(4) by (simp add: c call_fits_def)
  obtain unpacked where u: "mp_unpack (lb_msgpack lb) (buffer_of (lb_msgpack lb) c) = Inr unpacked"
    "mp_as_names (lb_msgpack lb) unpacked = Inr (sh_service_name h, GetName m)"
    "InvokeHelper_Invoke (lb_msgpack lb) (cl_method cl) ob unpacked [] =
      call_result (lb_msgpack lb) (cl_method cl) ob args []"
    using msgpack_codec.packed_call [OF assms(1) fit] by (auto simp: buffer_of_def c call_buffer_def)
  have returns: "returns_unchanged lb e unpacked (GetName m) r"
    using call(1-3,6) u(3) \<open>ob' = ob\<close> by (auto simp: returns_unchanged_def)
  have bs: "bs = r" by (simp add: bs_def message_result_def u(1,2) result_of_unchanged [OF returns])
  show "length bs < 2 ^ 32" unfolding bs by (rule call(7))
  show "stateless_message lb e (sid, oid, buffer_of (lb_msgpack lb) c)"
    using u(1,2) returns by (auto simp: stateless_message_def)
  show "case v of None \<Rightarrow> bs = [] \<and> call_type c = Base ''bool''
      | Some x \<Rightarrow> bs = mp_pack (lb_msgpack lb) x \<and> has_type (call_type c) x"
    using out unfolding bs call_type_def c prod.case .
qed

section \<open>The answers\<close>

text \<open>What the server makes of a message that is read.\<close>

definition answer :: "('v, 'o, 'q, 'r) libs \<Rightarrow> ('s, 'v, 'q, 'r) executor \<Rightarrow> u32 \<times> bytes \<Rightarrow> u32 \<times> bytes" where
  "answer lb e m = (fst m, message_result lb e (snd m))"

lemma calls_nth:
  assumes "k < length cs"
  shows "futures_of i cs ! k = DousiFuture (call_type (cs ! k)) (of_nat (i + k))"
    and "messages_of mp i cs ! k = (of_nat (i + k), buffer_of mp (cs ! k))"
  using assms by (simp_all add: futures_of_def messages_of_def)

lemma calls_length [simp]: "length (futures_of i cs) = length cs" "length (messages_of mp i cs) = length cs"
  by (simp_all add: futures_of_def messages_of_def)

lemma messages_of_distinct:
  assumes "i + length cs \<le> 2 ^ 32"
  shows "distinct (map fst (messages_of mp i cs))"
proof -
  have "map fst (messages_of mp i cs) = map of_nat [i..<i + length cs]"
    by (rule nth_equalityI) (simp_all add: calls_nth)
  moreover have "inj_on (of_nat :: nat \<Rightarrow> u32) {i..<i + length cs}"
    using assms by (intro inj_onI) (simp add: word_of_nat_eq_iff take_bit_nat_eq_self)
  ultimately show ?thesis by (simp add: distinct_map)
qed

lemma answers_written:
  assumes "executor_queues lb rq rs" and "serving rq rs e" and "stateless_run lb e ms t"
    and "\<nexists>ev r. internal_step lb t ev r" and "writes_of e sid = []"
  shows "\<exists>zs. mset zs = mset (map (answer lb e) (map snd (filter (\<lambda>m. fst m = sid) ms)))
    \<and> writes_of (shared t) sid = map (frame (lb_order lb)) zs"
proof (rule mset_map_exists)
  show "mset (writes_of (shared t) sid) =
      mset (map (frame (lb_order lb)) (map (answer lb e) (map snd (filter (\<lambda>m. fst m = sid) ms))))"
    using executor_queues.rest_writes [OF assms(1-4), of sid] assms(5)
    by (simp add: answer_def comp_def multiset.map_comp flip: mset_filter)
qed

text \<open>
  The client's side: it reads the answers in any order, and each of its futures gets its own.
\<close>

lemma futures_answered:
  assumes "msgpack_codec (lb_msgpack lb) has_type"
    and "submitter_stream s = Some st" and "idle (lb_order lb) st" and "client_language s = CPP"
    and "i + length cs \<le> 2 ^ 32" and "mset zs = mset (map (answer lb e) (messages_of (lb_msgpack lb) i cs))"
    and "list_all (call_ok lb has_type e) cs"
    and "list_all2 (\<lambda>c v. local_call e c (objects e) = Inr (v, objects e)) cs vs"
  shows "\<exists>s'. client_bytes (lb_order lb) throws src (concat (map (frame (lb_order lb)) zs)) (l, s) = Inr (l, s')
    \<and> list_all2 (\<lambda>f v. map_option fst (Get (lb_msgpack lb) others s' f) = get_outcome v) (futures_of i cs) vs"
proof -
  let ?mp = "lb_msgpack lb" and ?ans = "map (answer lb e) (messages_of (lb_msgpack lb) i cs)"
  have len: "length vs = length cs" using assms(8) by (simp add: list_all2_lengthD)
  have call: "call_ok lb has_type e (cs ! k)" "local_call e (cs ! k) (objects e) = Inr (vs ! k, objects e)"
    if "k < length cs" for k
    using that assms(7,8) by (auto simp: list_all_length list_all2_conv_all_nth)
  note message = call_message [OF assms(1) call]
  have ans: "?ans ! k = (of_nat (i + k), message_result lb e (buffer_of ?mp (cs ! k)))" if "k < length cs" for k
    using that by (simp add: answer_def calls_nth)
  have "map fst ?ans = map fst (messages_of ?mp i cs)" by (simp add: answer_def)
  then have "distinct (map fst ?ans)" by (simp only: messages_of_distinct [OF assms(5)])
  moreover have perm: "mset (map fst zs) = mset (map fst ?ans)" "set zs = set ?ans"
    using assms(6) by (metis mset_map, metis set_mset_mset)
  ultimately have "distinct (map fst zs)" by (metis distinct_count_atmost_1 mset_eq_imp_distinct_iff)
  moreover have "list_all (\<lambda>r. length (snd r) < 2 ^ 32) ?ans"
    using ans message(1) by (simp add: list_all_length)
  then have "list_all (\<lambda>r. length (snd r) < 2 ^ 32) zs" by (simp add: list_all_iff perm(2))
  ultimately obtain s' where s': "client_bytes (lb_order lb) throws src (concat (map (frame (lb_order lb)) zs)) (l, s) = Inr (l, s')"
    "\<And>k bs. (of_nat k, bs) \<in> set zs \<Longrightarrow> k < 2 ^ 32 \<Longrightarrow> cached (of_nat k) s' = Some bs"
    using client_bytes_found [OF assms(2-4)] by blast
  have "map_option fst (Get ?mp others s' (futures_of i cs ! k)) = get_outcome (vs ! k)" if "k < length cs" for k
  proof -
    have "?ans ! k \<in> set ?ans" using that by (intro nth_mem) simp
    then have "(of_nat (i + k), message_result lb e (buffer_of ?mp (cs ! k))) \<in> set zs"
      by (simp only: ans [OF that] perm(2))
    then have "cached (of_nat (i + k)) s' = Some (message_result lb e (buffer_of ?mp (cs ! k)))"
      by (rule s'(2)) (use that assms(5) in simp)
    from Get_outcome [OF assms(1) this message(3) [OF that that]] show ?thesis by (simp only: calls_nth(1) [OF that])
  qed
  with s'(1) len show ?thesis by (auto simp: list_all2_conv_all_nth)
qed

text \<open>What the futures and the messages of a client are whose messages arrive whole.\<close>

lemma calls_sent:
  assumes "client_idle en (length cs) s" and "Calls en (lb_msgpack lb) cs s = Inr (fs, s')"
    and "submitter_stream s' = Some cst" and "list_all (call_fits lb has_type e) cs"
  shows "fs = futures_of (unat (curr_object_id s)) cs \<and> client_language s' = CPP \<and> idle en cst
    \<and> unat (curr_object_id s) + length cs \<le> 2 ^ 32
    \<and> fst (parse_frames en (concat (strm_writes cst))) = messages_of (lb_msgpack lb) (unat (curr_object_id s)) cs"
proof -
  let ?i = "unat (curr_object_id s)"
  let ?msgs = "messages_of (lb_msgpack lb) ?i cs"
  obtain st where st: "submitter_stream s = Some st" "strm_writes st = []" "idle en st"
    using assms(1) by (auto simp: client_idle_def)
  have s: "client_language s = CPP" "?i + length cs \<le> 2 ^ 32" using assms(1) by (simp_all add: client_idle_def)
  from Calls_state [OF st(1), of ?i en "lb_msgpack lb" cs] assms(2,3) st(2)
  have fs: "fs = futures_of ?i cs" and cst: "cst = st\<lparr>strm_writes := map (frame en) ?msgs\<rparr>"
    and lang: "client_language s' = CPP"
    using s(1) by auto
  have "\<forall>m \<in> set ?msgs. length (snd m) < 2 ^ 32"
    using assms(4) by (auto simp: in_set_conv_nth calls_nth list_all_length call_fits_def buffer_of_def split: prod.splits)
  from parse_frames_concat [OF this, of en "[]"] show ?thesis
    using fs lang s(2) st(3) by (simp add: cst parse_frames_short)
qed

section \<open>Properties\<close>


text \<open>The calls of \<^verbatim>\<open>tests/multiple_calls_with_no_wait.cc\<close>.\<close>

definition no_wait_calls :: "'j rpc_client \<Rightarrow> (service_state, wire_value) client_call list" where
  "no_wait_calls rpc_client =
     (let echoer = RpcClient_GetService ''Echoer'' rpc_client
      in [(echoer, Remote ''&Echoer::echo'' ptr_echo, [WStr ''A'']),
          (echoer, Remote ''&Echoer::echo'' ptr_echo, [WStr ''B'']),
          (echoer, Remote ''&Echoer::echo'' ptr_echo, [WStr ''C''])])"

lemma no_wait_calls_ok: "list_all (call_ok wire_libs wire_has_type example_executor) (no_wait_calls c)"
proof -
  note defs = GetName_def GetMethod_def GetService_def RpcClient_GetService_def ServiceHandle_def call_ok_def call_fits_def result_fits_def args_fit_def
    call_buffer_def PackArgsToBuffer_def method_typed_def future_type_def example_executor_def ptr_echo_def
    Echoer_echo_def BaseFunctionTraits_def std_string_def wire_libs_simps
    wire_msgpack_def wire_pack_tuple_def be32_def res_bind_Inr_iff
  show ?thesis by (auto simp: no_wait_calls_def Let_def defs)
qed

lemma no_wait_calls_local:
  "list_all2 (\<lambda>c v. local_call example_executor c (objects example_executor) = Inr (v, objects example_executor))
    (no_wait_calls c) [Some (WStr ''A''), Some (WStr ''B''), Some (WStr ''C'')]"
proof -
  have "local_call example_executor (h, Remote ''&Echoer::echo'' ptr_echo, [WStr x]) (objects example_executor) =
      Inr (Some (WStr x), objects example_executor)" for h x
    by (rule local_call_value [where cl = "\<lparr>cl_method = ptr_echo, cl_service_instance = 3\<rparr>" and ob = Echoer_object
          and d = "\<lparr>service_name = [], service_object = 2\<rparr>" and f = Echoer_echo])
      (simp_all add: GetName_def GetMethod_def example_executor_def ptr_echo_def Echoer_echo_def)
  then show ?thesis by (simp add: no_wait_calls_def Let_def)
qed

text \<open>Its messages, and a run of the example server in which they arrive at once.\<close>

lemma no_wait_small: "\<forall>m \<in> set (messages_of (lb_msgpack wire_libs) i (no_wait_calls c)). length (snd m) < 2 ^ 32"
  using no_wait_calls_ok [of c]
  by (auto simp: in_set_conv_nth calls_nth list_all_length call_ok_def call_fits_def buffer_of_def split: prod.splits)

lemma no_wait_run:
  "\<exists>t. stateless_run wire_libs example_executor
      (map (Pair 0) (messages_of (lb_msgpack wire_libs) 0 (no_wait_calls c))) t
    \<and> (\<nexists>ev r. internal_step wire_libs t ev r)"
proof -
  let ?msgs = "messages_of (lb_msgpack wire_libs) 0 (no_wait_calls c)"
  let ?vs = "[Some (WStr ''A''), Some (WStr ''B''), Some (WStr ''C'')]"
  have new: "unread Little_endian (Start (AsioStream 0)) = []" "strm_id (Start (AsioStream 0)) = 0"
    by (simp_all add: AsioStream_def Start_def DoReadObjectID_def unread_def)
  have stateless: "stateless_message wire_libs example_executor (0, ?msgs ! k)" if "k < length (no_wait_calls c)" for k
    unfolding calls_nth(2) [OF that]
    by (rule call_message(2) [OF wire_codec, where v = "?vs ! k"])
      (use that no_wait_calls_ok [of c] no_wait_calls_local [of c] in \<open>auto simp: list_all_length list_all2_conv_all_nth\<close>)
  have "snd (receive Little_endian (concat (map (frame Little_endian) ?msgs)) (Start (AsioStream 0))) = map (Pair 0) ?msgs"
    using receive_frames [OF reading_Start new(1) no_wait_small] new(2) by simp
  moreover have "list_all (stateless_message wire_libs example_executor) (map (Pair 0) ?msgs)"
    using stateless by (simp add: list_all_length)
  ultimately show ?thesis using one_client_run by blast
qed

text \<open>Its client, and what it has sent.\<close>

definition no_wait_client :: "unit rpc_client" where
  "no_wait_client = \<lparr>cli_submitter = connected_client, cli_logging = logging_initial\<rparr>"

lemma no_wait_client_sent:
  "\<exists>fs s cst. client_idle (lb_order wire_libs) (length (no_wait_calls no_wait_client)) connected_client
    \<and> Calls (lb_order wire_libs) (lb_msgpack wire_libs) (no_wait_calls no_wait_client) connected_client = Inr (fs, s)
    \<and> submitter_stream s = Some cst
    \<and> fst (parse_frames (lb_order wire_libs) (concat (strm_writes cst))) =
        messages_of (lb_msgpack wire_libs) 0 (no_wait_calls no_wait_client)"
proof -
  let ?cs = "no_wait_calls no_wait_client" and ?mp = "lb_msgpack wire_libs"
  have "length ?cs = 3" by (simp add: no_wait_calls_def Let_def)
  then have idle: "client_idle (lb_order wire_libs) (length ?cs) connected_client"
    by (intro client_idle_new) simp
  obtain st where st: "submitter_stream connected_client = Some st" "strm_writes st = []"
    using idle by (auto simp: client_idle_def)
  have "curr_object_id connected_client = of_nat 0"
    by (simp add: connected_client_def Submitter_def Submitter_of_def)
  from Calls_state [OF st(1) this, of "lb_order wire_libs" ?mp ?cs] st(2) obtain fs s cst where
    calls: "Calls (lb_order wire_libs) ?mp ?cs connected_client = Inr (fs, s)" "submitter_stream s = Some cst"
    "strm_writes cst = map (frame (lb_order wire_libs)) (messages_of ?mp 0 ?cs)"
    by auto
  with idle parse_frames_concat [OF no_wait_small [of 0 no_wait_client], of "lb_order wire_libs" "[]"] show ?thesis
    by (intro exI [of _ fs] exI [of _ s] exI [of _ cst]) (simp add: parse_frames_short)
qed


end
