(* ===== verification/Client_Network.thy ===== *)
theory Client_Network
  imports Pipelined_Calls
begin

text \<open>
  A future and the client's network thread at the level of bytes: while \<^verbatim>\<open>Get\<close> sleeps, segments of
  the connection arrive or the connection is lost, and the handlers of \<^verbatim>\<open>core/stream/stream.cc\<close> and the
  callback of \<^verbatim>\<open>core/submitter/submitter.h\<close> run.
\<close>

section \<open>What the network thread does\<close>

datatype network_event = Bytes_received bytes | Connection_lost

text \<open>A failed read is not followed by another; its handler tells nobody.\<close>

fun client_event :: "byte_order \<Rightarrow> network_event \<Rightarrow> 'j submitter \<Rightarrow> 'j submitter" where
  "client_event en (Bytes_received bs) s = (case submitter_stream s of
       None \<Rightarrow> s
     | Some st \<Rightarrow> receive_responses (map snd (snd (receive en bs st)))
         (s\<lparr>submitter_stream := Some (fst (receive en bs st))\<rparr>))"
| "client_event en Connection_lost s = s\<lparr>submitter_stream := map_option (read_fail en) (submitter_stream s)\<rparr>"

text \<open>The events of each of the sleeps of \<^verbatim>\<open>GetObject\<close>.\<close>

definition client_network :: "byte_order \<Rightarrow> (nat \<Rightarrow> network_event list) \<Rightarrow> nat \<Rightarrow> 'j submitter \<Rightarrow> 'j submitter" where
  "client_network en events i s = fold (client_event en) (events i) s"

lemma client_event_is_client_bytes:
  "client_language s = CPP \<Longrightarrow>
   client_bytes en throws src bs (l, s) = Inr (l, client_event en (Bytes_received bs) s)"
  by (simp add: client_bytes_def client_messages_CPP split: option.split)

lemma cache_object_stream:
  "submitter_stream (cache_object w bs s) = submitter_stream s"
  "(cache_object w bs s)\<lparr>submitter_stream := x\<rparr> = cache_object w bs (s\<lparr>submitter_stream := x\<rparr>)"
  by (cases s; simp add: cache_object_def)+

lemma receive_responses_stream [simp]:
  "submitter_stream (receive_responses rs s) = submitter_stream s"
  "(receive_responses rs s)\<lparr>submitter_stream := x\<rparr> = receive_responses rs (s\<lparr>submitter_stream := x\<rparr>)"
  unfolding receive_responses_def
  by (induction rs arbitrary: s) (auto simp: cache_object_stream)

lemma receive_responses_append:
  "receive_responses (rs @ rs') s = receive_responses rs' (receive_responses rs s)"
  by (simp add: receive_responses_def)

section \<open>Segments\<close>

lemma segments_received:
  assumes "submitter_stream s = Some st"
  shows "fold (client_event en) (map Bytes_received chunks) s =
    receive_responses (map snd (snd (receive_all en chunks st)))
      (s\<lparr>submitter_stream := Some (fst (receive_all en chunks st))\<rparr>)"
  using assms
proof (induction chunks arbitrary: s st)
  case Nil
  then show ?case by (simp add: receive_responses_def)
next
  case (Cons bs chunks)
  show ?case
    using Cons.prems Cons.IH [of "client_event en (Bytes_received bs) s" "fst (receive en bs st)"]
    by (simp add: receive_responses_append)
qed

lemma receive_all_append:
  "snd (receive_all en (a @ b) st) =
    snd (receive_all en a st) @ snd (receive_all en b (fst (receive_all en a st)))"
  by (induction a arbitrary: st) simp_all

lemma receive_all_frames:
  assumes "idle en st" and "concat chunks = concat (map (frame en) ms)"
    and "\<forall>m \<in> set ms. length (snd m) < 2 ^ 32"
  shows "map snd (snd (receive_all en chunks st)) = ms"
proof -
  have "reading st" "unread en st = []" using assms(1) by (simp_all add: idle_def)
  then have "settled en (fst (receive_all en chunks st))"
    by (intro receive_all_settled) (simp_all add: settled_def parse_frames_short)
  with receive_all_parses [OF \<open>reading st\<close>, of en chunks] \<open>unread en st = []\<close> assms(2)
    parse_frames_concat [OF assms(3), of en "[]"]
  show ?thesis by (simp add: settled_def parse_frames_short)
qed

lemma sleeps_of_segments:
  "poll_state (client_network en (\<lambda>i. if i < length chunks then [Bytes_received (chunks ! i)] else [])) 0 k s =
    fold (client_event en) (map Bytes_received (take k chunks)) s"
proof (induction k)
  case (Suc k)
  then show ?case
    by (cases "k < length chunks")
      (simp_all add: poll_state_Suc client_network_def take_Suc_conv_app_nth del: poll_state.simps(2))
qed simp

text \<open>Polling finds what is there first.\<close>

lemma poll_first:
  assumes "look (poll_state others 0 k s) = Some x"
    and "\<And>j y. look (poll_state others 0 j s) = Some y \<Longrightarrow> y = x"
  shows "poll look others 0 s = Some x"
proof -
  let ?P = "\<lambda>j. look (poll_state others 0 j s) \<noteq> None"
  have P: "?P k" using assms(1) by simp
  have "look (poll_state others 0 (LEAST j. ?P j) s) \<noteq> None" by (rule LeastI [of ?P, OF P])
  then have "look (poll_state others 0 (LEAST j. ?P j) s) = Some x" using assms(2) by blast
  moreover have "look (poll_state others 0 j s) = None" if "j < (LEAST j. ?P j)" for j
    using not_less_Least [OF that] by simp
  ultimately show ?thesis by (intro poll_found)
qed

section \<open>A lost connection\<close>

text \<open>A client that no longer reads.\<close>

definition deaf :: "'j submitter \<Rightarrow> bool" where
  "deaf s \<longleftrightarrow> (\<exists>st. submitter_stream s = Some st \<and> strm_pending st = No_read)"

lemma read_fail_pending [simp]: "strm_pending (read_fail en st) = No_read"
  by (cases "strm_pending st") (simp_all add: read_fail_def on_object_id_def on_header_def on_body_def)

lemma receive_No_read:
  "strm_pending st = No_read \<Longrightarrow> receive en bs st = (st\<lparr>strm_inbuf := strm_inbuf st @ bs\<rparr>, [])"
  by (simp add: receive_def read_loop.simps [of en "_\<lparr>strm_inbuf := _\<rparr>"] read_ready_def)

lemma deaf_event: "deaf s \<Longrightarrow> deaf (client_event en ev s) \<and> cached_objects (client_event en ev s) = cached_objects s"
  by (cases ev) (auto simp: deaf_def receive_No_read receive_responses_def)

lemma deaf_events:
  "deaf s \<Longrightarrow> deaf (fold (client_event en) evs s) \<and> cached_objects (fold (client_event en) evs s) = cached_objects s"
  by (induction evs arbitrary: s) (auto simp: deaf_event)

lemma deaf_sleeps:
  "deaf s \<Longrightarrow> deaf (poll_state (client_network en events) 0 k s)
    \<and> cached_objects (poll_state (client_network en events) 0 k s) = cached_objects s"
  by (induction k) (simp_all add: poll_state_Suc client_network_def deaf_events del: poll_state.simps(2))

lemma deaf_Get:
  assumes "deaf s" and "cached oid s = None"
  shows "Get mp (client_network en events) s (DousiFuture T oid) = None"
  using assms deaf_sleeps [OF assms(1)] by (intro Get_waits) (simp_all add: DousiFuture_def cached_def)

section \<open>Properties\<close>

text \<open>
  C14: \<^verbatim>\<open>Get\<close> returns once the bytes of the response have arrived, however the network cuts them: when
  the connection carries a sequence of responses with different ids, one segment a sleep, and the
  future's is one of them, \<^verbatim>\<open>Get\<close> returns the decoded body of that response.
\<close>

theorem get_over_any_segmentation:
  assumes "submitter_stream s = Some st" and "idle en st" and "unat oid < 2 ^ 32" and "cached oid s = None"
    and "concat chunks = concat (map (frame en) rs)" and "\<forall>m \<in> set rs. length (snd m) < 2 ^ 32"
    and "distinct (map fst rs)" and "(ucast oid, buffer) \<in> set rs"
  shows "Get mp (client_network en (\<lambda>i. if i < length chunks then [Bytes_received (chunks ! i)] else [])) s
      (DousiFuture T oid) =
    Some (case res_bind (mp_unpack mp buffer) (mp_as mp T) of
       Inl e \<Rightarrow> (Inl e, DousiFuture T oid)
     | Inr v \<Rightarrow> (Inr (Some v), (DousiFuture T oid)\<lparr>data_ptr := Some v, has_data := True\<rparr>))"
proof -
  let ?net = "client_network en (\<lambda>i. if i < length chunks then [Bytes_received (chunks ! i)] else [])"
  let ?got = "\<lambda>j. map snd (snd (receive_all en (take j chunks) st))"
  have state: "cached oid (poll_state ?net 0 j s) = map_of (rev (?got j)) (ucast oid)" for j
  proof -
    have "cached oid (s\<lparr>submitter_stream := x\<rparr>) = None" for x using assms(4) by (simp add: cached_def)
    then show ?thesis
      by (simp add: sleeps_of_segments segments_received [OF assms(1)] cached_receive_responses [OF assms(3)]
          split: option.split)
  qed
  have all: "?got (length chunks) = rs" using receive_all_frames [OF assms(2,5,6)] by simp
  have first: "\<exists>later. rs = ?got j @ later" for j
    using all receive_all_append [of en "take j chunks" "drop j chunks" st] by auto
  have "map_of (rev rs) (ucast oid) = Some buffer"
    using assms(7,8) by (intro map_of_is_SomeI) (simp_all add: rev_map [symmetric])
  with state [of "length chunks"] all have found: "cached oid (poll_state ?net 0 (length chunks) s) = Some buffer"
    by simp
  have "y = buffer" if "cached oid (poll_state ?net 0 j s) = Some y" for j y
  proof -
    obtain later where later: "rs = ?got j @ later" using first by blast
    from that state have "(ucast oid, y) \<in> set (?got j)" by (auto dest: map_of_SomeD)
    with later have "(ucast oid, y) \<in> set rs" by (metis UnI1 set_append)
    with assms(7,8) show ?thesis by (auto dest: eq_key_imp_eq_value)
  qed
  from poll_first [of "cached oid" ?net "length chunks" s, OF found this] show ?thesis
    by (simp add: Get_def GetObject_def DousiFuture_def split: sum.splits)
qed

text \<open>Two responses in three segments, that of call 1 first.\<close>

theorem get_over_any_segmentation_witness:
  "\<exists>net. Get wire_msgpack net connected_client (DousiFuture (Base ''bool'') 0) =
    Some (Inr (Some (WBool True)), (DousiFuture (Base ''bool'') 0)\<lparr>data_ptr := Some (WBool True), has_data := True\<rparr>)"
proof -
  let ?rs = "[(1, [0xc2]), (0, [0xc3])] :: (u32 \<times> bytes) list"
  let ?bs = "concat (map (frame Little_endian) ?rs)"
  let ?chunks = "[take 3 ?bs, take 10 (drop 3 ?bs), drop 13 ?bs]"
  have "concat [take 3 bs, take 10 (drop 3 bs), drop 13 bs] = bs" for bs :: bytes
  proof -
    have "drop 13 bs = drop 10 (drop 3 bs)" by simp
    then show ?thesis by (simp only: concat.simps append_Nil2 append_take_drop_id)
  qed
  then have cut: "concat ?chunks = ?bs" .
  have decoded: "res_bind (mp_unpack wire_msgpack [0xc3]) (mp_as wire_msgpack (Base ''bool'')) = Inr (WBool True)"
    using wire_unpack_value [of "Base ''bool''" "WBool True"] by (simp add: wire_msgpack_def)
  have "idle Little_endian (Start (AsioStream 0))" by (simp add: idle_def AsioStream_def)
  from get_over_any_segmentation [OF connected_client_simps(1) this _ _ cut, of 0 "[0xc3]" wire_msgpack "Base ''bool''"]
  show ?thesis unfolding decoded by (auto simp: cached_def)
qed

text \<open>
  C21: a lost connection is never noticed: once the read of a client has failed, the \<^verbatim>\<open>Get\<close> of every call
  whose response had not been cached never returns, and so does the \<^verbatim>\<open>Get\<close> of the next call, which
  is made without an error; whatever happens on the connection.
\<close>

theorem lost_connection_hangs:
  assumes "submitter_stream s = Some st" and "s' = client_event en Connection_lost s"
    and "cached (curr_object_id s) s = None"
  shows "(\<forall>oid T. cached oid s = None \<longrightarrow> Get mp (client_network en events) s' (DousiFuture T oid) = None)
    \<and> (\<exists>f s''. Call en mp h m args s' = Inr (f, s'') \<and> Get mp (client_network en events) s'' f = None)"
proof (intro conjI allI impI)
  have deaf: "deaf s'" and same: "cached_objects s' = cached_objects s" and ids: "curr_object_id s' = curr_object_id s"
    and stream: "submitter_stream s' = Some (read_fail en st)"
    using assms(1,2) by (simp_all add: deaf_def)
  show "Get mp (client_network en events) s' (DousiFuture T oid) = None" if "cached oid s = None" for oid T
    using that same by (intro deaf_Get [OF deaf]) (simp add: cached_def)
  let ?s = "s'\<lparr>curr_object_id := curr_object_id s' + 1,
    submitter_stream := Some (Write en (ucast (curr_object_id s')) (call_buffer mp h m args) (read_fail en st))\<rparr>"
  have "deaf ?s" by (simp add: deaf_def Write_def)
  moreover have "cached (curr_object_id s') ?s = None" using assms(3) same ids by (simp add: cached_def)
  ultimately have "Get mp (client_network en events) ?s (DousiFuture (future_type (GetMethod m)) (curr_object_id s')) = None"
    by (rule deaf_Get)
  with Call_eq [OF stream] show "\<exists>f s''. Call en mp h m args s' = Inr (f, s'')
      \<and> Get mp (client_network en events) s'' f = None"
    by blast
qed

theorem lost_connection_hangs_witness:
  "Get wire_msgpack (client_network Little_endian (\<lambda>i. [Bytes_received (frame Little_endian (0, [0xc3]))]))
    (client_event Little_endian Connection_lost connected_client) (DousiFuture (Base ''bool'') 0) = None"
  using conjunct1 [OF lost_connection_hangs [OF connected_client_simps(1) refl, where mp = wire_msgpack and
      m = echo_method and h = "ServiceHandle ''Echoer''" and args = "[]"]]
  by (simp add: cached_def)

end
