(* ===== verification/Benchmark_Clients.thy ===== *)
theory Benchmark_Clients
  imports Benchmarks Executor_Lifetime Client_Network
begin

text \<open>
  The two benchmark clients as whole programs: \<^verbatim>\<open>benchmark_client.cc\<close> and the twelve threads of
  \<^verbatim>\<open>benchmark_multi_threads_client.cc\<close>. They call without waiting and without an end; the sleeps are
  left out, in which the client's network thread runs.
\<close>

section \<open>The programs\<close>

text \<open>A round of a loop: a call whose future is thrown away. The state is the submitter and the counter \<^verbatim>\<open>i\<close>.\<close>

type_synonym benchmark_state = "unit submitter \<times> u32"

definition call_and_forget ::
  "(qps, wire_value) client_call \<Rightarrow> unit submitter \<Rightarrow> unit submitter res" where
  "call_and_forget c s = (case c of (h, m, args) \<Rightarrow>
     res_bind (Call Little_endian wire_msgpack h m args s) (\<lambda>(_, s). Inr s))"

definition benchmark_client_round :: "unit rpc_client \<Rightarrow> benchmark_state \<Rightarrow> benchmark_state res" where
  "benchmark_client_round rpc_client x =
     res_bind (call_and_forget (benchmark_client_call rpc_client) (fst x)) (\<lambda>s. Inr (s, snd x))"

definition benchmark_thread_round :: "unit rpc_client \<Rightarrow> benchmark_state \<Rightarrow> benchmark_state res" where
  "benchmark_thread_round rpc_client x =
     res_bind (call_and_forget (benchmark_thread_call rpc_client (snd x)) (fst x)) (\<lambda>s. Inr (s, snd x + 1))"

text \<open>The client's network thread, between two rounds.\<close>

definition network_between :: "(nat \<Rightarrow> network_event list) \<Rightarrow> nat \<Rightarrow> benchmark_state \<Rightarrow> benchmark_state" where
  "network_between events i x = (client_network Little_endian events i (fst x), snd x)"

definition benchmark_client ::
  "(string \<Rightarrow> string \<Rightarrow> 'e res) \<Rightarrow> ('e \<Rightarrow> bool) \<Rightarrow> (nat \<Rightarrow> network_event list) \<Rightarrow> logging \<Rightarrow> unit res option" where
  "benchmark_client resolver connects events l =
     (case RpcClient start_ok resolver connects ''127.0.0.1:10002'' () l of
        Inl f \<Rightarrow> Some (Inl f)
      | Inr rpc_client \<Rightarrow>
          endless (benchmark_client_round rpc_client) (network_between events) 0 (cli_submitter rpc_client, 0))"

definition benchmark_thread ::
  "(string \<Rightarrow> string \<Rightarrow> 'e res) \<Rightarrow> ('e \<Rightarrow> bool) \<Rightarrow> (nat \<Rightarrow> network_event list) \<Rightarrow> logging \<Rightarrow> unit res option" where
  "benchmark_thread resolver connects events l =
     (case RpcClient start_ok resolver connects ''127.0.0.1:10002'' () l of
        Inl f \<Rightarrow> Some (Inl f)
      | Inr rpc_client \<Rightarrow>
          endless (benchmark_thread_round rpc_client) (network_between events) 0 (cli_submitter rpc_client, 0))"

text \<open>\<^verbatim>\<open>main\<close> starts the threads and joins them; each has its own client, and meets the log as the others left it.\<close>

definition benchmark_multi_threads_client ::
  "(string \<Rightarrow> string \<Rightarrow> 'e res) \<Rightarrow> ('e \<Rightarrow> bool) \<Rightarrow> (nat \<Rightarrow> nat \<Rightarrow> network_event list) \<Rightarrow> (nat \<Rightarrow> logging) \<Rightarrow>
   unit res option" where
  "benchmark_multi_threads_client resolver connects events l =
     join_all (map (\<lambda>k. benchmark_thread resolver connects (events k) (l k)) [0..<12])"

section \<open>Lemmas\<close>

lemma receive_responses_ids [simp]: "curr_object_id (receive_responses rs s) = curr_object_id s"
  unfolding receive_responses_def by (induction rs arbitrary: s) (auto simp: cache_object_def)

lemma read_fail_writes [simp]: "strm_writes (read_fail en st) = strm_writes st"
  by (cases "strm_pending st") (simp_all add: read_fail_def on_object_id_def on_header_def on_body_def)

text \<open>The network thread leaves the ids and the writes alone.\<close>

definition handed_over :: "nat \<Rightarrow> bytes list \<Rightarrow> 'j submitter \<Rightarrow> bool" where
  "handed_over k ws s \<longleftrightarrow> curr_object_id s = of_nat k
     \<and> (\<exists>st. submitter_stream s = Some st \<and> strm_writes st = ws)"

lemma handed_over_event: "handed_over k ws s \<Longrightarrow> handed_over k ws (client_event en ev s)"
  by (cases ev) (auto simp: handed_over_def)

lemma handed_over_network: "handed_over k ws s \<Longrightarrow> handed_over k ws (client_network en events i s)"
proof -
  have "handed_over k ws s \<Longrightarrow> handed_over k ws (fold (client_event en) evs s)" for evs
    by (induction evs arbitrary: s) (simp_all add: handed_over_event)
  then show "handed_over k ws s \<Longrightarrow> handed_over k ws (client_network en events i s)"
    by (simp add: client_network_def)
qed

lemma call_and_forget_hands_over:
  assumes "handed_over k ws s"
  shows "\<exists>s'. call_and_forget c s = Inr s'
    \<and> handed_over (Suc k) (ws @ [frame Little_endian (of_nat k, buffer_of wire_msgpack c)]) s'"
proof -
  obtain st where st: "curr_object_id s = of_nat k" "submitter_stream s = Some st" "strm_writes st = ws"
    using assms by (auto simp: handed_over_def)
  obtain h m args where c: "c = (h, m, args)" by (cases c)
  show ?thesis
    using st by (simp add: call_and_forget_def c Call_eq [OF st(2)] handed_over_def buffer_of_def ucast_of_nat_u64_u32)
qed

text \<open>The frames of the first rounds of a thread.\<close>

definition thread_frames :: "unit rpc_client \<Rightarrow> nat \<Rightarrow> bytes list" where
  "thread_frames c k =
     map (\<lambda>i. frame Little_endian (of_nat i, buffer_of wire_msgpack (benchmark_thread_call c (of_nat i)))) [0..<k]"

lemma thread_rounds:
  assumes "handed_over n (thread_frames c n) s"
  shows "\<exists>s'. before_round (benchmark_thread_round c) (network_between events) i k (s, of_nat n) = Inr (s', of_nat (n + k))
    \<and> handed_over (n + k) (thread_frames c (n + k)) s'"
  using assms
proof (induction k arbitrary: n s i)
  case (Suc k)
  obtain s1 where s1: "call_and_forget (benchmark_thread_call c (of_nat n)) s = Inr s1"
    "handed_over (Suc n) (thread_frames c (Suc n)) s1"
    using call_and_forget_hands_over [OF Suc.prems, of "benchmark_thread_call c (of_nat n)"]
    by (auto simp: thread_frames_def)
  from Suc.IH [OF handed_over_network [OF s1(2)], of "Suc i" "Little_endian" events i] s1(1) show ?case
    by (simp add: benchmark_thread_round_def network_between_def add.commute)
qed simp

lemma client_starts:
  assumes "resolver ''127.0.0.1'' ''10002'' = Inr endpoints" and "connects endpoints"
  shows "\<exists>c. RpcClient start_ok resolver connects ''127.0.0.1:10002'' () l = Inr c \<and> handed_over 0 [] (cli_submitter c)"
proof -
  have "Endpoint_of_address (''127.0.0.1'' @ '':'' @ to_string 10002) = Inr \<lparr>host = ''127.0.0.1'', port = of_nat 10002\<rparr>"
    using Endpoint_of_address_colon [of "''127.0.0.1''" "to_string 10002"] by (simp add: stoi_to_string npos_def del: ports)
  then show ?thesis
    using assms
    by (simp add: RpcClient_def Let_def Submitter_Init_def Resolve_def GetHost_def GetPort_def DoConnect_def
        Submitter_def Submitter_of_def handed_over_def Start_def DoReadObjectID_def AsioStream_def)
qed

lemma thread_for_ever:
  assumes "handed_over 0 [] s"
  shows "endless (benchmark_thread_round c) (network_between events) i (s, 0) = None"
  unfolding endless_iff
proof (intro allI)
  fix k f
  have "handed_over 0 (thread_frames c 0) s" using assms by (simp add: thread_frames_def)
  from thread_rounds [OF this, of events i k]
  show "before_round (benchmark_thread_round c) (network_between events) i k (s, 0) \<noteq> Inl f" by auto
qed

lemma client_for_ever:
  assumes "handed_over 0 [] s"
  shows "endless (benchmark_client_round c) (network_between events) i (s, 0) = None"
proof (rule endless_runs [where I = "\<lambda>x. \<exists>k ws. handed_over k ws (fst x)"])
  fix x :: benchmark_state
  assume "\<exists>k ws. handed_over k ws (fst x)"
  then obtain k ws where "handed_over k ws (fst x)" by blast
  from call_and_forget_hands_over [OF this, of "benchmark_client_call c"]
  show "\<exists>y. benchmark_client_round c x = Inr y \<and> (\<exists>k ws. handed_over k ws (fst y))"
    by (fastforce simp: benchmark_client_round_def)
next
  fix j and x :: benchmark_state
  assume "\<exists>k ws. handed_over k ws (fst x)"
  then show "\<exists>k ws. handed_over k ws (fst (network_between events j x))"
    using handed_over_network unfolding network_between_def fst_conv by blast
qed (use assms in auto)

section \<open>Properties\<close>

text \<open>
  The benchmark's clients never end and never wait: when the server's address resolves and accepts,
  neither program returns, whatever comes over their connections or if these are lost; and after k
  rounds a thread has handed k frames to its socket, the calls of its rounds in their order with the
  ids 0, 1, 2 and so on: whether the server has answered any makes no difference.
\<close>

theorem benchmark_clients_never_end:
  assumes "resolver ''127.0.0.1'' ''10002'' = Inr endpoints" and "connects endpoints"
  shows "benchmark_client resolver connects events l = None
    \<and> benchmark_multi_threads_client resolver connects threads ls = None
    \<and> (\<exists>c. RpcClient start_ok resolver connects ''127.0.0.1:10002'' () l = Inr c
        \<and> (\<forall>k. \<exists>s st. before_round (benchmark_thread_round c) (network_between events) 0 k (cli_submitter c, 0) =
              Inr (s, of_nat k) \<and> submitter_stream s = Some st \<and> strm_writes st = thread_frames c k))"
proof (intro conjI)
  obtain c where c: "RpcClient start_ok resolver connects ''127.0.0.1:10002'' () l = Inr c"
    "handed_over 0 [] (cli_submitter c)"
    using client_starts [of resolver endpoints connects, OF assms] by blast
  then show "benchmark_client resolver connects events l = None"
    by (simp add: benchmark_client_def client_for_ever)
  have "benchmark_thread resolver connects es l' = None" for es l'
    using client_starts [of resolver endpoints connects, OF assms, of l'] thread_for_ever
    by (auto simp: benchmark_thread_def)
  then show "benchmark_multi_threads_client resolver connects threads ls = None"
    unfolding benchmark_multi_threads_client_def by (intro join_all_waits) auto
  have "handed_over 0 (thread_frames c 0) (cli_submitter c)" using c(2) by (simp add: thread_frames_def)
  from thread_rounds [OF this, of events 0] c(1)
  show "\<exists>c. RpcClient start_ok resolver connects ''127.0.0.1:10002'' () l = Inr c
      \<and> (\<forall>k. \<exists>s st. before_round (benchmark_thread_round c) (network_between events) 0 k (cli_submitter c, 0) =
            Inr (s, of_nat k) \<and> submitter_stream s = Some st \<and> strm_writes st = thread_frames c k)"
    by (simp add: handed_over_def) blast
qed

text \<open>Clients whose connection is lost at once.\<close>

theorem benchmark_clients_never_end_witness:
  "benchmark_client (\<lambda>h p. Inr (h, p)) (\<lambda>_. True) (\<lambda>_. [Connection_lost]) logging_initial = None"
  using benchmark_clients_never_end [of "\<lambda>h p. Inr (h, p)" "(''127.0.0.1'', ''10002'')" "\<lambda>_. True"] by simp

end
