(* ===== verification/Timers.thy ===== *)
theory Timers
  imports Dousi_Prelude
begin

text \<open>
  \<^verbatim>\<open>common/utils.h\<close>: a callback that a detached thread calls after a time. The threads are what they
  still have to do and when; nothing waits for them and nothing stops them.
\<close>

section \<open>Detached threads\<close>

text \<open>\<open>'e\<close> is what the callbacks act on; times are in milliseconds.\<close>

record 'e timed =
  now_ms :: nat
  sleepers :: "(nat \<times> ('e \<Rightarrow> 'e res)) list"
  around :: 'e

definition AsyncTimeoutMsOnNewThread :: "u64 \<Rightarrow> ('e \<Rightarrow> 'e res) \<Rightarrow> 'e timed \<Rightarrow> 'e timed" where
  "AsyncTimeoutMsOnNewThread timeout_ms timeout_callback w =
     w\<lparr>sleepers := sleepers w @ [(now_ms w + unat timeout_ms, timeout_callback)]\<rparr>"

text \<open>The callbacks of the threads that wake up by now, those that sleep on left over.\<close>

fun call_due :: "nat \<Rightarrow> (nat \<times> ('e \<Rightarrow> 'e res)) list \<Rightarrow> 'e \<Rightarrow> ((nat \<times> ('e \<Rightarrow> 'e res)) list \<times> 'e) res" where
  "call_due now [] x = Inr ([], x)"
| "call_due now ((due, callback) # ths) x =
     (if due \<le> now then res_bind (callback x) (call_due now ths)
      else res_bind (call_due now ths x) (\<lambda>(ths, x). Inr ((due, callback) # ths, x)))"

definition time_passes :: "nat \<Rightarrow> 'e timed \<Rightarrow> 'e timed res" where
  "time_passes d w =
     res_bind (call_due (now_ms w + d) (sleepers w) (around w)) (\<lambda>(ths, x).
     Inr (w\<lparr>now_ms := now_ms w + d, sleepers := ths, around := x\<rparr>))"

section \<open>Lemmas\<close>

lemma call_due_none: "list_all (\<lambda>th. now < fst th) ths \<Longrightarrow> call_due now ths x = Inr (ths, x)"
  by (induction ths) auto

lemma call_due_left: "call_due now ths x = Inr (ths', y) \<Longrightarrow> ths' = filter (\<lambda>th. now < fst th) ths"
  by (induction now ths x arbitrary: ths' y rule: call_due.induct)
    (auto simp: res_bind_Inr_iff split: if_splits)

text \<open>One thread: its callback is called once, and not before its time.\<close>

lemma one_timer:
  assumes "sleepers w = []" and "w' = AsyncTimeoutMsOnNewThread timeout_ms callback w"
  shows "d < unat timeout_ms \<Longrightarrow> time_passes d w' = Inr (w'\<lparr>now_ms := now_ms w + d\<rparr>)"
    and "unat timeout_ms \<le> d \<Longrightarrow> time_passes d w' =
      res_bind (callback (around w)) (\<lambda>x. Inr (w\<lparr>now_ms := now_ms w + d, sleepers := [], around := x\<rparr>))"
  using assms by (auto simp: time_passes_def AsyncTimeoutMsOnNewThread_def res_bind_assoc)

end
