(* ===== verification/Test_Programs.thy ===== *)
theory Test_Programs
  imports Client_Session Timers "HOL-Library.Sublist"
begin

text \<open>
  The programs under \<^verbatim>\<open>src/tests\<close> as calls of the library, and what they meet: the calls of
  \<^verbatim>\<open>basic_call_test.cc\<close> on the test server, the log lines of \<^verbatim>\<open>logging_test.cc\<close>, the producers and
  the consumer of \<^verbatim>\<open>concurrent_queue_test.cc\<close>, the names of \<^verbatim>\<open>nameof_test.cc\<close> and
  \<^verbatim>\<open>method_macro_test.cc\<close>, and the services of \<^verbatim>\<open>tests/distributed\<close>.
\<close>

section \<open>The basic calls\<close>

text \<open>
  The calls the test makes. It waits for each but the void call \<^verbatim>\<open>Perform\<close>; here the server has
  finished every call when the next is sent (\<open>calls_overtake\<close> shows what happens when it has not).
\<close>

definition basic_calls :: "'j rpc_client \<Rightarrow> (service_state, wire_value) client_call list" where
  "basic_calls rpc_client =
     (let echoer = RpcClient_GetService ''Echoer'' rpc_client;
          calculator = RpcClient_GetService ''Calculator'' rpc_client;
          void_return = RpcClient_GetService ''VoidReturnService'' rpc_client;
          user_defined = RpcClient_GetService ''UserDefinedClass'' rpc_client
      in [(echoer, Remote ''&Echoer::echo'' ptr_echo, [WStr ''hello world'']),
          (calculator, Remote ''&Calculator::add'' ptr_Calculator_add, [WInt 10, WInt 29]),
          (calculator, Remote ''&Calculator::add'' ptr_Calculator_add, [WInt 20, WInt 30]),
          (calculator, Remote ''&Calculator::sub'' ptr_Calculator_sub, [WInt 30, WInt 10]),
          (void_return, Remote ''&VoidReturnService::Get'' ptr_Get, []),
          (void_return, Remote ''&VoidReturnService::Perform'' ptr_Perform, [WStr ''456'']),
          (void_return, Remote ''&VoidReturnService::Get'' ptr_Get, []),
          (user_defined, Remote ''&UserDefinedClass::IncrAge'' ptr_IncrAge, [WPerson ''Allen'' 19, WInt 2])])"

text \<open>Its assertions; it never asks for the result of \<^verbatim>\<open>Perform\<close>.\<close>

definition basic_call_asserts :: "wire_value option res option list \<Rightarrow> bool" where
  "basic_call_asserts outs = (case outs of
       [echoed_str, sum1, sum2, sub, before, _, after, person] \<Rightarrow>
         echoed_str = Some (Inr (Some (WStr ''hello world''))) \<and> sum1 = Some (Inr (Some (WInt 39)))
         \<and> sum2 = Some (Inr (Some (WInt 50))) \<and> sub = Some (Inr (Some (WInt 20)))
         \<and> before = Some (Inr (Some (WStr ''123''))) \<and> after = Some (Inr (Some (WStr ''456'')))
         \<and> person = Some (Inr (Some (WPerson ''Allen'' 21)))
     | _ \<Rightarrow> False)"

definition basic_call_test ::
  "(string \<Rightarrow> string \<Rightarrow> 'e res) \<Rightarrow> ('e \<Rightarrow> bool) \<Rightarrow> u64 \<Rightarrow>
   (service_state, wire_value, wire_object DousiRequest std_locked_queue, DousiResponse std_locked_queue) executor \<Rightarrow>
   bool res" where
  "basic_call_test resolver connects sid e =
     res_bind (RpcClient start_ok resolver connects ''127.0.0.1:10002'' () logging_initial) (\<lambda>rpc_client.
     res_bind (session wire_libs (\<lambda>_. None) [] sid (basic_calls rpc_client)
       ((cli_logging rpc_client, cli_submitter rpc_client), e)) (\<lambda>(outs, _).
     Inr (basic_call_asserts outs)))"

text \<open>A call of a method whose service is gone, on a server that does nothing else.\<close>

context executor_queues
begin

lemma exchange_dangles:
  assumes "msgpack_codec (lb_msgpack lb) has_type" and "server_ready lb rq rs sid st e"
    and "registered_methods e name = Some (Some cl)" and "instances e (cl_service_instance cl) = None"
    and "0 < work_thread_num (executor_options e)"
    and "args_fit (lb_msgpack lb) has_type service name m args"
    and buffer: "buffer = PackArgsToBuffer (lb_msgpack lb)
        (mp_string (lb_msgpack lb) service # mp_string (lb_msgpack lb) name # args)"
    and "length buffer < 2 ^ 32"
  shows "exchange lb sid (frame (lb_order lb) (oid, buffer)) e = Inl Dangling_pointer"
proof -
  obtain unpacked where u: "mp_unpack (lb_msgpack lb) buffer = Inr unpacked"
    "mp_as_names (lb_msgpack lb) unpacked = Inr (service, name)"
    using msgpack_codec.packed_call [OF assms(1,6)] buffer by blast
  let ?r = "\<lparr>req_object_id = oid, req_stream_id = sid, req_unpacked = unpacked, req_method_name = name\<rparr>"
  have st: "streams e sid = Some st" "strm_id st = sid" "reading st" "unread (lb_order lb) st = []"
    "rq (request_queue e) = []"
    using assms(2) by (simp_all add: server_ready_def idle_def)
  let ?e = "e\<lparr>streams := (streams e)(sid \<mapsto> fst (receive (lb_order lb) (frame (lb_order lb) (oid, buffer)) st)),
    request_queue := BoostLockFreeQueue_Push (lb_requests lb) ?r (request_queue e)\<rparr>"
  have bytes: "on_bytes lb sid (frame (lb_order lb) (oid, buffer)) e = Inr ?e"
    using receive_one_frame [OF st(3,4) assms(8), of oid] st(1,2) u assms(5)
    by (simp add: on_bytes_def InvokeMethod_def Let_def)
  have "rq (request_queue ?e) = ?r # []" using st(5) by (simp add: req.contents_push)
  from req.pop_head [OF this] obtain q where "lf_pop (lb_requests lb) (request_queue ?e) = Some (?r, q)" by blast
  then have "work_once lb ?e = Inl Dangling_pointer"
    using assms(3,4)
    by (simp add: work_once_def PerformRequest_def compute_response_def find_method_def call_closure_def)
  with bytes show ?thesis by (simp add: exchange_def)
qed

end

lemma call_dangles:
  assumes "executor_queues lb rq rs" and "msgpack_codec (lb_msgpack lb) has_type" and "server_ready lb rq rs sid st e"
    and "registered_methods e (GetName m) = Some (Some cl)" and "instances e (cl_service_instance cl) = None"
    and "0 < work_thread_num (executor_options e)" and "submitter_stream s = Some cst" and "strm_writes cst = []"
    and "args_fit (lb_msgpack lb) has_type (sh_service_name h) (GetName m) (GetMethod m) args"
    and "length (call_buffer (lb_msgpack lb) h m args) < 2 ^ 32"
  shows "session lb throws src sid ((h, m, args) # cs) ((l, s), e) = Inl Dangling_pointer"
proof -
  let ?w = "ucast (curr_object_id s) :: u32" and ?b = "call_buffer (lb_msgpack lb) h m args"
  have "\<exists>s'. client_sends (s\<lparr>curr_object_id := curr_object_id s + 1,
      submitter_stream := Some (Write (lb_order lb) ?w ?b cst)\<rparr>) = (frame (lb_order lb) (?w, ?b), s')"
    by (simp add: client_sends_def drain_Write [OF assms(8)])
  then obtain s' where sends: "client_sends (s\<lparr>curr_object_id := curr_object_id s + 1,
      submitter_stream := Some (Write (lb_order lb) ?w ?b cst)\<rparr>) = (frame (lb_order lb) (?w, ?b), s')" ..
  have "exchange lb sid (frame (lb_order lb) (?w, ?b)) e = Inl Dangling_pointer"
    by (rule executor_queues.exchange_dangles [OF assms(1-6) assms(9) call_buffer_def assms(10)])
  then show ?thesis by (simp add: call_and_get_def Call_eq [OF assms(7)] sends)
qed

text \<open>
  The test server if its services outlived their blocks, with one connection. On it the test passes, when
  the server finishes each call before the next.
\<close>

definition kept_executor ::
  "io_thread_pool \<Rightarrow> (service_state, wire_value, wire_object DousiRequest std_locked_queue, DousiResponse std_locked_queue) executor" where
  "kept_executor pool = (add_stream test_executor)\<lparr>io_pool := pool,
     instances := [1 \<mapsto> \<lparr>service_name = [], service_object = 0\<rparr>, 3 \<mapsto> \<lparr>service_name = [], service_object = 2\<rparr>,
       5 \<mapsto> \<lparr>service_name = [], service_object = 4\<rparr>, 7 \<mapsto> \<lparr>service_name = [], service_object = 6\<rparr>]\<rparr>"

lemma kept_services:
  "registered_methods (kept_executor pool) = registered_methods test_executor"
  "instances (kept_executor pool) 1 = Some \<lparr>service_name = [], service_object = 0\<rparr>"
  "instances (kept_executor pool) 3 = Some \<lparr>service_name = [], service_object = 2\<rparr>"
  "instances (kept_executor pool) 5 = Some \<lparr>service_name = [], service_object = 4\<rparr>"
  "instances (kept_executor pool) 7 = Some \<lparr>service_name = [], service_object = 6\<rparr>"
  "objects (kept_executor pool) = objects test_executor"
  by (simp_all add: kept_executor_def add_stream_def)

lemma basic_calls_local:
  "\<exists>obs. local_calls (kept_executor pool) (basic_calls c) (objects (kept_executor pool)) =
    Inr ([Some (WStr ''hello world''), Some (WInt 39), Some (WInt 50), Some (WInt 20), Some (WStr ''123''), None,
      Some (WStr ''456''), Some (WPerson ''Allen'' 21)], obs)"
  by (simp add: basic_calls_def Let_def local_call_def kept_services del: One_nat_def)
    (simp add: test_executor_def GetName_def GetMethod_def ptr_echo_def ptr_Calculator_add_def ptr_Calculator_sub_def
      ptr_Perform_def ptr_Get_def ptr_IncrAge_def Echoer_echo_def Calculator_add_def Calculator_sub_def
      VoidReturnService_Perform_def VoidReturnService_Get_def UserDefinedClass_IncrAge_def int_result_def kept_services
      del: One_nat_def)

lemma basic_calls_fit:
  "list_all (call_fits wire_libs wire_has_type (kept_executor pool)) (basic_calls c)"
  "list_all2 (result_fits wire_libs wire_has_type) (basic_calls c)
    [Some (WStr ''hello world''), Some (WInt 39), Some (WInt 50), Some (WInt 20), Some (WStr ''123''), None,
      Some (WStr ''456''), Some (WPerson ''Allen'' 21)]"
proof -
  note pointers = ptr_echo_def ptr_Calculator_add_def ptr_Calculator_sub_def ptr_Perform_def ptr_Get_def ptr_IncrAge_def
  note defs = GetName_def GetMethod_def GetService_def RpcClient_GetService_def ServiceHandle_def args_fit_def
    call_buffer_def PackArgsToBuffer_def method_typed_def future_type_def BaseFunctionTraits_def cpp_int_def std_string_def
    wire_libs_simps wire_msgpack_def wire_pack_tuple_def be32_def pointers
  show "list_all (call_fits wire_libs wire_has_type (kept_executor pool)) (basic_calls c)"
    by (auto simp: basic_calls_def Let_def call_fits_def test_executor_def kept_services defs)
  show "list_all2 (result_fits wire_libs wire_has_type) (basic_calls c)
    [Some (WStr ''hello world''), Some (WInt 39), Some (WInt 50), Some (WInt 20), Some (WStr ''123''), None,
      Some (WStr ''456''), Some (WPerson ''Allen'' 21)]"
    by (simp add: basic_calls_def Let_def result_fits_def defs)
qed

lemma basic_call_test_in_order:
  "basic_call_test (\<lambda>h n. Inr (h, n)) (\<lambda>_. True) 0 (kept_executor pool) = Inr True"
proof -
  let ?c = "\<lparr>cli_submitter = connected_client,
    cli_logging = StartDousiLog start_ok ''/tmp/dousi/rpclient.log'' WARNING 10 3 logging_initial\<rparr>"
  have "Endpoint_of_address (''127.0.0.1'' @ '':'' @ to_string 10002) = Inr \<lparr>host = ''127.0.0.1'', port = of_nat 10002\<rparr>"
    using Endpoint_of_address_colon [of "''127.0.0.1''" "to_string 10002"] by (simp add: stoi_to_string npos_def del: ports)
  then have client: "RpcClient start_ok (\<lambda>h n. Inr (h, n)) (\<lambda>_. True) ''127.0.0.1:10002'' () logging_initial = Inr ?c"
    by (simp add: RpcClient_def Let_def Submitter_Init_def Resolve_def DoConnect_def connected_client_def)
  have "length (basic_calls ?c) = 8" by (simp add: basic_calls_def Let_def)
  then have idle: "client_idle (lb_order wire_libs) (length (basic_calls ?c)) connected_client"
    by (intro client_idle_new) simp
  have "server_ready wire_libs slq_data slq_data 0 (Start (AsioStream 0)) (kept_executor pool)"
    by (simp add: server_ready_def kept_executor_def add_stream_def test_executor_def Executor_def wire_libs_simps
        StdLockedQueue_def idle_def) (simp add: Start_def DoReadObjectID_def AsioStream_def)
  then have server: "server_idle wire_libs slq_data slq_data 0 (kept_executor pool)"
    by (auto simp: server_idle_def Start_def DoReadObjectID_def AsioStream_def)
  obtain obs where local: "local_calls (kept_executor pool) (basic_calls ?c) (objects (kept_executor pool)) =
    Inr ([Some (WStr ''hello world''), Some (WInt 39), Some (WInt 50), Some (WInt 20), Some (WStr ''123''), None,
      Some (WStr ''456''), Some (WPerson ''Allen'' 21)], obs)"
    using basic_calls_local by blast
  from session_local [OF wire_queues.executor_queues_axioms wire_codec idle server basic_calls_fit(1) local basic_calls_fit(2),
      of "\<lambda>_. None" "[]" "cli_logging ?c"]
  show ?thesis by (auto simp: basic_call_test_def client get_outcome_def basic_call_asserts_def)
qed

section \<open>The log of the logging test\<close>

text \<open>\<open>src\<close> is the file's name, the numbers are the lines.\<close>

definition logging_test ::
  "(string \<Rightarrow> u64 \<Rightarrow> u64 \<Rightarrow> string option) \<Rightarrow> (log_line \<Rightarrow> string option) \<Rightarrow> string \<Rightarrow> logging \<Rightarrow> logging res" where
  "logging_test rotating throws src l =
     res_bind (DOUSI_LOG throws src 8 DEBUG [''this debug message won'' @ [CHR 0x27] @ ''t show up '', to_string 456]
       (StartDousiLog rotating ''log/test.log'' INFO 10 3 l)) (\<lambda>l.
     res_bind (DOUSI_LOG throws src 9 WARNING [''Hello '', to_string 123] l) (\<lambda>l.
     res_bind (DOUSI_LOG throws src 10 INFO [''world '', to_string 456, '' 789''] l) (\<lambda>l.
     res_bind (DOUSI_CHECK throws src 11 True ''true''
       [''This is a RAFTCPP_CHECK'', '' message but it won'' @ [CHR 0x27] @ ''t show up''] l) (\<lambda>l.
     Inr (ShutDownDousiLog l)))))"

text \<open>
  What the test does with the file: each line is counted by the first level's name it contains. A line
  of the file is what \<^verbatim>\<open>spdlog\<close> makes of a log line.
\<close>

fun count_lines :: "string list \<Rightarrow> 8 word \<times> 8 word \<times> 8 word \<Rightarrow> 8 word \<times> 8 word \<times> 8 word" where
  "count_lines [] counts = counts"
| "count_lines (line # ls) (debug_count, info_count, warn_count) = count_lines ls
     (if sublist ''debug'' line then (debug_count + 1, info_count, warn_count)
      else if sublist ''info'' line then (debug_count, info_count + 1, warn_count)
      else if sublist ''warning'' line then (debug_count, info_count, warn_count + 1)
      else (debug_count, info_count, warn_count))"

definition logging_test_asserts :: "string list \<Rightarrow> bool" where
  "logging_test_asserts ls = (count_lines ls (0, 0, 0) = (0, 1, 1))"

section \<open>The services of the distributed tests\<close>

datatype distributed_state = TestService1_object | TestService2_object u32

definition TestService1_Ping :: "distributed_state \<Rightarrow> wire_value list \<Rightarrow> (wire_value \<times> distributed_state) res" where
  "TestService1_Ping this args = (case args of [] \<Rightarrow> Inr (WStr ''Pong'', this) | _ \<Rightarrow> Inl (Throws Msgpack_error))"

text \<open>\<^verbatim>\<open>fetch_add\<close> of an atomic \<^verbatim>\<open>int\<close> wraps around and gives the value before.\<close>

definition TestService2_IncrAndGet :: "distributed_state \<Rightarrow> wire_value list \<Rightarrow> (wire_value \<times> distributed_state) res" where
  "TestService2_IncrAndGet this args = (case (this, args) of
       (TestService2_object current, [WInt delta]) \<Rightarrow> Inr (WInt current, TestService2_object (current + delta))
     | _ \<Rightarrow> Inl (Throws Msgpack_error))"

section \<open>The producers and the consumer of the queue's test\<close>

text \<open>Each of two threads pushes these, in this order; the consumer pops twenty thousand times.\<close>

definition producer_values :: "nat list" where
  "producer_values = [0..<10000]"

definition queue_test_run :: "nat queue_op list \<Rightarrow> bool" where
  "queue_test_run ops \<longleftrightarrow> pushed ops \<in> shuffles producer_values producer_values"

text \<open>
  The test's time limit: a detached thread stores into a variable of the test's function, which is
  \<open>None\<close> once the function has returned.
\<close>

definition set_timeout :: "bool option \<Rightarrow> bool option res" where
  "set_timeout is_timeout = (case is_timeout of None \<Rightarrow> Inl Dangling_pointer | Some _ \<Rightarrow> Inr (Some True))"

definition queue_test_timer :: "nat \<Rightarrow> bool option timed res" where
  "queue_test_timer duration =
     res_bind (time_passes duration
       (AsyncTimeoutMsOnNewThread (2 * 1000) set_timeout \<lparr>now_ms = 0, sleepers = [], around = Some False\<rparr>))
       (\<lambda>w. Inr (w\<lparr>around := None\<rparr>))"

section \<open>Names\<close>

definition TestAdder_add :: "unit \<Rightarrow> wire_value list \<Rightarrow> (wire_value \<times> unit) res" where
  "TestAdder_add this args = (case args of
       [WInt x, WInt y] \<Rightarrow> res_bind (int_result (sint x + sint y)) (\<lambda>r. Inr (WInt r, this))
     | _ \<Rightarrow> Inl (Throws Msgpack_error))"

definition method_macro_test :: "string \<times> (wire_value \<times> unit) res" where
  "method_macro_test = (let remote_method = Remote ''&TestAdder::add'' TestAdder_add
     in (GetName remote_method, GetMethod remote_method () [WInt 100, WInt 3000]))"

definition nameof_test :: "string \<times> string" where
  "nameof_test = (cs_str (NAMEOF ''&MyClass::VoidMyMethod0''), cs_str (NAMEOF ''&MyClass::VoidMyMethod1''))"

section \<open>Properties\<close>

text \<open>
  C31: the repository's basic test does not test what it seems to: on the test server its first
  call already goes through a pointer to a service that no longer exists, so nothing the test
  observes is defined.
\<close>

theorem basic_call_test_undefined:
  "\<exists>srv e. test_server = Inr srv \<and> on_accept False (srv_executor srv) = Inr e
    \<and> basic_call_test (\<lambda>h n. Inr (h, n)) (\<lambda>_. True) 0 e = Inl Dangling_pointer"
proof -
  obtain pool srv where srv: "test_server = Inr srv" "srv_executor srv = test_executor\<lparr>io_pool := pool\<rparr>"
    "pool_ok 8 pool"
    using test_server_eq by blast
  have "pool_ok 8 (io_pool (add_stream (srv_executor srv)))" using srv(2,3) by (simp add: add_stream_def)
  from DoAccept_ok [OF this] obtain pool' where
    accept: "on_accept False (srv_executor srv) = Inr ((add_stream (srv_executor srv))\<lparr>io_pool := pool'\<rparr>)"
    by (auto simp: on_accept_eq)
  let ?e = "(add_stream (srv_executor srv))\<lparr>io_pool := pool'\<rparr>"
  let ?c = "\<lparr>cli_submitter = connected_client,
    cli_logging = StartDousiLog start_ok ''/tmp/dousi/rpclient.log'' WARNING 10 3 logging_initial\<rparr>"
  have "Endpoint_of_address (''127.0.0.1'' @ '':'' @ to_string 10002) = Inr \<lparr>host = ''127.0.0.1'', port = of_nat 10002\<rparr>"
    using Endpoint_of_address_colon [of "''127.0.0.1''" "to_string 10002"] by (simp add: stoi_to_string npos_def del: ports)
  then have client: "RpcClient start_ok (\<lambda>h n. Inr (h, n)) (\<lambda>_. True) ''127.0.0.1:10002'' () logging_initial = Inr ?c"
    by (simp add: RpcClient_def Let_def Submitter_Init_def Resolve_def DoConnect_def connected_client_def)
  have ready: "server_ready wire_libs slq_data slq_data 0 (Start (AsioStream 0)) ?e"
    by (simp add: server_ready_def add_stream_def srv(2) test_executor_def Executor_def wire_libs_simps
        StdLockedQueue_def idle_def) (simp add: Start_def DoReadObjectID_def AsioStream_def)
  obtain cst where cst: "submitter_stream connected_client = Some cst" "strm_writes cst = []"
    using client_idle_new [of 0 Little_endian] by (auto simp: client_idle_def)
  note defs = GetName_def GetMethod_def GetService_def RpcClient_GetService_def ServiceHandle_def args_fit_def
    call_buffer_def PackArgsToBuffer_def ptr_echo_def BaseFunctionTraits_def std_string_def wire_libs_simps
    wire_msgpack_def wire_pack_tuple_def be32_def
  have "session wire_libs (\<lambda>_. None) [] 0 (basic_calls ?c) ((cli_logging ?c, connected_client), ?e) = Inl Dangling_pointer"
    unfolding basic_calls_def Let_def
    by (rule call_dangles [OF wire_queues.executor_queues_axioms wire_codec ready _ _ _ cst,
          where cl = "\<lparr>cl_method = ptr_echo, cl_service_instance = 1\<rparr>"])
      (simp_all add: defs add_stream_def srv(2) test_executor_def Executor_def default_options_def)
  with client srv(1) accept show ?thesis by (auto simp: basic_call_test_def)
qed

text \<open>
  The assertions of the logging test hold: the debug line and the line of a check that
  succeeds are not logged, the warning and the information line are, once each and in order.
\<close>

theorem logging_test_passes:
  "\<exists>l. logging_test (\<lambda>_ _ _. None) (\<lambda>_. None) src logging_initial = Inr l
    \<and> map (\<lambda>x. (line_level x, line_text x)) (rev (log_output l)) =
      [(spd_warn, ''Hello 123''), (spd_info, ''world 456 789'')]"
proof -
  have "to_string 123 = ''123''" "to_string 456 = ''456''"
    by (simp_all add: to_string.simps digit_char_def char_of_def bit_0)
  then show ?thesis
    by (simp add: logging_test_def DOUSI_LOG_eq StartDousiLog_def DOUSI_CHECK_def ShutDownDousiLog_def
        logging_initial_def less_eq_LOG_LEVEL_def Let_def)
qed

text \<open>
  So do the assertions on the file, when the two lines show their levels and no other: in particular
  the name of the source file must contain neither \<^verbatim>\<open>debug\<close> nor \<^verbatim>\<open>info\<close>.
\<close>

lemma logging_test_file:
  assumes "sublist ''warning'' warn_line" and "\<not> sublist ''debug'' warn_line" and "\<not> sublist ''info'' warn_line"
    and "sublist ''info'' info_line" and "\<not> sublist ''debug'' info_line"
  shows "logging_test_asserts [warn_line, info_line]"
  using assms by (simp add: logging_test_asserts_def)

text \<open>
  The queue's test leaves a thread behind that writes to a variable of its function: when the test
  takes less than its limit of two seconds, the thread still sleeps when the function returns, and its
  store, when the two seconds are over, is to a variable that is gone.
\<close>

theorem queue_test_timer_dangles:
  assumes "duration < 2000" and "2000 \<le> duration + later"
  shows "\<exists>w. queue_test_timer duration = Inr w \<and> time_passes later w = Inl Dangling_pointer"
proof -
  let ?w = "\<lparr>now_ms = 0, sleepers = [], around = Some False\<rparr>"
  let ?w' = "AsyncTimeoutMsOnNewThread (2 * 1000) set_timeout ?w"
  have "queue_test_timer duration = Inr (?w'\<lparr>now_ms := duration, around := None\<rparr>)"
    using one_timer(1) [of ?w ?w' "2 * 1000" set_timeout duration] assms(1) by (simp add: queue_test_timer_def)
  moreover have "time_passes later (?w'\<lparr>now_ms := duration, around := None\<rparr>) = Inl Dangling_pointer"
    using assms(2) by (simp add: time_passes_def AsyncTimeoutMsOnNewThread_def set_timeout_def)
  ultimately show ?thesis by blast
qed

theorem queue_test_timer_dangles_witness:
  "\<exists>w. queue_test_timer 15 = Inr w \<and> time_passes 1985 w = Inl Dangling_pointer"
  by (rule queue_test_timer_dangles) simp_all

text \<open>
  The queue's test: when the consumer has popped twenty thousand elements it has popped everything
  that the producers pushed and the queue is empty.
\<close>

theorem queue_test_passes:
  assumes "growing_boost_queue lf contents" and "queue_test_run ops"
    and "length (fst (run_queue (BoostLockFreeQueue_Push lf) (lf_pop lf) ops (BoostLockFreeQueue lf))) = 20000"
  shows "contents (snd (run_queue (BoostLockFreeQueue_Push lf) (lf_pop lf) ops (BoostLockFreeQueue lf))) = []
    \<and> fst (run_queue (BoostLockFreeQueue_Push lf) (lf_pop lf) ops (BoostLockFreeQueue lf))
      \<in> shuffles producer_values producer_values"
proof -
  have "length (pushed ops) = length producer_values + length producer_values"
    using assms(2) unfolding queue_test_run_def by (rule length_shuffles)
  then have "length (pushed ops) = 20000" by (simp add: producer_values_def)
  with growing_boost_queue.history_fifo [OF assms(1), of ops] assms(3)
  have "contents (snd (run_queue (BoostLockFreeQueue_Push lf) (lf_pop lf) ops (BoostLockFreeQueue lf))) = []"
    by (metis add_left_imp_eq add_0_right length_0_conv length_append)
  with growing_boost_queue.history_fifo [OF assms(1), of ops] assms(2) show ?thesis
    by (simp add: queue_test_run_def)
qed

lemma names_of_tests:
  "method_macro_test = (''add'', Inr (WInt 3100, ()))" "nameof_test = (''VoidMyMethod0'', ''VoidMyMethod1'')"
  using pretty_name_member [of "''add''" "''TestAdder:''"] pretty_name_member [of "''VoidMyMethod0''" "''MyClass:''"]
    pretty_name_member [of "''VoidMyMethod1''" "''MyClass:''"]
  by (simp_all add: method_macro_test_def nameof_test_def Remote_def NAMEOF_def GetName_def GetMethod_def
      TestAdder_add_def int_result_def is_name_char_def is_name_start_def is_decimal_def char_between_def)

text \<open>\<^verbatim>\<open>IncrAndGet\<close> gives the value before the increment: two calls with 10 give 0 and 10.\<close>

lemma IncrAndGet_before:
  "TestService2_IncrAndGet (TestService2_object n) [WInt d] = Inr (WInt n, TestService2_object (n + d))"
  by (simp add: TestService2_IncrAndGet_def)

end
