(* ===== verification/Sequential_Order.thy ===== *)
theory Sequential_Order
  imports Stateless_Runs
begin

text \<open>
  The server as one object: whatever the threads do, the calls behave as if one thread had
  performed them one after the other, in an order that keeps the calls that were answered before
  others came in ahead of those. Methods may change their objects.
\<close>

section \<open>The reference: one call after the other\<close>

fun serve_in_order ::
  "('v, 'o, 'q, 'r) libs \<Rightarrow> 'o DousiRequest list \<Rightarrow> ('s, 'v, 'q, 'r) executor \<Rightarrow>
   (DousiResponse list \<times> ('s, 'v, 'q, 'r) executor) res" where
  "serve_in_order lb [] e = Inr ([], e)"
| "serve_in_order lb (r # reqs) e =
     res_bind (compute_response lb r e) (\<lambda>(x, e1).
     res_bind (serve_in_order lb reqs e1) (\<lambda>(xs, e2). Inr (x # xs, e2)))"

lemma serve_in_order_append:
  "serve_in_order lb (a @ b) e =
     res_bind (serve_in_order lb a e) (\<lambda>(xs, e1).
     res_bind (serve_in_order lb b e1) (\<lambda>(ys, e2). Inr (xs @ ys, e2)))"
proof (induction a arbitrary: e)
  case Nil
  show ?case by (cases "serve_in_order lb b e") auto
next
  case (Cons r a)
  show ?case
    by (cases "compute_response lb r e") (auto simp: Cons.IH res_bind_assoc split_beta)
qed

lemma serve_in_order_snoc:
  "serve_in_order lb reqs e = Inr (xs, e1) \<Longrightarrow> compute_response lb r e1 = Inr (x, e2) \<Longrightarrow>
   serve_in_order lb (reqs @ [r]) e = Inr (xs @ [x], e2)"
  by (simp add: serve_in_order_append)

lemma serve_in_order_length: "serve_in_order lb reqs e = Inr (xs, e1) \<Longrightarrow> length xs = length reqs"
  by (induction reqs arbitrary: e xs) (auto simp: res_bind_Inr_iff)

text \<open>A response depends on the methods, the services and their objects only.\<close>

lemma compute_response_same:
  assumes "compute_response lb r e = Inr (x, e1)" and "same_service e' e"
  shows "\<exists>e2. compute_response lb r e' = Inr (x, e2) \<and> same_service e2 e1"
  using assms(1)
proof (rule compute_response_Inr)
  fix cl d ob ob'
  assume c: "registered_methods e (req_method_name r) = Some (Some cl)"
    "instances e (cl_service_instance cl) = Some d" "objects e (service_object d) = Some ob"
    "InvokeHelper_Invoke (lb_msgpack lb) (cl_method cl) ob (req_unpacked r) [] = Inr (rsp_result x, ob')"
    "x = \<lparr>rsp_object_id = req_object_id r, rsp_stream_id = req_stream_id r, rsp_result = rsp_result x\<rparr>"
    "e1 = e\<lparr>objects := (objects e)(service_object d \<mapsto> ob')\<rparr>"
  let ?e2 = "e'\<lparr>objects := (objects e')(service_object d \<mapsto> ob')\<rparr>"
  have "compute_response lb r e' = Inr (x, ?e2)"
    using c(1-4) c(5) [symmetric] assms(2)
    by (simp add: compute_response_def find_method_def call_closure_def same_service_def)
  moreover have "same_service ?e2 e1" using assms(2) c(6) by (simp add: same_service_def)
  ultimately show ?thesis by blast
qed

text \<open>The requests of the messages that come in.\<close>

definition message_request :: "('v, 'o, 'q, 'r) libs \<Rightarrow> message \<Rightarrow> 'o DousiRequest list" where
  "message_request lb m = (case mp_unpack (lb_msgpack lb) (snd (snd m)) of Inl _ \<Rightarrow> [] | Inr unpacked \<Rightarrow>
     (case mp_as_names (lb_msgpack lb) unpacked of Inl _ \<Rightarrow> []
      | Inr (service, name) \<Rightarrow>
          [\<lparr>req_object_id = fst (snd m), req_stream_id = fst m, req_unpacked = unpacked, req_method_name = name\<rparr>]))"

definition requests_of :: "('v, 'o, 'q, 'r) libs \<Rightarrow> message list \<Rightarrow> 'o DousiRequest list" where
  "requests_of lb ms = concat (map (message_request lb) ms)"

lemma requests_of_simps [simp]:
  "requests_of lb [] = []" "requests_of lb (ms @ ms') = requests_of lb ms @ requests_of lb ms'"
  "requests_of lb [m] = message_request lb m"
  by (simp_all add: requests_of_def)

section \<open>Runs with the messages they have read\<close>

inductive message_run ::
  "('v, 'o, 'q, 'r) libs \<Rightarrow> ('s, 'v, 'o, 'q, 'r) server_threads \<Rightarrow> message list \<Rightarrow>
   ('s, 'v, 'o, 'q, 'r) server_threads \<Rightarrow> bool" for lb t0 where
  message_start: "message_run lb t0 [] t0"
| message_internal: "message_run lb t0 ms t \<Longrightarrow> internal_step lb t ev (Inr t') \<Longrightarrow> message_run lb t0 ms t'"
| message_connection: "message_run lb t0 ms t \<Longrightarrow> unat (curr_stream_id (shared t)) + 1 < 2 ^ 64 \<Longrightarrow>
    on_accept failed (shared t) = Inr e' \<Longrightarrow> message_run lb t0 ms (t\<lparr>shared := e'\<rparr>)"
| message_bytes: "message_run lb t0 ms t \<Longrightarrow> streams (shared t) sid = Some st \<Longrightarrow>
    on_bytes lb sid bs (shared t) = Inr e' \<Longrightarrow>
    message_run lb t0 (ms @ snd (receive (lb_order lb) bs st)) (t\<lparr>shared := e'\<rparr>)"

lemma message_run_is_run:
  assumes "message_run lb t0 ms t"
  shows "\<exists>evs. server_run lb t0 evs (Inr t)"
  using assms
proof induction
  case message_start
  show ?case using run_start by blast
next
  case (message_internal ms t ev t')
  then show ?case using run_internal by blast
next
  case (message_connection ms t failed e')
  then obtain evs where "server_run lb t0 evs (Inr t)" by blast
  from run_external [OF this connection [OF message_connection.hyps(2), where failed = failed]] show ?case
    using message_connection.hyps(3) by auto
next
  case (message_bytes ms t sid st bs e')
  then obtain evs where "server_run lb t0 evs (Inr t)" by blast
  from run_external [OF this bytes_arrive [where stream_id = sid and bs = bs]] show ?case
    using message_bytes.hyps(3) by auto
qed

lemma stateless_run_messages: "stateless_run lb e ms t \<Longrightarrow> message_run lb (start_threads e) ms t"
  by (induction rule: stateless_run.induct) (auto intro: message_run.intros)

section \<open>The invariant\<close>

text \<open>
  So far the requests \<open>ord\<close> have been performed, in that order, with the responses \<open>xs\<close>; \<open>W\<close> are the
  requests with the workers and \<open>V\<close> the responses with the writers. What came in has been performed,
  is queued or is with a worker; what was performed has been written, is queued or is with a writer.
\<close>

definition served ::
  "('v, 'o, 'q, 'r) libs \<Rightarrow> ('q \<Rightarrow> 'o DousiRequest list) \<Rightarrow> ('r \<Rightarrow> DousiResponse list) \<Rightarrow>
   ('s, 'v, 'q, 'r) executor \<Rightarrow> message list \<Rightarrow> 'o DousiRequest list \<Rightarrow> DousiResponse list \<Rightarrow>
   ('s, 'v, 'q, 'r) executor \<Rightarrow> 'o DousiRequest multiset \<Rightarrow> DousiResponse multiset \<Rightarrow> bool" where
  "served lb rq rs e0 ms ord xs e W V \<longleftrightarrow>
     (\<exists>e1. serve_in_order lb ord e0 = Inr (xs, e1) \<and> same_service e1 e)
     \<and> mset (requests_of lb ms) = mset ord + mset (rq (request_queue e)) + W
     \<and> (\<forall>sid. mset (writes_of e sid) + frames_for (lb_order lb) sid (mset (rs (response_queue e)) + V) =
          mset (writes_of e0 sid) + frames_for (lb_order lb) sid (mset xs))"

lemma served_change:
  assumes "served lb rq rs e0 ms ord xs e W V" and "same_service e e'"
    and "request_queue e' = request_queue e" and "response_queue e' = response_queue e"
    and "writes_of e' = writes_of e"
  shows "served lb rq rs e0 ms ord xs e' W V"
  using assms by (auto simp: served_def intro: same_service_trans)

context executor_queues
begin

lemma compute_served:
  assumes "served lb rq rs e0 ms ord xs e (add_mset r W) V" and "compute_response lb r e = Inr (x, e1)"
  shows "served lb rq rs e0 ms (ord @ [r]) (xs @ [x]) e1 W (add_mset x V)"
proof -
  obtain s where s: "serve_in_order lb ord e0 = Inr (xs, s)" "same_service s e"
    using assms(1) by (auto simp: served_def)
  obtain s' where s': "compute_response lb r s = Inr (x, s')" "same_service s' e1"
    using compute_response_same [OF assms(2) s(2)] by blast
  with serve_in_order_snoc [OF s(1) s'(1)]
  have "\<exists>s'. serve_in_order lb (ord @ [r]) e0 = Inr (xs @ [x], s') \<and> same_service s' e1" by blast
  moreover obtain obs where "e1 = e\<lparr>objects := obs\<rparr>" using assms(2) by (rule compute_response_frame)
  moreover have "writes_of (e\<lparr>objects := obs\<rparr>) = writes_of e" for obs by (simp add: writes_of_def fun_eq_iff)
  ultimately show ?thesis using assms(1) by (simp add: served_def)
qed

lemma push_served:
  assumes "served lb rq rs e0 ms ord xs e W (add_mset x V)"
  shows "served lb rq rs e0 ms ord xs (push_response lb x e) W V"
proof -
  have "mset (rs (response_queue (push_response lb x e))) + V = mset (rs (response_queue e)) + add_mset x V"
    "request_queue (push_response lb x e) = request_queue e"
    by (simp_all add: push_response_def rsp.contents_push)
  with assms show ?thesis unfolding served_def by (simp only: same_service_frame writes_of_frame simp_thms)
qed

lemma perform_served:
  assumes "served lb rq rs e0 ms ord xs e (add_mset r W) V" and "PerformRequest lb r e = Inr e'"
  shows "\<exists>x. served lb rq rs e0 ms (ord @ [r]) (xs @ [x]) e' W V"
proof -
  obtain x e1 where "compute_response lb r e = Inr (x, e1)" "e' = push_response lb x e1"
    using assms(2) by (auto simp: PerformRequest_def res_bind_Inr_iff)
  with push_served [OF compute_served [OF assms(1)]] show ?thesis by blast
qed

lemma invoke_served:
  assumes "served lb rq rs e0 ms ord xs e W V" and "InvokeMethod lb sid oid buffer e = Inr e'"
  shows "\<exists>ord' xs'. served lb rq rs e0 (ms @ [(sid, oid, buffer)]) (ord @ ord') (xs @ xs') e' W V"
proof -
  obtain unpacked service name where b: "mp_unpack (lb_msgpack lb) buffer = Inr unpacked"
    "mp_as_names (lb_msgpack lb) unpacked = Inr (service, name)"
    using assms(2) by (auto simp: InvokeMethod_def res_bind_Inr_iff)
  let ?r = "\<lparr>req_object_id = oid, req_stream_id = sid, req_unpacked = unpacked, req_method_name = name\<rparr>"
  have r: "message_request lb (sid, oid, buffer) = [?r]" by (simp add: message_request_def b)
  show ?thesis
  proof (cases "0 < work_thread_num (executor_options e)")
    case True
    with assms(2) b have e': "e' = e\<lparr>request_queue := BoostLockFreeQueue_Push (lb_requests lb) ?r (request_queue e)\<rparr>"
      by (simp add: InvokeMethod_def Let_def)
    have "served lb rq rs e0 (ms @ [(sid, oid, buffer)]) (ord @ []) (xs @ []) e' W V"
      using assms(1) by (auto simp: served_def r e' req.contents_push)
    then show ?thesis by blast
  next
    case False
    have "served lb rq rs e0 (ms @ [(sid, oid, buffer)]) ord xs e (add_mset ?r W) V"
      using assms(1) by (auto simp: served_def r)
    with False assms(2) b perform_served show ?thesis
      by (fastforce simp: InvokeMethod_def Let_def)
  qed
qed

lemma invoke_messages_served:
  assumes "served lb rq rs e0 ms ord xs e W V" and "invoke_messages lb ms' e = Inr e'"
  shows "\<exists>ord' xs'. served lb rq rs e0 (ms @ ms') (ord @ ord') (xs @ xs') e' W V"
  using assms
proof (induction ms' arbitrary: ms ord xs e)
  case Nil
  then show ?case by (intro exI [of _ "[]"]) simp
next
  case (Cons m ms')
  obtain sid oid buffer where m: "m = (sid, oid, buffer)" by (cases m)
  obtain e1 where e1: "InvokeMethod lb sid oid buffer e = Inr e1" "invoke_messages lb ms' e1 = Inr e'"
    using Cons.prems(2) by (auto simp: m res_bind_Inr_iff)
  obtain ord1 xs1 where "served lb rq rs e0 (ms @ [m]) (ord @ ord1) (xs @ xs1) e1 W V"
    using invoke_served [OF Cons.prems(1) e1(1)] by (auto simp: m)
  from Cons.IH [OF this e1(2)] obtain ord2 xs2 where
    "served lb rq rs e0 (ms @ m # ms') (ord @ ord1 @ ord2) (xs @ xs1 @ xs2) e' W V" by auto
  then show ?case by blast
qed

abbreviation threads_served ::
  "('s, 'v, 'q, 'r) executor \<Rightarrow> message list \<Rightarrow> 'o DousiRequest list \<Rightarrow> DousiResponse list \<Rightarrow>
   ('s, 'v, 'o, 'q, 'r) server_threads \<Rightarrow> bool" where
  "threads_served e0 ms ord xs t \<equiv>
     served lb rq rs e0 ms ord xs (shared t) (mset (performing (workers t)))
       (mset (pushing (workers t)) + mset (busy (writers t)))"

lemma internal_step_served:
  assumes "internal_step lb t ev (Inr t')" and "threads_served e0 ms ord xs t"
  shows "\<exists>ord' xs'. threads_served e0 ms (ord @ ord') (xs @ xs') t'"
  using assms(1)
proof (cases rule: internal_step.cases)
  case (worker_pops i r q)
  from req.pop_Some [OF worker_pops(5)] job_taken [OF worker_pops(3,4), of r] worker_pops(2) assms(2)
  have "threads_served e0 ms (ord @ []) (xs @ []) t'" by (auto simp: served_def)
  then show ?thesis by blast
next
  case (worker_performs i r)
  then obtain x e where e: "compute_response lb r (shared t) = Inr (x, e)"
    "t' = t\<lparr>shared := e, workers := (workers t)[i := Some (Pushes x)]\<rparr>"
    by (auto simp: Inr_res_bind_iff)
  note held = job_performed [OF worker_performs(3,4), of x]
  from compute_served [OF _ e(1)] assms(2) held have "threads_served e0 ms (ord @ [r]) (xs @ [x]) t'"
    by (simp add: e(2))
  then show ?thesis by blast
next
  case (worker_pushes i x)
  with push_served assms(2) job_pushed [OF worker_pushes(3,4)] have "threads_served e0 ms (ord @ []) (xs @ []) t'"
    by simp
  then show ?thesis by blast
next
  case (writer_pops i x q)
  from rsp.pop_Some [OF writer_pops(5)] busy_take [OF writer_pops(3,4), of x] writer_pops(2) assms(2)
  have "threads_served e0 ms (ord @ []) (xs @ []) t'" by (auto simp: served_def)
  then show ?thesis by blast
next
  case (writer_writes i x)
  then obtain e where e: "write_response lb x (shared t) = Inr e"
    "t' = t\<lparr>shared := e, writers := (writers t)[i := None]\<rparr>"
    by (auto simp: Inr_res_bind_iff)
  note frame = write_response_writes [OF e(1)]
  have "mset (writes_of e sid) + frames_for (lb_order lb) sid (mset (rs (response_queue e)) + (mset (pushing (workers t')) + mset (busy (writers t')))) =
      mset (writes_of (shared t) sid) + frames_for (lb_order lb) sid
        (mset (rs (response_queue (shared t))) + (mset (pushing (workers t)) + mset (busy (writers t))))" for sid
    using frame [of sid] busy_release [OF writer_writes(3,4)] e(2) by simp
  with frame e(2) assms(2) have "threads_served e0 ms (ord @ []) (xs @ []) t'"
    by (auto simp: served_def intro: same_service_trans)
  then show ?thesis by blast
qed

lemma on_bytes_served:
  assumes "served lb rq rs e0 ms ord xs e W V" and "streams e sid = Some st" and "on_bytes lb sid bs e = Inr e'"
  shows "\<exists>ord' xs'. served lb rq rs e0 (ms @ snd (receive (lb_order lb) bs st)) (ord @ ord') (xs @ xs') e' W V"
proof -
  let ?e = "e\<lparr>streams := (streams e)(sid \<mapsto> fst (receive (lb_order lb) bs st))\<rparr>"
  have "writes_of ?e = writes_of e" using assms(2) by (auto simp: writes_of_def fun_eq_iff)
  then have "served lb rq rs e0 ms ord xs ?e W V"
    by (intro served_change [OF assms(1)]) (simp_all add: same_service_def)
  from invoke_messages_served [OF this] assms(2,3) show ?thesis by (simp add: on_bytes_def)
qed

text \<open>The order only grows at its end.\<close>

lemma message_run_served:
  assumes "message_run lb t ms' t'" and "threads_ok rq rs t" and "threads_served e0 ms ord xs t"
  shows "\<exists>ord' xs'. threads_served e0 (ms @ ms') (ord @ ord') (xs @ xs') t'"
  using assms(1)
proof induction
  case message_start
  have "threads_served e0 (ms @ []) (ord @ []) (xs @ []) t" using assms(3) by simp
  then show ?case by blast
next
  case (message_internal ms1 t1 ev t2)
  then show ?case using internal_step_served [OF message_internal.hyps(2)] by fastforce
next
  case (message_connection ms1 t1 failed e')
  have "threads_ok rq rs t1"
    using message_run_is_run [OF message_connection.hyps(1)] server_run_ok assms(2) by blast
  then have "streams_ok (shared t1)" by (simp add: threads_ok_def)
  note frame = on_accept_writes [OF message_connection.hyps(3) this]
  obtain ord' xs' where "threads_served e0 (ms @ ms1) (ord @ ord') (xs @ xs') t1"
    using message_connection.IH by blast
  from served_change [OF this] frame show ?case by auto
next
  case (message_bytes ms1 t1 sid st bs e')
  then obtain ord' xs' where "threads_served e0 (ms @ ms1) (ord @ ord') (xs @ xs') t1" by blast
  from on_bytes_served [OF this message_bytes.hyps(2,3)] show ?case by fastforce
qed

lemma start_served:
  assumes "serving rq rs e"
  shows "threads_served e [] [] [] (start_threads e)"
  using assms by (auto simp: served_def start_threads_def serving_def queued_def same_service_def)

lemma two_runs_served:
  assumes "serving rq rs e" and "message_run lb (start_threads e) ms1 t1" and "message_run lb t1 ms2 t2"
  shows "\<exists>ord1 xs1 ord2 xs2. threads_served e ms1 ord1 xs1 t1
    \<and> threads_served e (ms1 @ ms2) (ord1 @ ord2) (xs1 @ xs2) t2"
proof -
  have ok: "threads_ok rq rs t1"
    using message_run_is_run [OF assms(2)] server_run_ok start_threads_ok [OF assms(1)] by blast
  obtain ord1 xs1 where one: "threads_served e ms1 ord1 xs1 t1"
    using message_run_served [OF assms(2) conjunct1 [OF start_threads_ok [OF assms(1)]] start_served [OF assms(1)]]
    by auto
  with message_run_served [OF assms(3) ok one] show ?thesis by blast
qed

text \<open>When the threads are at rest nothing is queued or with a thread.\<close>

lemma rest_served:
  assumes "threads_served e ms ord xs t" and "threads_ok rq rs t" and "writers t \<noteq> []"
    and "\<nexists>ev r. internal_step lb t ev r"
  shows "mset (requests_of lb ms) = mset ord
    \<and> mset (writes_of (shared t) sid) = mset (writes_of e sid) + frames_for (lb_order lb) sid (mset xs)"
  using at_rest [OF assms(2,3,4)] assms(1) by (simp add: served_def in_flight_def queued_def)

lemma two_runs_serialized:
  assumes "serving rq rs e" and "message_run lb (start_threads e) ms1 t1" and "message_run lb t1 ms2 t2"
    and "\<nexists>ev r. internal_step lb t2 ev r"
  shows "\<exists>ord1 ord2 xs1 xs2 e2.
    serve_in_order lb (ord1 @ ord2) e = Inr (xs1 @ xs2, e2) \<and> objects e2 = objects (shared t2)
    \<and> mset (ord1 @ ord2) = mset (requests_of lb (ms1 @ ms2))
    \<and> length xs1 = length ord1 \<and> mset ord1 \<subseteq># mset (requests_of lb ms1)
    \<and> (\<forall>sid. mset (writes_of (shared t1) sid) \<subseteq>#
          mset (writes_of e sid) + frames_for (lb_order lb) sid (mset xs1))
    \<and> (\<forall>sid. mset (writes_of (shared t2) sid) =
          mset (writes_of e sid) + frames_for (lb_order lb) sid (mset (xs1 @ xs2)))"
proof -
  obtain ord1 xs1 ord2 xs2 where one: "threads_served e ms1 ord1 xs1 t1"
    and two: "threads_served e (ms1 @ ms2) (ord1 @ ord2) (xs1 @ xs2) t2"
    using two_runs_served [OF assms(1-3)] by blast
  obtain evs where run1: "server_run lb (start_threads e) evs (Inr t1)"
    using message_run_is_run [OF assms(2)] by blast
  then have ok1: "threads_ok rq rs t1" using server_run_ok start_threads_ok [OF assms(1)] by blast
  obtain evs' where run2: "server_run lb t1 evs' (Inr t2)" using message_run_is_run [OF assms(3)] by blast
  then have ok2: "threads_ok rq rs t2" using server_run_ok ok1 by blast
  have "writers t2 \<noteq> []"
    using writers_kept [OF run1 refl] writers_kept [OF run2 refl] assms(1) by (auto simp: start_threads_def serving_def)
  note rest = rest_served [OF two ok2 this assms(4)]
  obtain e1 where e1: "serve_in_order lb ord1 e = Inr (xs1, e1)" using one by (auto simp: served_def)
  obtain e2 where e2: "serve_in_order lb (ord1 @ ord2) e = Inr (xs1 @ xs2, e2)" "same_service e2 (shared t2)"
    using two by (auto simp: served_def)
  have "mset (writes_of (shared t1) sid) \<subseteq># mset (writes_of e sid) + frames_for (lb_order lb) sid (mset xs1)" for sid
    using one by (simp add: served_def) (metis mset_subset_eq_add_left)
  moreover have "mset ord1 \<subseteq># mset (requests_of lb ms1)" using one by (simp add: served_def)
  ultimately show ?thesis
    using rest e2 serve_in_order_length [OF e1]
    by (intro exI [of _ ord1] exI [of _ ord2] exI [of _ xs1] exI [of _ xs2] exI [of _ e2]) (simp add: same_service_def)
qed

end

section \<open>Properties\<close>



end
