(* ===== verification/Sequential_Clients.thy ===== *)
theory Sequential_Clients
  imports Sequential_Order Pipelined_Calls
begin

text \<open>
  The whole system as one object: any number of clients, each of which makes calls without waiting, and
  a server whose threads work in any order. What the futures give and what the objects become is
  what one program would see that made all the calls locally, in some order.
\<close>

section \<open>One request and its local call\<close>

text \<open>The bytes that answer a call whose local value is \<open>v\<close>.\<close>

definition answers ::
  "('v, 'o) msgpack \<Rightarrow> (cpp_type \<Rightarrow> 'v \<Rightarrow> bool) \<Rightarrow> ('s, 'v) client_call \<Rightarrow> 'v option \<Rightarrow> bytes \<Rightarrow> bool" where
  "answers mp has_type c v bs \<longleftrightarrow> length bs < 2 ^ 32 \<and> (case v of
       None \<Rightarrow> bs = [] \<and> call_type c = Base ''bool''
     | Some x \<Rightarrow> bs = mp_pack mp x \<and> has_type (call_type c) x)"

text \<open>
  A call that fits, and whose results fit and leave the object in its class, if it was in its class before. A
  call that is fine whatever the state of the object is such a call.
\<close>

definition call_in ::
  "('v, 'o, 'q, 'r) libs \<Rightarrow> (cpp_type \<Rightarrow> 'v \<Rightarrow> bool) \<Rightarrow> (nat \<Rightarrow> 's \<Rightarrow> bool) \<Rightarrow> ('s, 'v, 'q, 'r) executor \<Rightarrow>
   ('s, 'v) client_call \<Rightarrow> bool" where
  "call_in lb has_type C e c \<longleftrightarrow> call_fits lb has_type e c \<and> (case c of (h, m, args) \<Rightarrow>
     \<forall>cl d ob. registered_methods e (GetName m) = Some (Some cl) \<longrightarrow> instances e (cl_service_instance cl) = Some d \<longrightarrow>
       C (service_object d) ob \<longrightarrow>
         (case mt_body (GetMethod m) of
            Returning f \<Rightarrow> \<forall>v ob'. f ob args = Inr (v, ob') \<longrightarrow> result_fits lb has_type c (Some v) \<and> C (service_object d) ob'
          | Returning_void g \<Rightarrow> \<forall>ob'. g ob args = Inr ob' \<longrightarrow> C (service_object d) ob'))"

lemma call_ok_in: "call_ok lb has_type e c \<Longrightarrow> call_in lb has_type (\<lambda>_ _. True) e c"
  by (cases c) (auto simp: call_ok_def call_in_def split: member_fn.splits)

lemma call_in_fits: "list_all (call_in lb has_type C e) cs \<Longrightarrow> list_all (call_fits lb has_type e) cs"
  by (simp add: list_all_iff call_in_def)

lemma request_of_call:
  assumes "msgpack_codec (lb_msgpack lb) has_type" and "call_fits lb has_type e (h, m, args)"
  shows "\<exists>u. message_request lb (sid, oid, buffer_of (lb_msgpack lb) (h, m, args)) =
      [\<lparr>req_object_id = oid, req_stream_id = sid, req_unpacked = u, req_method_name = GetName m\<rparr>]
    \<and> (\<forall>ob result. InvokeHelper_Invoke (lb_msgpack lb) (GetMethod m) ob u result =
        call_result (lb_msgpack lb) (GetMethod m) ob args result)"
proof -
  have "args_fit (lb_msgpack lb) has_type (sh_service_name h) (GetName m) (GetMethod m) args"
    using assms(2) by (simp add: call_fits_def)
  from msgpack_codec.packed_call [OF assms(1) this] show ?thesis
    by (auto simp: buffer_of_def call_buffer_def message_request_def)
qed

lemma served_call:
  assumes "msgpack_codec (lb_msgpack lb) has_type" and "call_in lb has_type C e c"
    and "message_request lb (sid, oid, buffer_of (lb_msgpack lb) c) = [r]"
    and "compute_response lb r e1 = Inr (x, e2)"
    and "registered_methods e1 = registered_methods e" and "instances e1 = instances e" and "in_classes C e1"
  shows "\<exists>v. local_call e c (objects e1) = Inr (v, objects e2)
    \<and> rsp_stream_id x = sid \<and> rsp_object_id x = oid \<and> answers (lb_msgpack lb) has_type c v (rsp_result x)
    \<and> registered_methods e2 = registered_methods e \<and> instances e2 = instances e \<and> in_classes C e2"
proof -
  obtain h m args where c: "c = (h, m, args)" by (cases c)
  have fits: "call_fits lb has_type e c" using assms(2) by (simp add: call_in_def)
  obtain u where u: "r = \<lparr>req_object_id = oid, req_stream_id = sid, req_unpacked = u, req_method_name = GetName m\<rparr>"
    and call: "\<And>ob result. InvokeHelper_Invoke (lb_msgpack lb) (GetMethod m) ob u result =
      call_result (lb_msgpack lb) (GetMethod m) ob args result"
    using request_of_call [OF assms(1), of e h m args sid oid] fits assms(3) by (auto simp: c)
  have parts: "req_method_name r = GetName m" "req_object_id r = oid" "req_stream_id r = sid" "req_unpacked r = u"
    by (simp_all add: u)
  obtain cl d ob ob' where cl: "registered_methods e (GetName m) = Some (Some cl)"
    "instances e (cl_service_instance cl) = Some d" "objects e1 (service_object d) = Some ob"
    "InvokeHelper_Invoke (lb_msgpack lb) (cl_method cl) ob u [] = Inr (rsp_result x, ob')"
    and x: "x = \<lparr>rsp_object_id = oid, rsp_stream_id = sid, rsp_result = rsp_result x\<rparr>"
    and e2: "e2 = e1\<lparr>objects := (objects e1)(service_object d \<mapsto> ob')\<rparr>"
    by (rule compute_response_Inr [OF assms(4), unfolded parts assms(5,6)]) (rule that)
  have m: "cl_method cl = GetMethod m" using fits cl(1) by (simp add: c call_fits_def)
  have ids: "rsp_stream_id x = sid" "rsp_object_id x = oid"
    using arg_cong [OF x, of rsp_stream_id] arg_cong [OF x, of rsp_object_id] by simp_all
  note result = cl(4) [unfolded m call]
  have inC: "C (service_object d) ob" using assms(7) cl(3) by (simp add: in_classes_def)
  have "\<exists>v. local_call e c (objects e1) = Inr (v, objects e2) \<and> answers (lb_msgpack lb) has_type c v (rsp_result x)
      \<and> C (service_object d) ob'"
  proof (cases "mt_body (GetMethod m)")
    case (Returning f)
    with result obtain v where v: "f ob args = Inr (v, ob')" "rsp_result x = mp_pack (lb_msgpack lb) v"
      by (auto simp: call_result_def res_bind_Inr_iff)
    with Returning assms(2) cl(1,2) inC have "has_type (call_type c) v" "length (mp_pack (lb_msgpack lb) v) < 2 ^ 32"
      "C (service_object d) ob'"
      by (fastforce simp: c call_in_def result_fits_def call_type_def)+
    with Returning v cl e2 show ?thesis by (intro exI [of _ "Some v"]) (simp add: c local_call_def answers_def)
  next
    case (Returning_void g)
    with result have v: "g ob args = Inr ob'" "rsp_result x = []" by (auto simp: call_result_def res_bind_Inr_iff)
    have "call_type c = Base ''bool''"
      using Returning_void fits by (simp add: c call_fits_def method_typed_def call_type_def future_type_def)
    moreover have "C (service_object d) ob'"
      using Returning_void assms(2) cl(1,2) inC v(1) by (fastforce simp: c call_in_def)
    ultimately show ?thesis
      using Returning_void v cl e2 by (intro exI [of _ None]) (simp add: c local_call_def answers_def)
  qed
  with ids e2 assms(5-7) show ?thesis by (auto simp: in_classes_def)
qed

text \<open>The requests of a list of messages \<open>ms\<close>, the message \<open>m\<close> being the call \<open>cf m\<close>.\<close>

lemma served_calls:
  assumes "msgpack_codec (lb_msgpack lb) has_type"
    and "\<And>m. m \<in> set ms \<Longrightarrow> call_in lb has_type C e (cf m) \<and> snd (snd m) = buffer_of (lb_msgpack lb) (cf m)"
    and "serve_in_order lb (requests_of lb ms) e1 = Inr (xs, e2)"
    and "registered_methods e1 = registered_methods e" and "instances e1 = instances e" and "in_classes C e1"
  shows "\<exists>vs. local_calls e (map cf ms) (objects e1) = Inr (vs, objects e2) \<and> length vs = length ms
    \<and> length xs = length ms
    \<and> (\<forall>i < length ms. rsp_stream_id (xs ! i) = fst (ms ! i) \<and> rsp_object_id (xs ! i) = fst (snd (ms ! i))
        \<and> answers (lb_msgpack lb) has_type (cf (ms ! i)) (vs ! i) (rsp_result (xs ! i)))"
  using assms(2-)
proof (induction ms arbitrary: e1 xs)
  case (Cons m ms)
  obtain sid oid where m: "m = (sid, oid, buffer_of (lb_msgpack lb) (cf m))" and ok: "call_in lb has_type C e (cf m)"
    using Cons.prems(1) [of m] by (cases m) auto
  obtain r where r: "message_request lb m = [r]"
  proof -
    obtain h margs where h: "cf m = (h, margs)" by (cases "cf m")
    obtain mp args where "margs = (mp, args)" by (cases margs)
    with h request_of_call [OF assms(1), of e h mp args sid oid] ok m that show ?thesis by (auto simp: call_in_def)
  qed
  have split: "requests_of lb (m # ms) = r # requests_of lb ms" using r by (simp add: requests_of_def)
  obtain x e' ys where first: "compute_response lb r e1 = Inr (x, e')"
    and rest: "serve_in_order lb (requests_of lb ms) e' = Inr (ys, e2)" and xs: "xs = x # ys"
    using Cons.prems(2) by (auto simp: split res_bind_Inr_iff)
  have "message_request lb (sid, oid, buffer_of (lb_msgpack lb) (cf m)) = [r]" using r by (simp flip: m)
  from served_call [OF assms(1) ok this first Cons.prems(3-5)] obtain v where
    v: "local_call e (cf m) (objects e1) = Inr (v, objects e')" "rsp_stream_id x = sid" "rsp_object_id x = oid"
    "answers (lb_msgpack lb) has_type (cf m) v (rsp_result x)"
    and same: "registered_methods e' = registered_methods e" "instances e' = instances e" "in_classes C e'"
    by blast
  obtain vs where vs: "local_calls e (map cf ms) (objects e') = Inr (vs, objects e2)" "length vs = length ms"
    "length ys = length ms"
    "\<And>i. i < length ms \<Longrightarrow> rsp_stream_id (ys ! i) = fst (ms ! i) \<and> rsp_object_id (ys ! i) = fst (snd (ms ! i))
        \<and> answers (lb_msgpack lb) has_type (cf (ms ! i)) (vs ! i) (rsp_result (ys ! i))"
    using Cons.IH [OF Cons.prems(1) rest same] by auto
  have ids: "fst m = sid" "fst (snd m) = oid" by (subst m, simp)+
  show ?case
    using v vs ids by (intro exI [of _ "v # vs"]) (auto simp: xs nth_Cons split: nat.split)
qed (simp add: requests_of_def)

section \<open>Which calls the messages are\<close>

text \<open>
  A client on the connection \<open>sid\<close> that has made the calls \<open>cs\<close>, and the messages of the server's run, which
  have its writes.
\<close>

definition client_sent ::
  "('v, 'o, 'q, 'r) libs \<Rightarrow> (cpp_type \<Rightarrow> 'v \<Rightarrow> bool) \<Rightarrow> (nat \<Rightarrow> 's \<Rightarrow> bool) \<Rightarrow> ('s, 'v, 'q, 'r) executor \<Rightarrow> message list \<Rightarrow> u64 \<Rightarrow>
   ('s, 'v) client_call list \<Rightarrow> 'j submitter \<Rightarrow> 'v dousi_future list \<Rightarrow> 'j submitter \<Rightarrow> bool" where
  "client_sent lb has_type C e ms sid cs s fs s' \<longleftrightarrow>
     writes_of e sid = [] \<and> client_idle (lb_order lb) (length cs) s
     \<and> Calls (lb_order lb) (lb_msgpack lb) cs s = Inr (fs, s') \<and> list_all (call_in lb has_type C e) cs
     \<and> (\<exists>cst. submitter_stream s' = Some cst
          \<and> map snd (filter (\<lambda>m. fst m = sid) ms) = fst (parse_frames (lb_order lb) (concat (strm_writes cst))))"

text \<open>The number of a message's call among those of its client, whose first id is \<open>i\<close>.\<close>

definition message_call :: "(u64 \<Rightarrow> nat) \<Rightarrow> message \<Rightarrow> u64 \<times> nat" where
  "message_call i m = (fst m, unat (fst (snd m)) - i (fst m))"

lemma sent_messages:
  assumes "client_sent lb has_type C e ms sid cs s fs s'"
  shows "filter (\<lambda>m. fst m = sid) ms = map (Pair sid) (messages_of (lb_msgpack lb) (unat (curr_object_id s)) cs)"
proof -
  have "map snd (filter (\<lambda>m. fst m = sid) ms) = messages_of (lb_msgpack lb) (unat (curr_object_id s)) cs"
    using assms calls_sent [of "lb_order lb" cs s lb fs s'] by (auto simp: client_sent_def dest: call_in_fits)
  moreover have "map (Pair sid) (map snd (filter (\<lambda>m. fst m = sid) ms)) = filter (\<lambda>m. fst m = sid) ms"
    by (simp add: comp_def) (rule map_idI, force)
  ultimately show ?thesis by simp
qed

lemma sent_room: "client_sent lb has_type C e ms sid cs s fs s' \<Longrightarrow> unat (curr_object_id s) + length cs \<le> 2 ^ 32"
  by (simp add: client_sent_def client_idle_def)

lemma unat_message_id: "i + n \<le> 2 ^ 32 \<Longrightarrow> k < n \<Longrightarrow> unat (of_nat (i + k) :: u32) = i + k"
  by (simp add: unat_of_nat_u32 del: of_nat_add)

lemma sent_numbers:
  assumes "client_sent lb has_type C e ms sid cs s fs s'" and "i sid = unat (curr_object_id s)"
  shows "map (message_call i) (filter (\<lambda>m. fst m = sid) ms) = map (Pair sid) [0..<length cs]"
  unfolding sent_messages [OF assms(1)]
  using sent_room [OF assms(1)]
  by (intro nth_equalityI) (simp_all add: message_call_def calls_nth assms(2) unat_message_id del: of_nat_add)

lemma sent_message:
  assumes "client_sent lb has_type C e ms sid cs s fs s'" and "i sid = unat (curr_object_id s)"
    and "m \<in> set ms" and "fst m = sid"
  obtains k where "k < length cs" and "message_call i m = (sid, k)" and "m = (sid, of_nat (i sid + k), buffer_of (lb_msgpack lb) (cs ! k))"
proof -
  have "m \<in> set (filter (\<lambda>m. fst m = sid) ms)" using assms(3,4) by simp
  then obtain k where k: "k < length cs" "m = (sid, messages_of (lb_msgpack lb) (unat (curr_object_id s)) cs ! k)"
    unfolding sent_messages [OF assms(1)] by (auto simp: in_set_conv_nth)
  have "m = (sid, of_nat (i sid + k), buffer_of (lb_msgpack lb) (cs ! k))"
    using k by (simp add: calls_nth assms(2) del: of_nat_add)
  moreover have "unat (of_nat (i sid + k) :: u32) = i sid + k"
    using sent_room [OF assms(1)] k(1) by (intro unat_message_id) (simp_all add: assms(2))
  ultimately show ?thesis using k(1) by (intro that [of k]) (simp_all add: message_call_def del: of_nat_add)
qed

text \<open>A list by the values of a function.\<close>

lemma mset_by_key:
  assumes "distinct ks" and "\<And>x. x \<in> set xs \<Longrightarrow> f x \<in> set ks"
  shows "mset (concat (map (\<lambda>k. filter (\<lambda>x. f x = k) xs) ks)) = mset xs"
  using assms
proof (induction ks arbitrary: xs)
  case (Cons k ks)
  let ?rest = "filter (\<lambda>x. f x \<noteq> k) xs"
  have "filter (\<lambda>x. f x = k') xs = filter (\<lambda>x. f x = k') ?rest" if "k' \<in> set ks" for k'
    using that Cons.prems(1) by (auto intro!: filter_cong)
  then have split: "map (\<lambda>k'. filter (\<lambda>x. f x = k') xs) ks = map (\<lambda>k'. filter (\<lambda>x. f x = k') ?rest) ks"
    by (rule map_cong [OF refl])
  have "mset (concat (map (\<lambda>k'. filter (\<lambda>x. f x = k') ?rest) ks)) = mset ?rest"
    using Cons.prems by (intro Cons.IH) auto
  then have "mset (concat (map (\<lambda>k'. filter (\<lambda>x. f x = k') xs) ks)) = filter_mset (\<lambda>x. f x \<noteq> k) (mset xs)"
    unfolding split by (simp only: mset_filter)
  then show ?case
    using multiset_partition [of "mset xs" "\<lambda>x. f x = k"]
    by (simp only: list.map concat.simps mset_append mset_filter)
next
  case Nil
  then show ?case by (cases xs) auto
qed

lemma all_numbers:
  assumes "distinct sids" and "\<And>m. m \<in> set ms \<Longrightarrow> fst m \<in> set sids"
    and "\<And>sid. sid \<in> set sids \<Longrightarrow> client_sent lb has_type C e ms sid (cs sid) (s sid) (fs sid) (s' sid)"
  defines "i \<equiv> \<lambda>sid. unat (curr_object_id (s sid))"
  shows "mset (map (message_call i) ms) =
    mset (concat (map (\<lambda>sid. map (Pair sid) [0..<length (cs sid)]) sids))"
proof -
  let ?of = "\<lambda>sid. filter (\<lambda>m. fst m = sid) ms"
  have "map (message_call i) (?of sid) = map (Pair sid) [0..<length (cs sid)]" if "sid \<in> set sids" for sid
    using sent_numbers [OF assms(3) [OF that]] by (simp add: i_def)
  then have "map (\<lambda>sid. map (message_call i) (?of sid)) sids = map (\<lambda>sid. map (Pair sid) [0..<length (cs sid)]) sids"
    by (rule map_cong [OF refl])
  moreover have "map (message_call i) (concat (map ?of sids)) = concat (map (\<lambda>sid. map (message_call i) (?of sid)) sids)"
    by (simp add: map_concat comp_def)
  moreover have "mset (map (message_call i) ms) = mset (map (message_call i) (concat (map ?of sids)))"
    unfolding mset_map using mset_by_key [of sids ms fst] assms(1,2) by simp
  ultimately show ?thesis by (simp only:)
qed

section \<open>What a client reads\<close>

text \<open>The answers on the connection \<open>sid\<close> among the responses \<open>xs\<close>.\<close>

definition answers_for :: "u64 \<Rightarrow> DousiResponse list \<Rightarrow> (u32 \<times> bytes) list" where
  "answers_for sid xs = map (\<lambda>x. (rsp_object_id x, rsp_result x)) (filter (\<lambda>x. rsp_stream_id x = sid) xs)"

lemma frames_for_answers: "frames_for en sid (mset xs) = mset (map (frame en) (answers_for sid xs))"
  by (simp add: frames_for_def answers_for_def comp_def multiset.map_comp flip: mset_filter)

lemma answers_for_ids:
  assumes "length xs = length ms"
    and "\<forall>k < length ms. rsp_stream_id (xs ! k) = fst (ms ! k) \<and> rsp_object_id (xs ! k) = fst (snd (ms ! k))"
  shows "map fst (answers_for sid xs) = map (\<lambda>m. fst (snd m)) (filter (\<lambda>m. fst m = sid) ms)"
proof -
  have "list_all2 (\<lambda>x m. rsp_stream_id x = fst m \<and> rsp_object_id x = fst (snd m)) xs ms"
    using assms by (simp add: list_all2_conv_all_nth)
  then show ?thesis by (induction rule: list_all2_induct) (simp_all add: answers_for_def)
qed

lemma answers_read:
  assumes "client_sent lb has_type C e ms sid cs s fs s'"
    and "mset ws = mset (map (frame (lb_order lb)) (answers_for sid xs))"
    and "mset (map fst (answers_for sid xs)) = mset (map (\<lambda>m. fst (snd m)) (filter (\<lambda>m. fst m = sid) ms))"
    and "\<forall>x \<in> set xs. length (rsp_result x) < 2 ^ 32"
  shows "\<exists>s''. client_bytes (lb_order lb) throws src (concat ws) (l, s') = Inr (l, s'')
    \<and> (\<forall>k x. x \<in> set xs \<longrightarrow> rsp_stream_id x = sid \<longrightarrow> rsp_object_id x = of_nat k \<longrightarrow> k < 2 ^ 32 \<longrightarrow>
         cached (of_nat k) s'' = Some (rsp_result x))"
proof -
  let ?msgs = "messages_of (lb_msgpack lb) (unat (curr_object_id s)) cs"
  obtain cst where cst: "submitter_stream s' = Some cst" using assms(1) by (auto simp: client_sent_def)
  with calls_sent [of "lb_order lb" cs s lb fs s' cst has_type e] assms(1)
  have client: "client_language s' = CPP" "idle (lb_order lb) cst"
    by (auto simp: client_sent_def dest: call_in_fits)
  obtain zs where zs: "mset zs = mset (answers_for sid xs)" "ws = map (frame (lb_order lb)) zs"
    using mset_map_exists [OF assms(2)] by blast
  have "map (\<lambda>m. fst (snd m)) (filter (\<lambda>m. fst m = sid) ms) = map fst ?msgs"
    unfolding sent_messages [OF assms(1)] by simp
  moreover have "mset (map fst zs) = mset (map fst (answers_for sid xs))" by (simp add: zs(1))
  ultimately have "mset (map fst zs) = mset (map fst ?msgs)" using assms(3) by (simp only:)
  then have "distinct (map fst zs)"
    using messages_of_distinct [OF sent_room [OF assms(1)]] mset_eq_imp_distinct_iff by metis
  moreover have set: "set zs = set (answers_for sid xs)" using zs(1) by (rule mset_eq_setD)
  then have "list_all (\<lambda>r. length (snd r) < 2 ^ 32) zs"
    using assms(4) by (auto simp: list_all_iff answers_for_def)
  ultimately obtain s'' where read: "client_bytes (lb_order lb) throws src (concat ws) (l, s') = Inr (l, s'')"
    "\<And>k bs. (of_nat k, bs) \<in> set zs \<Longrightarrow> k < 2 ^ 32 \<Longrightarrow> cached (of_nat k) s'' = Some bs"
    using client_bytes_found [OF cst client(2,1)] unfolding zs(2) by blast
  have "cached (of_nat k) s'' = Some (rsp_result x)"
    if "x \<in> set xs" "rsp_stream_id x = sid" "rsp_object_id x = of_nat k" "k < 2 ^ 32" for k x
  proof (rule read(2))
    have "(rsp_object_id x, rsp_result x) \<in> set (answers_for sid xs)"
      using that(1,2) by (auto simp: answers_for_def)
    then show "(of_nat k, rsp_result x) \<in> set zs" by (simp add: set that(3))
  qed (rule that(4))
  with read(1) show ?thesis by blast
qed

text \<open>The messages in the order in which they were served, as the calls they are, and what was written for each client.\<close>

lemma clients_served:
  assumes "executor_queues lb rq rs" and "msgpack_codec (lb_msgpack lb) has_type" and "serving rq rs e"
    and "message_run lb (start_threads e) ms t" and "\<nexists>ev r. internal_step lb t ev r"
    and "distinct sids" and "\<forall>m \<in> set ms. fst m \<in> set sids"
    and sent: "\<And>sid. sid \<in> set sids \<Longrightarrow> client_sent lb has_type C e ms sid (cs sid) (s sid) (fs sid) (s' sid)"
    and i: "\<And>sid. i sid = unat (curr_object_id (s sid))"
    and cf: "\<And>m. cf m = (case message_call i m of (sid, k) \<Rightarrow> cs sid ! k)" and inC: "in_classes C e"
  obtains ms' vs xs where "mset ms' = mset ms"
    and "mset (map (message_call i) ms') = mset (concat (map (\<lambda>sid. map (Pair sid) [0..<length (cs sid)]) sids))"
    and "local_calls e (map cf ms') (objects e) = Inr (vs, objects (shared t))"
    and "length vs = length ms'" and "length xs = length ms'"
    and "\<forall>j < length ms'. rsp_stream_id (xs ! j) = fst (ms' ! j) \<and> rsp_object_id (xs ! j) = fst (snd (ms' ! j))
        \<and> answers (lb_msgpack lb) has_type (cf (ms' ! j)) (vs ! j) (rsp_result (xs ! j))"
    and "\<And>sid. sid \<in> set sids \<Longrightarrow>
        mset (writes_of (shared t) sid) = mset (map (frame (lb_order lb)) (answers_for sid xs))"
proof -
  have i_eq: "i = (\<lambda>sid. unat (curr_object_id (s sid)))" using i by blast
  have call: "call_in lb has_type C e (cf m) \<and> snd (snd m) = buffer_of (lb_msgpack lb) (cf m)
    \<and> (\<exists>r. message_request lb m = [r])" if m: "m \<in> set ms" for m
  proof -
    have "fst m \<in> set sids" using assms(7) m by blast
    note client = sent [OF this]
    obtain k where k: "k < length (cs (fst m))" "message_call i m = (fst m, k)"
      "m = (fst m, of_nat (i (fst m) + k), buffer_of (lb_msgpack lb) (cs (fst m) ! k))"
      by (rule sent_message [where i = i, OF client _ m refl]) (rule i, rule that)
    have ok: "call_in lb has_type C e (cs (fst m) ! k)"
      using client k(1) by (simp add: client_sent_def list_all_length)
    then have "\<exists>r. message_request lb m = [r]"
      by (subst k(3)) (cases "cs (fst m) ! k", auto simp: call_in_def dest: request_of_call [OF assms(2)])
    moreover have "snd (snd m) = buffer_of (lb_msgpack lb) (cs (fst m) ! k)" by (subst k(3)) simp
    ultimately show ?thesis using ok k(2) by (simp add: cf)
  qed
  let ?rq = "\<lambda>m. hd (message_request lb m)"
  have rq: "requests_of lb ms' = map ?rq ms'" if "set ms' \<subseteq> set ms" for ms'
  proof -
    have "message_request lb m = [?rq m]" if "m \<in> set ms'" for m
      using call [of m] that \<open>set ms' \<subseteq> set ms\<close> by fastforce
    then show ?thesis by (induction ms') (simp_all add: requests_of_def)
  qed
  obtain ord xs e2 where ord: "serve_in_order lb ord e = Inr (xs, e2)" "objects e2 = objects (shared t)"
    "mset ord = mset (requests_of lb ms)"
    and written: "\<And>sid. mset (writes_of (shared t) sid) = mset (writes_of e sid) + frames_for (lb_order lb) sid (mset xs)"
    using executor_queues.two_runs_serialized [OF assms(1,3,4) message_start assms(5)] by force
  obtain ms' where ms': "mset ms' = mset ms" "ord = map ?rq ms'"
    using mset_map_exists [of ord ?rq ms] ord(3) rq [of ms] by auto
  have same: "set ms' = set ms" using ms'(1) by (rule mset_eq_setD)
  have "serve_in_order lb (requests_of lb ms') e = Inr (xs, e2)" using ord(1) ms'(2) rq [of ms'] same by simp
  from served_calls [OF assms(2) _ this refl refl inC, where cf = cf] call same obtain vs where
    vs: "local_calls e (map cf ms') (objects e) = Inr (vs, objects e2)" "length vs = length ms'" "length xs = length ms'"
    and each: "\<forall>j < length ms'. rsp_stream_id (xs ! j) = fst (ms' ! j) \<and> rsp_object_id (xs ! j) = fst (snd (ms' ! j))
        \<and> answers (lb_msgpack lb) has_type (cf (ms' ! j)) (vs ! j) (rsp_result (xs ! j))"
    by auto
  have calls: "mset (map (message_call i) ms') = mset (concat (map (\<lambda>sid. map (Pair sid) [0..<length (cs sid)]) sids))"
    using all_numbers [OF assms(6) _ sent] assms(7) ms'(1) i_eq by simp
  have own: "mset (writes_of (shared t) sid) = mset (map (frame (lb_order lb)) (answers_for sid xs))"
    if "sid \<in> set sids" for sid
    using written [of sid] sent [OF that] by (simp add: client_sent_def frames_for_answers)
  show ?thesis by (rule that [OF ms'(1) calls vs(1) [unfolded ord(2)] vs(2,3) each own])
qed

text \<open>A client that reads the answers to its calls, in whatever order they were written.\<close>

lemma client_reads_answers:
  assumes "msgpack_codec (lb_msgpack lb) has_type"
    and client: "client_sent lb has_type C e ms sid (cs sid) (s sid) (fs sid) (s' sid)"
    and i: "i sid = unat (curr_object_id (s sid))" and cf: "\<And>m. cf m = (case message_call i m of (sid, k) \<Rightarrow> cs sid ! k)"
    and ms': "mset ms' = mset ms" and len: "length xs = length ms'"
    and each: "\<forall>j < length ms'. rsp_stream_id (xs ! j) = fst (ms' ! j) \<and> rsp_object_id (xs ! j) = fst (snd (ms' ! j))
        \<and> answers (lb_msgpack lb) has_type (cf (ms' ! j)) (vs ! j) (rsp_result (xs ! j))"
    and frames: "mset (writes_of (shared t) sid) = mset (map (frame (lb_order lb)) (answers_for sid xs))"
  shows "\<exists>s''. client_bytes (lb_order lb) throws src (concat (writes_of (shared t) sid)) (l, s' sid) = Inr (l, s'')
    \<and> (\<forall>j < length ms'. fst (ms' ! j) = sid \<longrightarrow>
         map_option fst (Get (lb_msgpack lb) others s'' (fs sid ! snd (message_call i (ms' ! j)))) = get_outcome (vs ! j))"
proof -
  have fs: "fs sid = futures_of (i sid) (cs sid)"
    using client calls_sent [of "lb_order lb" "cs sid" "s sid" lb "fs sid" "s' sid" _ has_type e]
    by (auto simp: client_sent_def i dest: call_in_fits)
  have "map fst (answers_for sid xs) = map (\<lambda>m. fst (snd m)) (filter (\<lambda>m. fst m = sid) ms')"
    using each by (intro answers_for_ids [OF len]) blast
  then have ids: "mset (map fst (answers_for sid xs)) = mset (map (\<lambda>m. fst (snd m)) (filter (\<lambda>m. fst m = sid) ms))"
    using ms' by (simp only: mset_map mset_filter)
  have "\<forall>x \<in> set xs. length (rsp_result x) < 2 ^ 32"
    using each len by (auto simp: in_set_conv_nth answers_def)
  from answers_read [OF client frames ids this] obtain s'' where
    read: "client_bytes (lb_order lb) throws src (concat (writes_of (shared t) sid)) (l, s' sid) = Inr (l, s'')"
    and found: "\<And>k x. x \<in> set xs \<Longrightarrow> rsp_stream_id x = sid \<Longrightarrow> rsp_object_id x = of_nat k \<Longrightarrow> k < 2 ^ 32 \<Longrightarrow>
      cached (of_nat k) s'' = Some (rsp_result x)"
    by blast
  have "map_option fst (Get (lb_msgpack lb) others s'' (fs sid ! snd (message_call i (ms' ! j)))) = get_outcome (vs ! j)"
    if j: "j < length ms'" "fst (ms' ! j) = sid" for j
  proof -
    have m: "ms' ! j \<in> set ms" using nth_mem [OF j(1)] mset_eq_setD [OF ms'] by blast
    obtain k where k: "k < length (cs sid)" "message_call i (ms' ! j) = (sid, k)"
      "ms' ! j = (sid, of_nat (i sid + k), buffer_of (lb_msgpack lb) (cs sid ! k))"
      by (rule sent_message [where i = i, OF client i m j(2)]) (rule that)
    have id: "fst (snd (ms' ! j)) = of_nat (i sid + k)" by (subst k(3)) simp
    have "cached (of_nat (i sid + k)) s'' = Some (rsp_result (xs ! j))"
    proof (rule found)
      show "xs ! j \<in> set xs" "rsp_stream_id (xs ! j) = sid" using j each len by simp_all
      show "rsp_object_id (xs ! j) = of_nat (i sid + k)" using j(1) each id by simp
      show "i sid + k < 2 ^ 32" using sent_room [OF client] k(1) by (simp add: i)
    qed
    from Get_outcome [OF assms(1) this] have
      "answers (lb_msgpack lb) has_type (cs sid ! k) (vs ! j) (rsp_result (xs ! j)) \<Longrightarrow>
        map_option fst (Get (lb_msgpack lb) others s'' (DousiFuture (call_type (cs sid ! k)) (of_nat (i sid + k))))
        = get_outcome (vs ! j)"
      by (simp only: answers_def)
    moreover have "answers (lb_msgpack lb) has_type (cs sid ! k) (vs ! j) (rsp_result (xs ! j))"
      using j(1) each k(2) by (auto simp: cf)
    moreover have "fs sid ! k = DousiFuture (call_type (cs sid ! k)) (of_nat (i sid + k))"
      using k(1) by (simp only: fs calls_nth(1))
    ultimately show ?thesis using k(2) by (simp only: snd_conv)
  qed
  with read show ?thesis by blast
qed

text \<open>All clients together.\<close>

lemma clients_sequential:
  assumes "executor_queues lb rq rs" and "msgpack_codec (lb_msgpack lb) has_type" and "serving rq rs e"
    and "message_run lb (start_threads e) ms t" and "\<nexists>ev r. internal_step lb t ev r"
    and "distinct sids" and "\<forall>m \<in> set ms. fst m \<in> set sids"
    and "\<forall>sid \<in> set sids. client_sent lb has_type C e ms sid (cs sid) (s sid) (fs sid) (s' sid)" and "in_classes C e"
  shows "\<exists>order vs.
    mset order = mset (concat (map (\<lambda>sid. map (Pair sid) [0..<length (cs sid)]) sids))
    \<and> length vs = length order
    \<and> local_calls e (map (\<lambda>(sid, k). cs sid ! k) order) (objects e) = Inr (vs, objects (shared t))
    \<and> (\<forall>sid \<in> set sids. \<exists>s''.
         client_bytes (lb_order lb) throws src (concat (writes_of (shared t) sid)) (l, s' sid) = Inr (l, s'')
         \<and> (\<forall>j < length order. fst (order ! j) = sid \<longrightarrow>
              map_option fst (Get (lb_msgpack lb) others s'' (fs sid ! snd (order ! j))) = get_outcome (vs ! j)))"
proof -
  define i where "i sid = unat (curr_object_id (s sid))" for sid
  define cf where "cf m = (case message_call i m of (sid, k) \<Rightarrow> cs sid ! k)" for m
  have sent: "\<And>sid. sid \<in> set sids \<Longrightarrow> client_sent lb has_type C e ms sid (cs sid) (s sid) (fs sid) (s' sid)"
    using assms(8) by blast
  obtain ms' vs xs where ms': "mset ms' = mset ms"
    and calls: "mset (map (message_call i) ms') = mset (concat (map (\<lambda>sid. map (Pair sid) [0..<length (cs sid)]) sids))"
    and local_run: "local_calls e (map cf ms') (objects e) = Inr (vs, objects (shared t))"
    and len: "length vs = length ms'" "length xs = length ms'"
    and each: "\<forall>j < length ms'. rsp_stream_id (xs ! j) = fst (ms' ! j) \<and> rsp_object_id (xs ! j) = fst (snd (ms' ! j))
        \<and> answers (lb_msgpack lb) has_type (cf (ms' ! j)) (vs ! j) (rsp_result (xs ! j))"
    and written: "\<And>sid. sid \<in> set sids \<Longrightarrow>
        mset (writes_of (shared t) sid) = mset (map (frame (lb_order lb)) (answers_for sid xs))"
    using clients_served [where i = i and cf = cf, OF assms(1-7) sent i_def cf_def assms(9)] by blast
  let ?order = "map (message_call i) ms'"
  have "map (\<lambda>(sid, k). cs sid ! k) ?order = map cf ms'" by (simp add: cf_def)
  with local_run have "local_calls e (map (\<lambda>(sid, k). cs sid ! k) ?order) (objects e) = Inr (vs, objects (shared t))"
    by (simp only:)
  moreover have "\<exists>s''. client_bytes (lb_order lb) throws src (concat (writes_of (shared t) sid)) (l, s' sid) = Inr (l, s'')
      \<and> (\<forall>j < length ?order. fst (?order ! j) = sid \<longrightarrow>
           map_option fst (Get (lb_msgpack lb) others s'' (fs sid ! snd (?order ! j))) = get_outcome (vs ! j))"
    if "sid \<in> set sids" for sid
    using client_reads_answers [where i = i and cf = cf and cs = cs and s = s and fs = fs and s' = s',
        OF assms(2) sent [OF that] i_def cf_def ms' len(2) each written [OF that], of throws src l others]
    by (auto simp: message_call_def)
  ultimately show ?thesis using calls len(1) by (intro exI [of _ ?order] exI [of _ vs] conjI ballI) simp_all
qed

end
