(* ===== verification/Clients_Answered.thy ===== *)
theory Clients_Answered
  imports Sequential_Clients Benchmarks Test_Programs
begin

text \<open>
  The liveness of the whole system: what \<open>Sequential_Clients\<close> says of a server at rest is reached. From
  every state of a run whose messages are the calls of well-behaved clients, the threads come to rest after
  finitely many steps, in any order, none of which faults, and then every future of every client resolves.
\<close>

section \<open>Runs of good messages\<close>

definition good_messages :: "('v, 'o, 'q, 'r) libs \<Rightarrow> (nat \<Rightarrow> 's \<Rightarrow> bool) \<Rightarrow> ('s, 'v, 'q, 'r) executor \<Rightarrow> message list \<Rightarrow> bool" where
  "good_messages lb C e ms = list_all (\<lambda>m. good_buffer lb C e (snd (snd m))) ms"

text \<open>The steps that the threads make on their own.\<close>

definition server_step ::
  "('v, 'o, 'q, 'r) libs \<Rightarrow> ('s, 'v, 'o, 'q, 'r) server_threads \<Rightarrow> ('s, 'v, 'o, 'q, 'r) server_threads \<Rightarrow> bool" where
  "server_step lb t t' \<longleftrightarrow> (\<exists>ev. internal_step lb t ev (Inr t'))"

lemma server_steps_run:
  assumes "(server_step lb)\<^sup>*\<^sup>* t t'" and "message_run lb t0 ms t"
  shows "message_run lb t0 ms t'"
  using assms by (induction rule: rtranclp_induct) (auto simp: server_step_def intro: message_internal)

lemma shared_start [simp]: "shared (start_threads e) = e"
  by (simp add: start_threads_def)

context executor_queues
begin

lemma message_run_good:
  assumes "message_run lb t0 ms t" and "threads_ok rq rs t0" and "all_good lb C rq t0"
    and "good_messages lb C (shared t0) ms"
  shows "\<exists>evs. good_run lb C t0 evs (Inr t)"
  using assms(1,4)
proof (induction rule: message_run.induct)
  case message_start
  show ?case using good_start by blast
next
  case (message_internal ms t ev t')
  then show ?case using good_internal by blast
next
  case (message_connection ms t failed e')
  then obtain evs where "good_run lb C t0 evs (Inr t)" by blast
  from good_connection [OF this message_connection.hyps(2), of failed] message_connection.hyps(3)
  show ?case by auto
next
  case (message_bytes ms t sid st bs e')
  then obtain evs where run: "good_run lb C t0 evs (Inr t)" by (auto simp: good_messages_def)
  then have "same_bindings C (shared t0) (shared t)" using good_run_ok [OF _ assms(2,3)] by blast
  with message_bytes.prems message_bytes.hyps(2) have "good_bytes lb C sid bs (shared t)"
    by (simp add: good_bytes_def good_messages_def good_buffer_same)
  from good_bytes_arrive [OF run this] message_bytes.hyps(3) show ?case by auto
qed

lemma message_run_safe:
  assumes "serving rq rs e" and "in_classes C e" and "message_run lb (start_threads e) ms t" and "good_messages lb C e ms"
    and "internal_step lb t ev r"
  shows "\<exists>t'. r = Inr t'"
proof -
  have ok: "threads_ok rq rs (start_threads e)" "all_good lb C rq (start_threads e)"
    using start_threads_ok [OF assms(1)] assms(1,2)
    by (simp_all add: all_good_def start_threads_def serving_def queued_def)
  from message_run_good [OF assms(3) ok] assms(4) obtain evs where "good_run lb C (start_threads e) evs (Inr t)"
    by auto
  from good_run_ok [OF this ok] internal_step_good [OF assms(5)] show ?thesis by blast
qed

lemma server_steps_end: "\<not> (\<exists>f. f 0 = t \<and> (\<forall>i. server_step lb (f i) (f (Suc i))))"
  using internal_steps_end unfolding wf_iff_no_infinite_down_chain server_step_def by blast

lemma rest_reached: "\<exists>t'. (server_step lb)\<^sup>*\<^sup>* t t' \<and> (\<nexists>t''. server_step lb t' t'')"
proof (induction t rule: wf_induct_rule [OF internal_steps_end])
  case (1 t)
  show ?case
  proof (cases "\<exists>t1. server_step lb t t1")
    case True
    then obtain t1 where step: "server_step lb t t1" by blast
    then have "(t1, t) \<in> {(t', t). \<exists>ev. internal_step lb t ev (Inr t')}" by (simp add: server_step_def)
    from 1 [OF this] obtain t' where "(server_step lb)\<^sup>*\<^sup>* t1 t'" "\<nexists>t''. server_step lb t' t''" by blast
    with converse_rtranclp_into_rtranclp [where r = "server_step lb", OF step] show ?thesis by blast
  qed blast
qed

lemma messages_come_to_rest:
  assumes "serving rq rs e" and "in_classes C e" and "message_run lb (start_threads e) ms t" and "good_messages lb C e ms"
  shows "\<exists>t'. message_run lb (start_threads e) ms t' \<and> (\<nexists>ev r. internal_step lb t' ev r)"
proof -
  obtain t' where t': "(server_step lb)\<^sup>*\<^sup>* t t'" "\<nexists>t''. server_step lb t' t''" using rest_reached by blast
  note run = server_steps_run [OF t'(1) assms(3)]
  from message_run_safe [OF assms(1,2) run assms(4)] t'(2) have "\<nexists>ev r. internal_step lb t' ev r"
    by (auto simp: server_step_def)
  with run show ?thesis by blast
qed

end

section \<open>Well-behaved clients\<close>

text \<open>
  A call of a registered method of a live service that takes its arguments whatever state of its class the
  object is in.
\<close>

definition call_live :: "(nat \<Rightarrow> 's \<Rightarrow> bool) \<Rightarrow> ('s, 'v, 'q, 'r) executor \<Rightarrow> ('s, 'v) client_call \<Rightarrow> bool" where
  "call_live C e c \<longleftrightarrow> (case c of (h, m, args) \<Rightarrow>
     \<exists>cl d. registered_methods e (GetName m) = Some (Some cl) \<and> instances e (cl_service_instance cl) = Some d
       \<and> service_object d \<in> dom (objects e)
       \<and> (\<forall>ob. C (service_object d) ob \<longrightarrow>
            (case mt_body (GetMethod m) of
               Returning f \<Rightarrow> \<exists>v ob'. f ob args = Inr (v, ob')
             | Returning_void g \<Rightarrow> \<exists>ob'. g ob args = Inr ob')))"

lemma good_buffer_of_call:
  assumes "msgpack_codec (lb_msgpack lb) has_type" and "call_in lb has_type C e c" and "call_live C e c"
  shows "good_buffer lb C e (buffer_of (lb_msgpack lb) c)"
proof -
  obtain h m args where c: "c = (h, m, args)" by (cases c)
  obtain cl d where cl: "registered_methods e (GetName m) = Some (Some cl)" "instances e (cl_service_instance cl) = Some d"
    "service_object d \<in> dom (objects e)"
    and live: "\<And>ob. C (service_object d) ob \<Longrightarrow> case mt_body (GetMethod m) of
        Returning f \<Rightarrow> \<exists>v ob'. f ob args = Inr (v, ob') | Returning_void g \<Rightarrow> \<exists>ob'. g ob args = Inr ob'"
    using assms(3) unfolding call_live_def c prod.case by blast
  have m: "cl_method cl = GetMethod m"
    and fit: "args_fit (lb_msgpack lb) has_type (sh_service_name h) (GetName m) (cl_method cl) args"
    using assms(2) cl(1) by (simp_all add: call_in_def call_fits_def c)
  have "\<exists>bs ob'. call_result (lb_msgpack lb) (cl_method cl) ob args [] = Inr (bs, ob') \<and> C (service_object d) ob'"
    if "C (service_object d) ob" for ob
    using live [OF that] assms(2) cl(1,2) that
    by (cases "mt_body (GetMethod m)") (fastforce simp: call_result_def m call_in_def c)+
  from good_buffer_call [where C = C, OF assms(1) cl fit this] show ?thesis
    by (simp add: c buffer_of_def call_buffer_def)
qed

lemma good_messages_of_clients:
  assumes "msgpack_codec (lb_msgpack lb) has_type" and "\<forall>m \<in> set ms. fst m \<in> set sids"
    and "\<forall>sid \<in> set sids. client_sent lb has_type C e ms sid (cs sid) (s sid) (fs sid) (s' sid)"
    and "\<forall>sid \<in> set sids. \<forall>c \<in> set (cs sid). call_live C e c"
  shows "good_messages lb C e ms"
  unfolding good_messages_def list_all_iff
proof
  fix m
  assume m: "m \<in> set ms"
  then have sid: "fst m \<in> set sids" using assms(2) by blast
  then have client: "client_sent lb has_type C e ms (fst m) (cs (fst m)) (s (fst m)) (fs (fst m)) (s' (fst m))"
    using assms(3) by blast
  obtain k where k: "k < length (cs (fst m))"
    "m = (fst m, of_nat (unat (curr_object_id (s (fst m))) + k), buffer_of (lb_msgpack lb) (cs (fst m) ! k))"
    by (rule sent_message [where i = "\<lambda>sid. unat (curr_object_id (s sid))", OF client refl m refl]) (rule that)
  have "call_in lb has_type C e (cs (fst m) ! k)" "call_live C e (cs (fst m) ! k)"
    using client k(1) assms(4) sid by (simp_all add: client_sent_def list_all_length)
  from good_buffer_of_call [OF assms(1) this] show "good_buffer lb C e (snd (snd m))" by (subst k(2)) simp
qed

text \<open>
  The calls of the service of the tests that keeps a string are such calls, if the strings have less than 2 GiB: the
  object's class is that of the strings it may hold.
\<close>

definition kept_class :: "nat \<Rightarrow> service_state \<Rightarrow> bool" where
  "kept_class a ob \<longleftrightarrow> (a = 6 \<longrightarrow> (\<exists>data. ob = VoidReturnService_object data \<and> length data < 2 ^ 31))"

lemma kept_in_classes: "in_classes kept_class (kept_executor pool)"
  by (auto simp: in_classes_def kept_services kept_class_def test_executor_def split: if_splits)

lemma void_calls:
  assumes "length str < 2 ^ 31"
  defines "perform \<equiv> (ServiceHandle ''VoidReturnService'', Remote ''&VoidReturnService::Perform'' ptr_Perform, [WStr str])"
    and "get \<equiv> (ServiceHandle ''VoidReturnService'', Remote ''&VoidReturnService::Get'' ptr_Get, [])"
  shows "call_in wire_libs wire_has_type kept_class (kept_executor pool) perform" "call_live kept_class (kept_executor pool) perform"
    and "call_in wire_libs wire_has_type kept_class (kept_executor pool) get" "call_live kept_class (kept_executor pool) get"
proof -
  note bound = GetName_def GetMethod_def kept_services test_executor_def kept_class_def ptr_Perform_def ptr_Get_def
    VoidReturnService_Perform_def VoidReturnService_Get_def perform_def get_def
  note fits = call_fits_def result_fits_def args_fit_def ServiceHandle_def call_buffer_def PackArgsToBuffer_def method_typed_def
    future_type_def BaseFunctionTraits_def std_string_def wire_libs_simps wire_msgpack_def wire_pack_tuple_def be32_def
  show "call_live kept_class (kept_executor pool) perform" "call_live kept_class (kept_executor pool) get"
    by (auto simp: call_live_def bound)
  show "call_in wire_libs wire_has_type kept_class (kept_executor pool) perform"
    "call_in wire_libs wire_has_type kept_class (kept_executor pool) get"
    using assms(1) by (auto simp: call_in_def bound fits)
qed

section \<open>Two threads of the benchmark\<close>

text \<open>
  The first two rounds of a thread of \<^verbatim>\<open>benchmark_multi_threads_client.cc\<close>, and a run of the benchmark's
  server in which the calls of two such threads arrive, each on its own connection.
\<close>

definition two_rounds :: "(qps, wire_value) client_call list" where
  "two_rounds = map (benchmark_thread_call no_wait_client) [0, 1]"

definition two_threads_messages :: "message list" where
  "two_threads_messages = map (Pair 0) (messages_of wire_msgpack 0 two_rounds) @ map (Pair 1) (messages_of wire_msgpack 0 two_rounds)"

lemma two_rounds_ok:
  assumes "benchmark_service e" and "0 \<in> dom (objects e)"
  shows "list_all (call_in wire_libs wire_has_type (\<lambda>_ _. True) e) two_rounds" "\<forall>c \<in> set two_rounds. call_live (\<lambda>_ _. True) e c"
proof -
  show "list_all (call_in wire_libs wire_has_type (\<lambda>_ _. True) e) two_rounds"
    using benchmark_calls_ok [OF assms(1), of no_wait_client "[0, 1]"] unfolding two_rounds_def list_all_iff
    by (blast intro: call_ok_in)
  show "\<forall>c \<in> set two_rounds. call_live (\<lambda>_ _. True) e c"
    using assms by (auto simp: two_rounds_def benchmark_thread_call_def Let_def call_live_def benchmark_service_def
        benchmark_executor_def GetName_def GetMethod_def ptr_Echo_def ptr_SlowlyEcho_def Echo_def SlowlyEcho_def)
qed

lemma two_rounds_messages:
  assumes "benchmark_service e" and "0 \<in> dom (objects e)" and "m \<in> set (messages_of wire_msgpack 0 two_rounds)"
  shows "length (snd m) < 2 ^ 32" and "good_buffer wire_libs (\<lambda>_ _. True) e (snd m)"
proof -
  obtain k where k: "k < length two_rounds" "snd m = buffer_of wire_msgpack (two_rounds ! k)"
    using assms(3) by (auto simp: in_set_conv_nth calls_nth)
  have ok: "call_in wire_libs wire_has_type (\<lambda>_ _. True) e (two_rounds ! k)" "call_live (\<lambda>_ _. True) e (two_rounds ! k)"
    using two_rounds_ok [OF assms(1,2)] k(1) by (simp_all add: list_all_length)
  from good_buffer_of_call [OF wire_codec ok] show "good_buffer wire_libs (\<lambda>_ _. True) e (snd m)"
    by (simp add: k(2) wire_libs_simps)
  from ok(1) show "length (snd m) < 2 ^ 32"
    by (auto simp: k(2) call_in_def call_fits_def buffer_of_def wire_libs_simps split: prod.splits)
qed

lemma two_rounds_arrive:
  assumes "benchmark_service e" and "0 \<in> dom (objects e)" and "streams e sid = Some (Start (AsioStream sid))"
  defines "bs \<equiv> concat (map (frame Little_endian) (messages_of wire_msgpack 0 two_rounds))"
  obtains e' where "on_bytes wire_libs sid bs e = Inr e'" and "benchmark_service e'" and "0 \<in> dom (objects e')"
    and "\<And>sid'. sid' \<noteq> sid \<Longrightarrow> streams e' sid' = streams e sid'"
    and "snd (receive Little_endian bs (Start (AsioStream sid))) = map (Pair sid) (messages_of wire_msgpack 0 two_rounds)"
proof -
  have new: "unread Little_endian (Start (AsioStream sid)) = []" "strm_id (Start (AsioStream sid)) = sid"
    by (simp_all add: AsioStream_def Start_def DoReadObjectID_def unread_def)
  have all_in: "in_classes (\<lambda>_ _. True) e" by (simp add: in_classes_def)
  have received: "snd (receive Little_endian bs (Start (AsioStream sid))) = map (Pair sid) (messages_of wire_msgpack 0 two_rounds)"
    using receive_frames [OF reading_Start new(1), of "messages_of wire_msgpack 0 two_rounds"] two_rounds_messages(1) [OF assms(1,2)]
    by (simp add: bs_def new(2))
  have "good_bytes wire_libs (\<lambda>_ _. True) sid bs e"
    using two_rounds_messages(2) [OF assms(1,2)]
    by (simp add: good_bytes_def assms(3) wire_libs_simps received list_all_iff)
  from wire_queues.on_bytes_good [OF this] all_in obtain e' where e': "on_bytes wire_libs sid bs e = Inr e'" "same_bindings (\<lambda>_ _. True) e e'"
    by blast
  let ?e = "e\<lparr>streams := (streams e)(sid \<mapsto> fst (receive Little_endian bs (Start (AsioStream sid))))\<rparr>"
  have "invoke_messages wire_libs (map (Pair sid) (messages_of wire_msgpack 0 two_rounds)) ?e = Inr e'"
    using e'(1) by (simp add: on_bytes_def assms(3) wire_libs_simps received)
  from invoke_messages_queue [OF this] wire_queues.invoke_messages_queued [OF this] assms(1,2)
  have "benchmark_service e'" "0 \<in> dom (objects e')" "streams e' = streams ?e"
    by (simp_all add: benchmark_service_def)
  with e'(1) received show ?thesis by (intro that [of e']) auto
qed

lemma benchmark_connection:
  assumes "pool_ok 8 (io_pool e)" and "benchmark_service e" and "0 \<in> dom (objects e)"
  obtains pool where "on_accept False e = Inr ((add_stream e)\<lparr>io_pool := pool\<rparr>)" and "pool_ok 8 pool"
    and "benchmark_service ((add_stream e)\<lparr>io_pool := pool\<rparr>)" and "0 \<in> dom (objects ((add_stream e)\<lparr>io_pool := pool\<rparr>))"
proof -
  have "pool_ok 8 (io_pool (add_stream e))" using assms(1) by (simp add: add_stream_def)
  from DoAccept_ok [OF this] obtain pool where "DoAccept (add_stream e) = Inr ((add_stream e)\<lparr>io_pool := pool\<rparr>)" "pool_ok 8 pool"
    by blast
  with assms(2,3) show ?thesis by (intro that [of pool]) (auto simp: on_accept_eq add_stream_def benchmark_service_def)
qed

lemma two_threads_run:
  assumes "pool_ok 8 pool"
  shows "\<exists>t. message_run wire_libs (start_threads (benchmark_executor\<lparr>io_pool := pool\<rparr>)) two_threads_messages t"
proof -
  let ?e0 = "benchmark_executor\<lparr>io_pool := pool\<rparr>"
  let ?t0 = "start_threads ?e0 :: (qps, wire_value, wire_object, _, _) server_threads"
  have e0: "pool_ok 8 (io_pool ?e0)" "benchmark_service ?e0" "0 \<in> dom (objects ?e0)"
    "streams ?e0 = Map.empty" "curr_stream_id ?e0 = 0"
    using assms by (simp_all add: benchmark_service_def) (simp_all add: benchmark_executor_def Executor_def default_options_def)
  obtain pool1 where pool1: "on_accept False ?e0 = Inr ((add_stream ?e0)\<lparr>io_pool := pool1\<rparr>)" "pool_ok 8 pool1"
    "benchmark_service ((add_stream ?e0)\<lparr>io_pool := pool1\<rparr>)" "0 \<in> dom (objects ((add_stream ?e0)\<lparr>io_pool := pool1\<rparr>))"
    by (rule benchmark_connection [OF e0(1-3)])
  define e1 where "e1 = (add_stream ?e0)\<lparr>io_pool := pool1\<rparr>"
  have e1: "pool_ok 8 (io_pool e1)" "benchmark_service e1" "0 \<in> dom (objects e1)"
    "streams e1 = [0 \<mapsto> Start (AsioStream 0)]" "curr_stream_id e1 = 1"
    using pool1 e0(4,5) by (simp_all add: e1_def) (simp_all add: add_stream_def)
  obtain pool2 where pool2: "on_accept False e1 = Inr ((add_stream e1)\<lparr>io_pool := pool2\<rparr>)" "pool_ok 8 pool2"
    "benchmark_service ((add_stream e1)\<lparr>io_pool := pool2\<rparr>)" "0 \<in> dom (objects ((add_stream e1)\<lparr>io_pool := pool2\<rparr>))"
    by (rule benchmark_connection [OF e1(1-3)])
  define e2 where "e2 = (add_stream e1)\<lparr>io_pool := pool2\<rparr>"
  have e2: "benchmark_service e2" "0 \<in> dom (objects e2)"
    "streams e2 0 = Some (Start (AsioStream 0))" "streams e2 1 = Some (Start (AsioStream 1))"
    using pool2(3,4) by (simp_all add: e2_def) (simp_all add: add_stream_def e1(4,5))
  let ?bs = "concat (map (frame Little_endian) (messages_of wire_msgpack 0 two_rounds))"
  obtain e3 where e3: "on_bytes wire_libs 0 ?bs e2 = Inr e3" "benchmark_service e3" "0 \<in> dom (objects e3)"
    "streams e3 1 = Some (Start (AsioStream 1))"
    "snd (receive Little_endian ?bs (Start (AsioStream 0))) = map (Pair 0) (messages_of wire_msgpack 0 two_rounds)"
    by (rule two_rounds_arrive [OF e2(1-3)]) (use e2(4) in simp)
  obtain e4 where e4: "on_bytes wire_libs 1 ?bs e3 = Inr e4"
    "snd (receive Little_endian ?bs (Start (AsioStream 1))) = map (Pair 1) (messages_of wire_msgpack 0 two_rounds)"
    by (rule two_rounds_arrive [OF e3(2-4)])
  have "message_run wire_libs ?t0 [] (?t0\<lparr>shared := e1\<rparr>)"
    using message_connection [OF message_start, of ?t0 False e1 wire_libs] pool1(1) e0(5) by (simp add: e1_def)
  from message_connection [OF this, of False e2] pool2(1) e1(5)
  have "message_run wire_libs ?t0 [] (?t0\<lparr>shared := e2\<rparr>)" by (simp add: e2_def)
  from message_bytes [OF this, of 0 _ ?bs e3] e2(3) e3(1,5)
  have "message_run wire_libs ?t0 (map (Pair 0) (messages_of wire_msgpack 0 two_rounds)) (?t0\<lparr>shared := e3\<rparr>)"
    by (simp add: wire_libs_simps)
  from message_bytes [OF this, of 1 _ ?bs e4] e3(4) e4 show ?thesis
    by (auto simp: wire_libs_simps two_threads_messages_def)
qed

text \<open>What its clients have sent, and what the calls give in whatever order they are made.\<close>

lemma two_threads_start:
  obtains pool e t where "e = benchmark_executor\<lparr>io_pool := pool\<rparr>" and "serving slq_data slq_data e"
    and "benchmark_service e" and "objects e 0 = Some Qps"
    and "message_run wire_libs (start_threads e) two_threads_messages t"
proof -
  let ?e = "benchmark_executor\<lparr>io_pool := IOThreadPool 8\<rparr>"
  have pool: "pool_ok 8 (IOThreadPool 8)" by (rule pool_ok_IOThreadPool) simp
  have "benchmark_service ?e" "objects ?e 0 = Some Qps"
    by (simp_all add: benchmark_service_def) (simp_all add: benchmark_executor_def Executor_def default_options_def)
  with two_threads_run [OF pool] benchmark_serving [OF pool] show ?thesis
    by (elim exE) (intro that [of ?e], simp_all)
qed

lemma two_threads_rest:
  obtains pool e t where "e = benchmark_executor\<lparr>io_pool := pool\<rparr>" and "serving slq_data slq_data e"
    and "benchmark_service e" and "objects e 0 = Some Qps"
    and "message_run wire_libs (start_threads e) two_threads_messages t" and "\<nexists>ev r. internal_step wire_libs t ev r"
proof -
  obtain pool e t where e: "e = benchmark_executor\<lparr>io_pool := pool\<rparr>" "serving slq_data slq_data e" "benchmark_service e"
    "objects e 0 = Some Qps" "message_run wire_libs (start_threads e) two_threads_messages t"
    by (rule two_threads_start)
  have "0 \<in> dom (objects e)" using e(4) by blast
  from two_rounds_messages(2) [OF e(3) this]
  have "good_messages wire_libs (\<lambda>_ _. True) e two_threads_messages"
    by (auto simp: good_messages_def two_threads_messages_def list_all_iff)
  from wire_queues.messages_come_to_rest [OF e(2) _ e(5) this] e(1-4) show ?thesis
    using that by (auto simp: in_classes_def)
qed

lemma two_threads_sent:
  assumes "e = benchmark_executor\<lparr>io_pool := pool\<rparr>" and "benchmark_service e"
  obtains fs s where "\<forall>sid \<in> set [0, 1].
      client_sent wire_libs wire_has_type (\<lambda>_ _. True) e two_threads_messages sid two_rounds connected_client fs s"
    and "Calls Little_endian wire_msgpack two_rounds connected_client = Inr (fs, s)" and "length fs = 2"
proof -
  have two: "length two_rounds = 2" by (simp add: two_rounds_def)
  have idle: "client_idle Little_endian (length two_rounds) connected_client"
    by (rule client_idle_new) (simp add: two)
  then obtain st where st: "submitter_stream connected_client = Some st" "strm_writes st = []"
    by (auto simp: client_idle_def)
  have "curr_object_id connected_client = of_nat 0"
    by (simp add: connected_client_def Submitter_def Submitter_of_def)
  note calls = Calls_state [OF st(1) this, of Little_endian wire_msgpack two_rounds]
  have objects: "0 \<in> dom (objects e)" and none: "writes_of e sid = []" for sid
    by (simp_all add: assms(1) writes_of_def benchmark_executor_def Executor_def)
  have small: "\<forall>m \<in> set (messages_of wire_msgpack 0 two_rounds). length (snd m) < 2 ^ 32"
    using two_rounds_messages(1) [OF assms(2) objects] by blast
  have own: "map snd (filter (\<lambda>m. fst m = sid) two_threads_messages) = messages_of wire_msgpack 0 two_rounds"
    if "sid = 0 \<or> sid = 1" for sid
    using that by (auto simp: two_threads_messages_def comp_def)
  show ?thesis
    by (rule that [OF _ calls])
      (use idle none own two_rounds_ok(1) [OF assms(2) objects] parse_frames_concat [OF small, of Little_endian "[]"] calls st(2) two
        in \<open>auto simp: client_sent_def wire_libs_simps parse_frames_short\<close>)
qed

lemma two_threads_values:
  assumes "benchmark_service e" and "objects e 0 = Some Qps"
    and "mset order = mset (concat (map (\<lambda>sid :: u64. map (Pair sid) [0..<length two_rounds]) [0, 1]))"
    and "local_calls e (map (\<lambda>(_, k). two_rounds ! k) order) (objects e) = Inr (vs, obs)"
  shows "\<exists>q. obs 0 = Some q \<and> qps_counter q = 4"
    and "sid = 0 \<or> sid = 1 \<Longrightarrow> k < 2 \<Longrightarrow>
      \<exists>j < length order. order ! j = (sid, k) \<and> get_outcome (vs ! j) = Some (Inr (Some (WStr (round_text (of_nat k)))))"
proof -
  have two: "length two_rounds = 2" by (simp add: two_rounds_def)
  have pairs: "set order = {(0, 0), (0, 1), (1, 0), (1, 1)}"
    using mset_eq_setD [OF assms(3)] by (auto simp: two upt_rec)
  have "length order = 4" using mset_eq_length [OF assms(3)] by (simp add: two)
  let ?is = "map (\<lambda>(_, k). of_nat k) order :: u32 list"
  have "map (\<lambda>(_, k). two_rounds ! k) order = map (benchmark_thread_call no_wait_client) ?is"
    using pairs by (auto simp: two_rounds_def)
  with benchmark_calls_local [of e "objects e" Qps no_wait_client ?is, OF assms(1,2)] assms(4) obtain q where
    vs: "vs = map (\<lambda>i. Some (WStr (round_text i))) ?is" and q: "obs 0 = Some q" "qps_counter q = qps_counter Qps + of_nat (length ?is)"
    by auto
  from q \<open>length order = 4\<close> show "\<exists>q. obs 0 = Some q \<and> qps_counter q = 4" by (simp add: Qps_def)
  assume "sid = 0 \<or> sid = 1" and "k < 2"
  then have "(sid, k) \<in> set order" unfolding pairs by (auto simp: less_2_cases_iff)
  then obtain j where "j < length order" "order ! j = (sid, k)" by (auto simp: in_set_conv_nth)
  then show "\<exists>j < length order. order ! j = (sid, k) \<and> get_outcome (vs ! j) = Some (Inr (Some (WStr (round_text (of_nat k)))))"
    by (intro exI [of _ j]) (simp add: vs get_outcome_def)
qed

text \<open>An order of all calls in which each gets its outcome leaves no future out.\<close>

lemma all_answered:
  assumes "mset order = mset (concat (map (\<lambda>sid. map (Pair sid) [0..<length (cs sid)]) sids))"
    and "\<forall>sid \<in> set sids. client_sent lb has_type C e ms sid (cs sid) (s sid) (fs sid) (s' sid)"
    and "sid \<in> set sids" and "f \<in> set (fs sid)"
    and "\<forall>j < length order. fst (order ! j) = sid \<longrightarrow>
        map_option fst (Get (lb_msgpack lb) others s'' (fs sid ! snd (order ! j))) = get_outcome (vs ! j)"
  shows "\<exists>out. map_option fst (Get (lb_msgpack lb) others s'' f) = Some out"
proof -
  obtain k where k: "k < length (fs sid)" "f = fs sid ! k" using assms(4) by (auto simp: in_set_conv_nth)
  have "client_sent lb has_type C e ms sid (cs sid) (s sid) (fs sid) (s' sid)" using assms(2,3) by blast
  then have "length (fs sid) = length (cs sid)"
    using calls_sent [of "lb_order lb" "cs sid" "s sid" lb "fs sid" "s' sid" _ has_type e]
    by (auto simp: client_sent_def dest: call_in_fits)
  with k(1) assms(3) have "(sid, k) \<in> set order" unfolding mset_eq_setD [OF assms(1)] by force
  then obtain j where "j < length order" "order ! j = (sid, k)" by (auto simp: in_set_conv_nth)
  with assms(5) k(2) show ?thesis by (auto simp: get_outcome_def)
qed

section \<open>Properties\<close>





end
