(* ===== verification/Server_Types.thy ===== *)
theory Server_Types
  imports Stateless_Runs
begin

text \<open>
  The types of a server: its methods on arguments of their parameters' types, the objects its
  services keep, and the responses it gives. What the C++ type checker ensures of each method
  holds of the whole server, whatever bytes it is sent.
\<close>

section \<open>Methods and responses of a type\<close>

text \<open>
  What a method does with an object of its class and arguments of its types: it faults in a way that
  is expected, or gives a value of its return type and an object of the class.
\<close>

definition method_ok ::
  "(cpp_type \<Rightarrow> 'v \<Rightarrow> bool) \<Rightarrow> ('s \<Rightarrow> bool) \<Rightarrow> fault set \<Rightarrow> ('s, 'v) method_pointer \<Rightarrow> bool" where
  "method_ok has_type C F m \<longleftrightarrow>
     (\<forall>ob args. C ob \<longrightarrow>
        list_all2 has_type (drop 2 (ServiceNameAndMethodNameWithArgsTuple (FunctionTraits (mt_type m)))) args \<longrightarrow>
        (case mt_body m of
           Returning f \<Rightarrow> (case f ob args of
               Inl fault \<Rightarrow> fault \<in> F
             | Inr (v, ob') \<Rightarrow> has_type (ReturnType (FunctionTraits (mt_type m))) v \<and> C ob')
         | Returning_void f \<Rightarrow> (case f ob args of Inl fault \<Rightarrow> fault \<in> F | Inr ob' \<Rightarrow> C ob')))"

definition response_fits ::
  "('v, 'o) msgpack \<Rightarrow> (cpp_type \<Rightarrow> 'v \<Rightarrow> bool) \<Rightarrow> ('s, 'v) method_pointer \<Rightarrow> bytes \<Rightarrow> bool" where
  "response_fits mp has_type m body = (case mt_body m of
       Returning _ \<Rightarrow> \<exists>v. has_type (ReturnType (FunctionTraits (mt_type m))) v \<and> body = mp_pack mp v
     | Returning_void _ \<Rightarrow> body = [])"

text \<open>
  Every registered method is of a live service and typed for the class of its object, and every
  object is of the class of its address.
\<close>

definition services_typed ::
  "(cpp_type \<Rightarrow> 'v \<Rightarrow> bool) \<Rightarrow> (nat \<Rightarrow> 's \<Rightarrow> bool) \<Rightarrow> fault set \<Rightarrow> ('s, 'v, 'q, 'r) executor \<Rightarrow> bool" where
  "services_typed has_type classes F e \<longleftrightarrow>
     (\<forall>name cl. registered_methods e name = Some (Some cl) \<longrightarrow>
        (\<exists>d ob. instances e (cl_service_instance cl) = Some d \<and> objects e (service_object d) = Some ob
           \<and> method_ok has_type (classes (service_object d)) F (cl_method cl)))
     \<and> (\<forall>a ob. objects e a = Some ob \<longrightarrow> classes a ob)"

text \<open>The conversion to a tuple type checks the types and throws a type error.\<close>

locale typed_codec = msgpack_codec +
  assumes as_tuple_typed: "mp_as_tuple mp tys ob = Inr vs \<Longrightarrow> list_all2 has_type tys vs"
    and as_tuple_throws: "mp_as_tuple mp tys ob = Inl f \<Longrightarrow> f = Throws Msgpack_error"
begin

lemma invoke_typed:
  assumes "method_ok has_type C F m" and "C ob"
  shows "case InvokeHelper_Invoke mp m ob unpacked [] of
      Inl f \<Rightarrow> f \<in> insert (Throws Msgpack_error) F
    | Inr (body, ob') \<Rightarrow> response_fits mp has_type m body \<and> C ob'"
proof (cases "mp_as_tuple mp (ServiceNameAndMethodNameWithArgsTuple (FunctionTraits (mt_type m))) unpacked")
  case (Inl f)
  then show ?thesis by (simp add: InvokeHelper_Invoke_def as_tuple_throws)
next
  case (Inr tuple)
  have args: "list_all2 has_type (drop 2 (ServiceNameAndMethodNameWithArgsTuple (FunctionTraits (mt_type m))))
      (drop 2 tuple)"
    using as_tuple_typed [OF Inr] by (rule list_all2_dropI)
  have call: "TraitAndCall f ob tuple = f ob (drop 2 tuple)" for f :: "'c \<Rightarrow> 'a list \<Rightarrow> 'd"
    by (simp add: TraitAndCall_def TraitAndCall2_drop)
  have "case mt_body m of
      Returning f \<Rightarrow> (case f ob (drop 2 tuple) of
          Inl fault \<Rightarrow> fault \<in> F
        | Inr (v, ob') \<Rightarrow> has_type (ReturnType (FunctionTraits (mt_type m))) v \<and> C ob')
    | Returning_void f \<Rightarrow> (case f ob (drop 2 tuple) of Inl fault \<Rightarrow> fault \<in> F | Inr ob' \<Rightarrow> C ob')"
    using assms args unfolding method_ok_def by blast
  with Inr show ?thesis
    by (auto simp: InvokeHelper_Invoke_def TraitAndCall_def TraitAndCall2_drop response_fits_def
        split: member_fn.splits sum.splits)
qed

end

interpretation wire_typed: typed_codec wire_msgpack wire_has_type
proof unfold_locales
  fix tys ob vs
  assume "mp_as_tuple wire_msgpack tys ob = Inr vs"
  then show "list_all2 wire_has_type tys vs"
    by (cases ob) (auto simp: wire_msgpack_def split: if_splits)
next
  fix tys ob f
  assume "mp_as_tuple wire_msgpack tys ob = Inl f"
  then show "f = Throws Msgpack_error"
    by (cases ob) (auto simp: wire_msgpack_def split: if_splits)
qed

section \<open>The server keeps its types\<close>

text \<open>
  An invariant of the methods and the objects is kept by a run if it is by each call: first by what an event loop
  does with messages.
\<close>

lemma messages_keep_service:
  assumes "invoke_messages lb ms e = Inr e'" and "I e"
    and frame: "\<And>e e'. I e \<Longrightarrow> same_service e e' \<Longrightarrow> I e'"
    and call: "\<And>r e x e'. I e \<Longrightarrow> compute_response lb r e = Inr (x, e') \<Longrightarrow> I e'"
  shows "I e'"
proof -
  have perform: "I e'" if "I e" "PerformRequest lb r e = Inr e'" for r e e'
    using that(2) frame [OF call [OF that(1)]]
    by (auto simp: PerformRequest_def res_bind_Inr_iff same_service_def push_response_def)
  have invoke: "I e'" if "I e" "InvokeMethod lb sid oid buffer e = Inr e'" for sid oid buffer e e'
    using that(2) frame [OF that(1)] perform [OF that(1)]
    by (auto simp: InvokeMethod_def Let_def res_bind_Inr_iff same_service_def split: if_splits)
  show ?thesis
    using assms(1,2)
  proof (induction ms arbitrary: e)
    case (Cons m ms)
    obtain sid oid buffer where m: "m = (sid, oid, buffer)" by (cases m)
    obtain e1 where "InvokeMethod lb sid oid buffer e = Inr e1" "invoke_messages lb ms e1 = Inr e'"
      using Cons.prems(1) by (auto simp: m res_bind_Inr_iff)
    with Cons.IH invoke [OF Cons.prems(2)] show ?case by blast
  qed simp
qed

lemma bytes_keep_service:
  assumes "on_bytes lb sid bs e = Inr e'" and "I e"
    and frame: "\<And>e e'. I e \<Longrightarrow> same_service e e' \<Longrightarrow> I e'"
    and call: "\<And>r e x e'. I e \<Longrightarrow> compute_response lb r e = Inr (x, e') \<Longrightarrow> I e'"
  shows "I e'"
proof (cases "streams e sid")
  case None
  with assms(1,2) show ?thesis by (simp add: on_bytes_def)
next
  case (Some st)
  let ?e = "e\<lparr>streams := (streams e)(sid \<mapsto> fst (receive (lb_order lb) bs st))\<rparr>"
  have "invoke_messages lb (snd (receive (lb_order lb) bs st)) ?e = Inr e'"
    using assms(1) Some by (simp add: on_bytes_def)
  moreover have "I ?e" by (rule frame [OF assms(2)]) (simp add: same_service_def)
  ultimately show ?thesis using frame call by (rule messages_keep_service)
qed

lemma run_keeps_service:
  assumes "server_run lb t0 evs res" and "res = Inr t" and "I (shared t0)"
    and "\<And>e e'. I e \<Longrightarrow> same_service e e' \<Longrightarrow> I e'"
    and "\<And>r e x e'. I e \<Longrightarrow> compute_response lb r e = Inr (x, e') \<Longrightarrow> I e'"
  shows "I (shared t)"
  using assms(1,2,3)
proof (induction arbitrary: t rule: server_run.induct)
  case (run_internal t0 evs t1 ev res)
  then have one: "I (shared t1)" and step: "internal_step lb t1 ev (Inr t)" by auto
  from step show ?case
  proof (cases rule: internal_step.cases)
    case (worker_performs i r)
    with assms(5) [OF one, of r] show ?thesis by (auto simp: Inr_res_bind_iff)
  next
    case (writer_writes i x)
    then obtain e where e: "write_response lb x (shared t1) = Inr e" "shared t = e"
      by (auto simp: Inr_res_bind_iff)
    then have "same_service (shared t1) e" using write_response_writes [OF e(1)] by blast
    with assms(4) [OF one] e(2) show ?thesis by simp
  qed (auto intro: assms(4) [OF one] simp: same_service_def push_response_def)
next
  case (run_external t0 evs t1 ev res)
  then have one: "I (shared t1)" and step: "external_step lb t1 ev (Inr t)" by auto
  from step show ?case
  proof (cases rule: external_step.cases)
    case (connection failed)
    then obtain e where e: "on_accept failed (shared t1) = Inr e" "t = t1\<lparr>shared := e\<rparr>"
      by (auto simp: Inr_res_bind_iff)
    then have "same_service (shared t1) e"
      by (auto simp: on_accept_eq DoAccept_def res_bind_Inr_iff same_service_def add_stream_def
          split: if_splits prod.splits)
    with assms(4) [OF one] e(2) show ?thesis by simp
  next
    case (bytes_arrive sid bs)
    then obtain e where e: "on_bytes lb sid bs (shared t1) = Inr e" "t = t1\<lparr>shared := e\<rparr>"
      by (auto simp: Inr_res_bind_iff)
    from bytes_keep_service [OF e(1), where I = I, OF one assms(4,5)] e(2) show ?thesis by simp
  qed
qed simp

lemma compute_response_typed:
  assumes "typed_codec (lb_msgpack lb) has_type" and "services_typed has_type classes F e"
  shows "case compute_response lb r e of
      Inl f \<Rightarrow> f \<in> {Throws Bad_function_call, Throws Msgpack_error} \<union> F
    | Inr (x, e') \<Rightarrow> services_typed has_type classes F e'
        \<and> (\<exists>cl. registered_methods e (req_method_name r) = Some (Some cl)
             \<and> response_fits (lb_msgpack lb) has_type (cl_method cl) (rsp_result x))"
proof (cases "\<exists>cl. registered_methods e (req_method_name r) = Some (Some cl)")
  case False
  then have "fst (find_method (req_method_name r) e) = None"
    by (auto simp: find_method_def split: option.splits)
  then show ?thesis by (simp add: compute_response_def split_beta split: option.split prod.split)
next
  case True
  then obtain cl where cl: "registered_methods e (req_method_name r) = Some (Some cl)" by blast
  then obtain d ob where d: "instances e (cl_service_instance cl) = Some d" "objects e (service_object d) = Some ob"
    "method_ok has_type (classes (service_object d)) F (cl_method cl)" "classes (service_object d) ob"
    using assms(2) by (fastforce simp: services_typed_def)
  have objects: "services_typed has_type classes F (e\<lparr>objects := (objects e)(service_object d \<mapsto> ob')\<rparr>)"
    if "classes (service_object d) ob'" for ob'
    using assms(2) that by (fastforce simp: services_typed_def)
  from typed_codec.invoke_typed [OF assms(1) d(3,4), of "req_unpacked r"] cl d(1,2) objects show ?thesis
    by (auto simp: compute_response_def find_method_def call_closure_def split: sum.splits)
qed

lemma services_typed_same: "services_typed has_type classes F e \<Longrightarrow> same_service e e' \<Longrightarrow> services_typed has_type classes F e'"
  by (simp add: services_typed_def same_service_def)

lemma compute_typed:
  assumes "typed_codec (lb_msgpack lb) has_type" and "services_typed has_type classes F e"
    and "compute_response lb r e = Inr (x, e')"
  shows "services_typed has_type classes F e'"
  using compute_response_typed [OF assms(1,2), of r] assms(3) by simp

section \<open>The services of the repository\<close>

text \<open>The classes of the services of the examples and the tests.\<close>

definition service_class :: "string \<Rightarrow> service_state \<Rightarrow> bool" where
  "service_class c ob = (case ob of
       Adder_object \<Rightarrow> c = ''Adder''
     | Echoer_object \<Rightarrow> c = ''Echoer''
     | Calculator_object \<Rightarrow> c = ''Calculator''
     | UserDefinedClass_object \<Rightarrow> c = ''UserDefinedClass''
     | VoidReturnService_object data \<Rightarrow> c = ''VoidReturnService'' \<and> length data < 2 ^ 32)"

lemma wire_has_type_simps:
  "wire_has_type cpp_int v \<longleftrightarrow> (\<exists>i. v = WInt i)"
  "wire_has_type std_string v \<longleftrightarrow> (\<exists>s. v = WStr s \<and> length s < 2 ^ 32)"
  "wire_has_type (Base ''Person'') v \<longleftrightarrow> (\<exists>name age. v = WPerson name age \<and> length name < 2 ^ 32)"
  by (cases v; simp add: cpp_int_def std_string_def)+

lemma method_of_types:
  "drop 2 (ServiceNameAndMethodNameWithArgsTuple (FunctionTraits (MemFn c t tys))) =
    map (\<lambda>t. remove_const (remove_reference t)) tys"
  "ReturnType (FunctionTraits (MemFn c t tys)) = t"
  by (simp_all add: BaseFunctionTraits_def)

lemma method_okI:
  assumes "\<And>ob args. C ob \<Longrightarrow> list_all2 has_type (map (\<lambda>t. remove_const (remove_reference t)) tys) args \<Longrightarrow>
    case f ob args of Inl fault \<Rightarrow> fault \<in> F | Inr (v, ob') \<Rightarrow> has_type t v \<and> C ob'"
  shows "method_ok has_type C F \<lparr>mt_type = MemFn c t tys, mt_body = Returning f\<rparr>"
  unfolding method_ok_def method_pointer.select_convs member_fn.case method_of_types using assms by blast

lemma method_ok_voidI:
  assumes "\<And>ob args. C ob \<Longrightarrow> list_all2 has_type (map (\<lambda>t. remove_const (remove_reference t)) tys) args \<Longrightarrow>
    case f ob args of Inl fault \<Rightarrow> fault \<in> F | Inr ob' \<Rightarrow> C ob'"
  shows "method_ok has_type C F \<lparr>mt_type = MemFn c t tys, mt_body = Returning_void f\<rparr>"
  unfolding method_ok_def method_pointer.select_convs member_fn.case method_of_types using assms by blast

lemma decayed_types: "remove_const (remove_reference cpp_int) = cpp_int"
  "remove_const (remove_reference (LRef (Const (Base c)))) = Base c"
  "remove_const (remove_reference (LRef (Const std_string))) = std_string"
  by (simp_all add: cpp_int_def std_string_def)

lemmas typing_simps = decayed_types list_all2_Cons1 wire_has_type_simps int_result_def
  Adder_add_def Adder_sub_def Calculator_add_def Calculator_sub_def Echoer_echo_def UserDefinedClass_IncrAge_def
  VoidReturnService_Perform_def VoidReturnService_Get_def

text \<open>The methods are typed; the additions and subtractions may overflow.\<close>

lemma services_methods_typed:
  "method_ok wire_has_type (service_class c) {Signed_overflow} ptr_add"
  "method_ok wire_has_type (service_class c) {Signed_overflow} ptr_sub"
  "method_ok wire_has_type (service_class c) {Signed_overflow} ptr_Calculator_add"
  "method_ok wire_has_type (service_class c) {Signed_overflow} ptr_Calculator_sub"
  "method_ok wire_has_type (service_class c) F ptr_echo"
  "method_ok wire_has_type (service_class c) {Signed_overflow} ptr_IncrAge"
  "method_ok wire_has_type (service_class ''VoidReturnService'') F ptr_Perform"
  "method_ok wire_has_type (service_class ''VoidReturnService'') F ptr_Get"
  unfolding ptr_add_def ptr_sub_def ptr_Calculator_add_def ptr_Calculator_sub_def ptr_echo_def ptr_IncrAge_def ptr_Perform_def ptr_Get_def
         apply (rule method_okI, auto simp: typing_simps) [1]
        apply (rule method_okI, auto simp: typing_simps) [1]
       apply (rule method_okI, auto simp: typing_simps) [1]
      apply (rule method_okI, auto simp: typing_simps) [1]
     apply (rule method_okI, auto simp: typing_simps) [1]
    apply (rule method_okI, auto simp: typing_simps) [1]
   apply (rule method_ok_voidI, auto simp: typing_simps service_class_def split: service_state.splits) [1]
  apply (rule method_okI, auto simp: typing_simps service_class_def split: service_state.splits) [1]
  done

text \<open>The servers' objects by their addresses.\<close>

definition example_class :: "nat \<Rightarrow> service_state \<Rightarrow> bool" where
  "example_class a = (if a = 0 then service_class ''Adder'' else service_class ''Echoer'')"

lemma example_services_typed: "services_typed wire_has_type example_class {Signed_overflow} example_executor"
  unfolding services_typed_def
proof (intro conjI allI impI)
  have services: "instances example_executor 1 = Some \<lparr>service_name = [], service_object = 0\<rparr>"
    "instances example_executor 3 = Some \<lparr>service_name = [], service_object = 2\<rparr>"
    "objects example_executor 0 = Some Adder_object" "objects example_executor 2 = Some Echoer_object"
    by (simp_all add: example_executor_def)
  fix name cl
  assume "registered_methods example_executor name = Some (Some cl)"
  then have "cl \<in> {\<lparr>cl_method = ptr_add, cl_service_instance = 1\<rparr>,
      \<lparr>cl_method = ptr_sub, cl_service_instance = 1\<rparr>, \<lparr>cl_method = ptr_echo, cl_service_instance = 3\<rparr>}"
    by (auto simp: example_executor_def split: if_splits)
  then show "\<exists>d ob. instances example_executor (cl_service_instance cl) = Some d
      \<and> objects example_executor (service_object d) = Some ob
      \<and> method_ok wire_has_type (example_class (service_object d)) {Signed_overflow} (cl_method cl)"
    by (elim insertE emptyE) (simp_all add: services services_methods_typed example_class_def del: One_nat_def)
next
  fix a ob
  assume "objects example_executor a = Some ob"
  then show "example_class a ob"
    by (auto simp: example_executor_def example_class_def service_class_def split: if_splits)
qed

section \<open>Properties\<close>

text \<open>
  C11: types are kept. From an executor whose registered methods are of live services and typed,
  whatever connections and bytes come in, every object stays in its class, and performing any request
  gives a response that is the packing of a value of the method's return type (or is empty, for a
  void method), or ends in a thrown exception or a fault of the method itself: never in a dangling or
  null pointer.
\<close>

theorem server_well_typed:
  assumes "typed_codec (lb_msgpack lb) has_type" and "services_typed has_type classes F e"
    and "server_run lb (start_threads e) evs (Inr t)"
  shows "services_typed has_type classes F (shared t)
    \<and> (case compute_response lb r (shared t) of
        Inl f \<Rightarrow> f \<in> {Throws Bad_function_call, Throws Msgpack_error} \<union> F
      | Inr (x, e') \<Rightarrow> \<exists>cl. registered_methods (shared t) (req_method_name r) = Some (Some cl)
           \<and> response_fits (lb_msgpack lb) has_type (cl_method cl) (rsp_result x))"
proof -
  have "services_typed has_type classes F (shared t)"
    by (rule run_keeps_service [OF assms(3) refl])
      (use assms(2) in \<open>auto simp: start_threads_def intro: services_typed_same compute_typed [OF assms(1)]\<close>)
  with compute_response_typed [OF assms(1) this, of r] show ?thesis by (auto split: sum.splits)
qed

text \<open>The example server after its message of 20 + 22.\<close>

theorem server_well_typed_witness:
  "\<exists>t. (\<exists>evs. server_run wire_libs (start_threads example_executor) evs (Inr t))
    \<and> services_typed wire_has_type example_class {Signed_overflow} (shared t)
    \<and> writes_of (shared t) 0 = [frame Little_endian (3, wire_pack (WInt 42))]"
proof -
  obtain t where t: "stateless_run wire_libs example_executor [(0, 3, add_buffer)] t"
    "writes_of (shared t) 0 = [frame Little_endian (3, wire_pack (WInt 42))]"
    using answered_run by blast
  obtain evs where "server_run wire_libs (start_threads example_executor) evs (Inr t)"
    using stateless_run_is_run [OF t(1)] by blast
  moreover have "typed_codec (lb_msgpack wire_libs) wire_has_type"
    using wire_typed.typed_codec_axioms by (simp add: wire_libs_simps)
  ultimately show ?thesis
    using server_well_typed [OF _ example_services_typed] t(2) by blast
qed

end
