(* ===== verification/Data_Races.thy ===== *)
theory Data_Races
  imports Main "HOL-Library.Word"
begin

text \<open>
  What the mutexes of the library protect. Each operation that runs on several threads is the
  sequence of its lock operations and of its accesses to the shared maps, sockets and service
  objects, in the order of the source; a state is racy when two threads are about to access one
  location and one of them changes it. The other theories take such operations as one step.
\<close>

section \<open>Threads, mutexes and locations\<close>

datatype mutex = Submitter_mutex | Executor_mutex | Streams_mutex

datatype location =
    Cached_objects
  | Registered_methods
  | Streams_map
  | Created_services
  | Socket "64 word"
  | Service_object nat

datatype action = Acquire mutex | Release mutex | Load location | Store location

text \<open>What each thread still has to do, and the owner of each mutex.\<close>

type_synonym thread_pool = "action list list \<times> (mutex \<rightharpoonup> nat)"

fun accesses :: "action \<Rightarrow> location \<Rightarrow> bool" where
  "accesses (Load l') l = (l' = l)"
| "accesses (Store l') l = (l' = l)"
| "accesses _ l = False"

inductive pool_step :: "thread_pool \<Rightarrow> thread_pool \<Rightarrow> bool" where
  step_acquire: "i < length ps \<Longrightarrow> ps ! i = Acquire m # p \<Longrightarrow> locks m = None \<Longrightarrow>
    pool_step (ps, locks) (ps[i := p], locks(m \<mapsto> i))"
| step_release: "i < length ps \<Longrightarrow> ps ! i = Release m # p \<Longrightarrow> locks m = Some i \<Longrightarrow>
    pool_step (ps, locks) (ps[i := p], locks(m := None))"
| step_access: "i < length ps \<Longrightarrow> ps ! i = a # p \<Longrightarrow> accesses a l \<Longrightarrow>
    pool_step (ps, locks) (ps[i := p], locks)"

definition racy :: "location \<Rightarrow> thread_pool \<Rightarrow> bool" where
  "racy l s \<longleftrightarrow> (\<exists>i < length (fst s). \<exists>j < length (fst s). i \<noteq> j
     \<and> (\<exists>p q a. fst s ! i = Store l # p \<and> fst s ! j = a # q \<and> accesses a l))"

text \<open>A schedule runs the thread it names for one action; it stops where that is not possible.\<close>

fun run_action :: "nat \<Rightarrow> thread_pool \<Rightarrow> thread_pool option" where
  "run_action i (ps, locks) =
     (if i < length ps
      then (case ps ! i of
          [] \<Rightarrow> None
        | Acquire m # p \<Rightarrow> if locks m = None then Some (ps[i := p], locks(m \<mapsto> i)) else None
        | Release m # p \<Rightarrow> if locks m = Some i then Some (ps[i := p], locks(m := None)) else None
        | _ # p \<Rightarrow> Some (ps[i := p], locks))
      else None)"

fun run_schedule :: "nat list \<Rightarrow> thread_pool \<Rightarrow> thread_pool option" where
  "run_schedule [] s = Some s"
| "run_schedule (i # sched) s = (case run_action i s of None \<Rightarrow> None | Some s' \<Rightarrow> run_schedule sched s')"

lemma run_action_step: "run_action i s = Some s' \<Longrightarrow> pool_step s s'"
  by (cases s) (auto split: if_splits list.splits action.splits intro: step_acquire step_release
      step_access [where a = "Load _"] step_access [where a = "Store _"])

lemma run_schedule_steps: "run_schedule sched s = Some s' \<Longrightarrow> pool_step\<^sup>*\<^sup>* s s'"
  by (induction sched arbitrary: s)
    (auto split: option.splits intro: converse_rtranclp_into_rtranclp run_action_step)

fun conflict :: "location \<Rightarrow> action list \<Rightarrow> action list \<Rightarrow> bool" where
  "conflict l (Store l' # _) (a # _) = (l' = l \<and> accesses a l)"
| "conflict l _ _ = False"

lemma conflictE: "conflict l ps qs \<Longrightarrow> \<exists>p q a. ps = Store l # p \<and> qs = a # q \<and> accesses a l"
  by (cases "(l, ps, qs)" rule: conflict.cases) auto

lemma scheduled_race:
  assumes "case run_schedule sched s of None \<Rightarrow> False
    | Some s' \<Rightarrow> i < length (fst s') \<and> j < length (fst s') \<and> i \<noteq> j \<and> conflict l (fst s' ! i) (fst s' ! j)"
  shows "\<exists>s'. pool_step\<^sup>*\<^sup>* s s' \<and> racy l s'"
proof -
  obtain s' where run: "run_schedule sched s = Some s'"
    and i: "i < length (fst s')" "j < length (fst s')" "i \<noteq> j" "conflict l (fst s' ! i) (fst s' ! j)"
    using assms by (auto split: option.splits)
  have "racy l s'" unfolding racy_def using i conflictE [OF i(4)] by blast
  with run_schedule_steps [OF run] show ?thesis by blast
qed

section \<open>Locations that a mutex guards\<close>

text \<open>Every access of the thread to \<open>l\<close> happens while it holds \<open>m\<close>; \<open>held\<close> is whether it does now.\<close>

fun guarded :: "location \<Rightarrow> mutex \<Rightarrow> bool \<Rightarrow> action list \<Rightarrow> bool" where
  "guarded l m held [] = True"
| "guarded l m held (Acquire m' # p) = (if m' = m then \<not> held \<and> guarded l m True p else guarded l m held p)"
| "guarded l m held (Release m' # p) = (if m' = m then held \<and> guarded l m False p else guarded l m held p)"
| "guarded l m held (Load l' # p) = ((l' = l \<longrightarrow> held) \<and> guarded l m held p)"
| "guarded l m held (Store l' # p) = ((l' = l \<longrightarrow> held) \<and> guarded l m held p)"

definition all_guarded :: "location \<Rightarrow> mutex \<Rightarrow> thread_pool \<Rightarrow> bool" where
  "all_guarded l m s \<longleftrightarrow> (\<forall>i < length (fst s). guarded l m (snd s m = Some i) (fst s ! i))"

lemma guarded_access: "guarded l m held (a # p) \<Longrightarrow> accesses a l \<Longrightarrow> held"
  by (cases a) auto

lemma pool_step_guarded:
  assumes "pool_step s s'" and "all_guarded l m s"
  shows "all_guarded l m s'"
  using assms
proof (induction rule: pool_step.induct)
  case (step_acquire i ps m' p locks)
  then have "guarded l m (locks m = Some i) (Acquire m' # p)" by (auto simp: all_guarded_def)
  with step_acquire show ?case by (auto simp: all_guarded_def nth_list_update split: if_splits)
next
  case (step_release i ps m' p locks)
  then have "guarded l m (locks m = Some i) (Release m' # p)" by (auto simp: all_guarded_def)
  with step_release show ?case by (auto simp: all_guarded_def nth_list_update split: if_splits)
next
  case (step_access i ps a p l' locks)
  then have "guarded l m (locks m = Some i) (a # p)" by (auto simp: all_guarded_def)
  with step_access show ?case by (cases a) (auto simp: all_guarded_def nth_list_update split: if_splits)
qed

lemma guarded_not_racy:
  assumes "all_guarded l m s"
  shows "\<not> racy l s"
proof
  assume "racy l s"
  then obtain i j p q a where r: "i < length (fst s)" "j < length (fst s)" "i \<noteq> j"
    "fst s ! i = Store l # p" "fst s ! j = a # q" "accesses a l"
    by (auto simp: racy_def)
  with assms have "guarded l m (snd s m = Some i) (Store l # p)" "guarded l m (snd s m = Some j) (a # q)"
    unfolding all_guarded_def by metis+
  with r(6) have "snd s m = Some i" "snd s m = Some j" by (auto dest: guarded_access)
  with r(3) show False by simp
qed

text \<open>So it is enough to look at each thread's code alone.\<close>

lemma lockset_sound:
  assumes "pool_step\<^sup>*\<^sup>* (ps, \<lambda>_. None) s" and "list_all (guarded l m False) ps"
  shows "\<not> racy l s"
proof -
  have "all_guarded l m s"
    using assms(1)
  proof (induction rule: rtranclp_induct)
    case base
    then show ?case using assms(2) by (simp add: all_guarded_def list_all_length)
  qed (rule pool_step_guarded)
  then show ?thesis by (rule guarded_not_racy)
qed

text \<open>A thread that runs operations one after the other, each of which gives back what it took.\<close>

fun holds_after :: "mutex \<Rightarrow> bool \<Rightarrow> action list \<Rightarrow> bool" where
  "holds_after m held [] = held"
| "holds_after m held (Acquire m' # p) = holds_after m (if m' = m then True else held) p"
| "holds_after m held (Release m' # p) = holds_after m (if m' = m then False else held) p"
| "holds_after m held (_ # p) = holds_after m held p"

lemma guarded_append: "guarded l m held (p @ q) \<longleftrightarrow> guarded l m held p \<and> guarded l m (holds_after m held p) q"
  by (induction l m held p rule: guarded.induct) auto

lemma guarded_concat:
  assumes "\<And>p. p \<in> set ops \<Longrightarrow> guarded l m False p \<and> \<not> holds_after m False p"
  shows "guarded l m False (concat ops)"
  using assms by (induction ops) (auto simp: guarded_append)

section \<open>Threads that hold one mutex at a time\<close>

text \<open>\<open>h\<close> is the mutex the thread holds; at its end it holds none.\<close>

fun one_lock :: "mutex option \<Rightarrow> action list \<Rightarrow> bool" where
  "one_lock h [] = (h = None)"
| "one_lock h (Acquire m # p) = (h = None \<and> one_lock (Some m) p)"
| "one_lock h (Release m # p) = (h = Some m \<and> one_lock None p)"
| "one_lock h (_ # p) = one_lock h p"

definition locks_held :: "thread_pool \<Rightarrow> bool" where
  "locks_held s \<longleftrightarrow> (\<forall>i < length (fst s). \<exists>h. one_lock h (fst s ! i) \<and> (\<forall>m. snd s m = Some i \<longleftrightarrow> h = Some m))
     \<and> (\<forall>m i. snd s m = Some i \<longrightarrow> i < length (fst s))"

lemma locks_heldD:
  assumes "locks_held (ps, locks)" and "i < length ps"
  shows "\<exists>h. one_lock h (ps ! i) \<and> (\<forall>m. locks m = Some i \<longleftrightarrow> h = Some m)"
  using assms unfolding locks_held_def by auto

lemma locks_held_update:
  assumes "locks_held (ps, locks)" and "i < length ps" and "one_lock h p"
    and "\<And>m. locks' m = Some i \<longleftrightarrow> h = Some m" and "\<And>m j. j \<noteq> i \<Longrightarrow> locks' m = Some j \<longleftrightarrow> locks m = Some j"
  shows "locks_held (ps[i := p], locks')"
  unfolding locks_held_def fst_conv snd_conv
proof (intro conjI allI impI)
  fix j
  assume j: "j < length (ps[i := p])"
  show "\<exists>h. one_lock h (ps[i := p] ! j) \<and> (\<forall>m. locks' m = Some j \<longleftrightarrow> h = Some m)"
  proof (cases "j = i")
    case True
    with assms(2,3,4) show ?thesis by auto
  next
    case False
    obtain h' where "one_lock h' (ps ! j)" "\<And>m. locks m = Some j \<longleftrightarrow> h' = Some m"
      using locks_heldD [OF assms(1), of j] j by auto
    with False assms(5) show ?thesis by auto
  qed
next
  fix m j
  assume "locks' m = Some j"
  then show "j < length (ps[i := p])"
    using assms(1,2,5) by (cases "j = i") (auto simp: locks_held_def)
qed

lemma pool_step_locks_held:
  assumes "pool_step s s'" and "locks_held s"
  shows "locks_held s'"
  using assms
proof (induction rule: pool_step.induct)
  case (step_acquire i ps m p locks)
  obtain h where h: "one_lock h (ps ! i)" "\<And>m. locks m = Some i \<longleftrightarrow> h = Some m"
    using locks_heldD [OF step_acquire.prems step_acquire.hyps(1)] by blast
  show ?case
    by (rule locks_held_update [OF step_acquire.prems step_acquire.hyps(1), of "Some m"])
      (use h step_acquire.hyps in auto)
next
  case (step_release i ps m p locks)
  obtain h where h: "one_lock h (ps ! i)" "\<And>m. locks m = Some i \<longleftrightarrow> h = Some m"
    using locks_heldD [OF step_release.prems step_release.hyps(1)] by blast
  have "locks m \<noteq> Some j" if "j \<noteq> i" for j using step_release.hyps(3) that by simp
  with h step_release.hyps(1,2) show ?case
    by (intro locks_held_update [OF step_release.prems step_release.hyps(1), of None]) auto
next
  case (step_access i ps a p l locks)
  obtain h where h: "one_lock h (ps ! i)" "\<And>m. locks m = Some i \<longleftrightarrow> h = Some m"
    using locks_heldD [OF step_access.prems step_access.hyps(1)] by blast
  then have "one_lock h p" using step_access.hyps(2,3) by (cases a) auto
  with h show ?case
    by (intro locks_held_update [OF step_access.prems step_access.hyps(1)]) auto
qed

lemma holder_steps:
  assumes "j < length ps" and "one_lock (Some m) (ps ! j)" and "locks m = Some j"
  shows "\<exists>s'. pool_step (ps, locks) s'"
proof -
  obtain a p where p: "ps ! j = a # p" using assms(2) by (cases "ps ! j") auto
  show ?thesis
  proof (cases a)
    case (Release m')
    with assms(2) p have "ps ! j = Release m # p" by simp
    from step_release [of j ps m p locks, OF assms(1) this assms(3)] show ?thesis by blast
  next
    case (Load l)
    with step_access [OF assms(1) p, of l] show ?thesis by auto
  next
    case (Store l)
    with step_access [OF assms(1) p, of l] show ?thesis by auto
  qed (use assms(2) p in simp)
qed

lemma locks_held_progress:
  assumes "locks_held (ps, locks)" and "i < length ps" and "ps ! i \<noteq> []"
  shows "\<exists>s'. pool_step (ps, locks) s'"
proof -
  obtain h where h: "one_lock h (ps ! i)" "\<And>m. locks m = Some i \<longleftrightarrow> h = Some m"
    using locks_heldD [OF assms(1,2)] by blast
  obtain a p where p: "ps ! i = a # p" using assms(3) by (cases "ps ! i") auto
  consider m where "h = Some m" | m where "h = None" "a = Acquire m" | l where "a = Load l \<or> a = Store l"
    using h(1) p by (cases h; cases a) auto
  then show ?thesis
  proof cases
    case (1 m)
    with h holder_steps [OF assms(2), of m] show ?thesis by simp
  next
    case (2 m)
    show ?thesis
    proof (cases "locks m")
      case None
      with step_acquire [OF assms(2)] p 2 show ?thesis by blast
    next
      case (Some j)
      then have j: "j < length ps" using assms(1) by (auto simp: locks_held_def)
      obtain h' where "one_lock h' (ps ! j)" "\<And>m. locks m = Some j \<longleftrightarrow> h' = Some m"
        using locks_heldD [OF assms(1) j] by blast
      with holder_steps [of j ps m locks, OF j _ Some] Some show ?thesis by simp
    qed
  next
    case (3 l)
    with step_access [OF assms(2) p, of l locks] have "pool_step (ps, locks) (ps[i := p], locks)" by auto
    then show ?thesis by blast
  qed
qed

text \<open>Every step leaves less to do.\<close>

lemma pool_step_less: "pool_step s s' \<Longrightarrow> sum_list (map length (fst s')) < sum_list (map length (fst s))"
proof (induction rule: pool_step.induct)
  case (step_acquire i ps m p locks)
  then show ?case using sum_list_update [of i "map length ps" "length p"] elem_le_sum_list [of i "map length ps"]
    by (simp add: map_update)
next
  case (step_release i ps m p locks)
  then show ?case using sum_list_update [of i "map length ps" "length p"] elem_le_sum_list [of i "map length ps"]
    by (simp add: map_update)
next
  case (step_access i ps a p l locks)
  then show ?case using sum_list_update [of i "map length ps" "length p"] elem_le_sum_list [of i "map length ps"]
    by (simp add: map_update)
qed

lemma one_lock_append: "one_lock h p \<Longrightarrow> one_lock None q \<Longrightarrow> one_lock h (p @ q)"
  by (induction h p rule: one_lock.induct) auto

lemma one_lock_concat: "(\<And>p. p \<in> set ops \<Longrightarrow> one_lock None p) \<Longrightarrow> one_lock None (concat ops)"
  by (induction ops) (auto intro: one_lock_append)

section \<open>The operations of the executor\<close>

text \<open>
  A method's own accesses are those to its service object. \<^verbatim>\<open>registered_methods_[name]\<close> inserts a
  name that is not there.
\<close>

definition CreateService_actions :: "action list" where
  "CreateService_actions = [Store Created_services]"

definition RegisterMethod_actions :: "action list" where
  "RegisterMethod_actions = [Acquire Executor_mutex, Store Registered_methods, Release Executor_mutex]"

definition PerformRequest_actions :: "nat \<Rightarrow> bool \<Rightarrow> action list" where
  "PerformRequest_actions ob writes =
     [Acquire Executor_mutex, Store Registered_methods, Release Executor_mutex,
      if writes then Store (Service_object ob) else Load (Service_object ob)]"

text \<open>
  The handler of an accept registers the stream and starts its first read with the mutex held; a
  writer looks the stream up with the mutex held and writes to its socket without it, as the handlers
  of the reads use the socket: Boost.Asio leaves it to the program that no two threads use one socket.
\<close>

definition accept_actions :: "64 word \<Rightarrow> action list" where
  "accept_actions sid = [Acquire Streams_mutex, Store Streams_map, Store (Socket sid), Release Streams_mutex]"

definition read_actions :: "64 word \<Rightarrow> action list" where
  "read_actions sid = [Store (Socket sid)]"

definition write_response_actions :: "64 word \<Rightarrow> action list" where
  "write_response_actions sid =
     [Acquire Streams_mutex, Load Streams_map, Release Streams_mutex, Store (Socket sid)]"

datatype executor_op =
    Create_op
  | Register_op
  | Perform_op nat bool
  | Accept_op "64 word"
  | Read_op "64 word"
  | Respond_op "64 word"

fun op_actions :: "executor_op \<Rightarrow> action list" where
  "op_actions Create_op = CreateService_actions"
| "op_actions Register_op = RegisterMethod_actions"
| "op_actions (Perform_op ob writes) = PerformRequest_actions ob writes"
| "op_actions (Accept_op sid) = accept_actions sid"
| "op_actions (Read_op sid) = read_actions sid"
| "op_actions (Respond_op sid) = write_response_actions sid"

text \<open>Threads that each run any operations, before their first action.\<close>

definition executor_pool :: "executor_op list list \<Rightarrow> thread_pool" where
  "executor_pool ops = (map (\<lambda>ops. concat (map op_actions ops)) ops, \<lambda>_. None)"

lemmas op_actions_defs = CreateService_actions_def RegisterMethod_actions_def PerformRequest_actions_def
  accept_actions_def read_actions_def write_response_actions_def

lemma ops_guarded:
  "guarded Registered_methods Executor_mutex False (op_actions x) \<and> \<not> holds_after Executor_mutex False (op_actions x)"
  "guarded Streams_map Streams_mutex False (op_actions x) \<and> \<not> holds_after Streams_mutex False (op_actions x)"
  by (cases x; simp add: op_actions_defs)+

lemma ops_one_lock: "one_lock None (op_actions x)"
  by (cases x) (simp_all add: op_actions_defs)

lemma executor_pool_locks:
  assumes "pool_step\<^sup>*\<^sup>* (executor_pool ops) s"
  shows "locks_held s"
  using assms
proof (induction rule: rtranclp_induct)
  case base
  then show ?case by (auto simp: locks_held_def executor_pool_def intro!: one_lock_concat ops_one_lock)
qed (rule pool_step_locks_held)

section \<open>The operations of the client\<close>

text \<open>
  \<^verbatim>\<open>GetObject\<close> looks the object up with the mutex held in every round, and once more, for its value,
  without it. A response is put into the map with the mutex held.
\<close>

definition GetObject_round :: "action list" where
  "GetObject_round = [Acquire Submitter_mutex, Load Cached_objects, Release Submitter_mutex]"

definition GetObject_actions :: "nat \<Rightarrow> action list" where
  "GetObject_actions rounds = concat (replicate rounds GetObject_round) @ [Load Cached_objects]"

definition response_actions :: "action list" where
  "response_actions = [Acquire Submitter_mutex, Store Cached_objects, Release Submitter_mutex]"

text \<open>A call writes to the socket from the thread that makes it.\<close>

definition Submit_actions :: "action list" where
  "Submit_actions = [Store (Socket 0)]"

text \<open>A thread reads its response without the mutex while another is put into the map; two calls use one socket.\<close>

lemma client_races:
  "(\<exists>s. pool_step\<^sup>*\<^sup>* ([GetObject_actions 1, response_actions @ response_actions], \<lambda>_. None) s \<and> racy Cached_objects s)
    \<and> (\<exists>s. pool_step\<^sup>*\<^sup>* ([Submit_actions, Submit_actions], \<lambda>_. None) s \<and> racy (Socket 0) s)"
proof
  show "\<exists>s. pool_step\<^sup>*\<^sup>* ([GetObject_actions 1, response_actions @ response_actions], \<lambda>_. None) s \<and> racy Cached_objects s"
    by (rule scheduled_race [where sched = "[1, 1, 1, 0, 0, 0, 1]" and i = 1 and j = 0])
      (simp_all add: GetObject_actions_def GetObject_round_def response_actions_def)
  show "\<exists>s. pool_step\<^sup>*\<^sup>* ([Submit_actions, Submit_actions], \<lambda>_. None) s \<and> racy (Socket 0) s"
    by (rule scheduled_race [where sched = "[]" and i = 1 and j = 0]) (simp_all add: Submit_actions_def)
qed

lemma server_races:
  "(\<exists>s. pool_step\<^sup>*\<^sup>* (executor_pool [[Perform_op ob True], [Perform_op ob False]]) s \<and> racy (Service_object ob) s)
    \<and> (\<exists>s. pool_step\<^sup>*\<^sup>* (executor_pool [[Respond_op sid], [Respond_op sid]]) s \<and> racy (Socket sid) s)
    \<and> (\<exists>s. pool_step\<^sup>*\<^sup>* (executor_pool [[Respond_op sid], [Read_op sid]]) s \<and> racy (Socket sid) s)
    \<and> (\<exists>s. pool_step\<^sup>*\<^sup>* (executor_pool [[Create_op], [Create_op]]) s \<and> racy Created_services s)"
proof (intro conjI)
  show "\<exists>s. pool_step\<^sup>*\<^sup>* (executor_pool [[Perform_op ob True], [Perform_op ob False]]) s \<and> racy (Service_object ob) s"
    by (rule scheduled_race [where sched = "[0, 0, 0, 1, 1, 1]" and i = 0 and j = 1])
      (simp_all add: executor_pool_def op_actions_defs)
  show "\<exists>s. pool_step\<^sup>*\<^sup>* (executor_pool [[Respond_op sid], [Respond_op sid]]) s \<and> racy (Socket sid) s"
    by (rule scheduled_race [where sched = "[0, 0, 0, 1, 1, 1]" and i = 0 and j = 1])
      (simp_all add: executor_pool_def op_actions_defs)
  show "\<exists>s. pool_step\<^sup>*\<^sup>* (executor_pool [[Respond_op sid], [Read_op sid]]) s \<and> racy (Socket sid) s"
    by (rule scheduled_race [where sched = "[0, 0, 0]" and i = 0 and j = 1])
      (simp_all add: executor_pool_def op_actions_defs)
  show "\<exists>s. pool_step\<^sup>*\<^sup>* (executor_pool [[Create_op], [Create_op]]) s \<and> racy Created_services s"
    by (rule scheduled_race [where sched = "[]" and i = 0 and j = 1])
      (simp_all add: executor_pool_def op_actions_defs)
qed

section \<open>Properties\<close>

text \<open>
  C17: the executor's maps of methods and of streams are free of data races: however many threads run
  whatever operations, registration while requests are performed included, no state they can reach
  has two threads about to access one of the maps with one of them changing it.
\<close>

theorem executor_maps_race_free:
  assumes "pool_step\<^sup>*\<^sup>* (executor_pool ops) s"
  shows "\<not> racy Registered_methods s \<and> \<not> racy Streams_map s"
proof -
  have "list_all (guarded Registered_methods Executor_mutex False) (fst (executor_pool ops))"
    "list_all (guarded Streams_map Streams_mutex False) (fst (executor_pool ops))"
    using ops_guarded by (auto simp: executor_pool_def list_all_iff intro!: guarded_concat)
  then show ?thesis
    using lockset_sound [of "fst (executor_pool ops)" s] assms by (simp add: executor_pool_def)
qed

text \<open>A registration meets a request, which has to wait.\<close>

theorem executor_maps_race_free_witness:
  "\<exists>s. pool_step\<^sup>*\<^sup>* (executor_pool [[Register_op], [Perform_op 0 False], [Accept_op 3]]) s
    \<and> fst s ! 0 = [Store Registered_methods, Release Executor_mutex]
    \<and> \<not> racy Registered_methods s \<and> \<not> racy Streams_map s"
proof -
  let ?s = "([[Store Registered_methods, Release Executor_mutex], op_actions (Perform_op 0 False),
    op_actions (Accept_op 3)], [Executor_mutex \<mapsto> 0])"
  have "run_schedule [0] (executor_pool [[Register_op], [Perform_op 0 False], [Accept_op 3]]) = Some ?s"
    by (simp add: executor_pool_def op_actions_defs)
  then have "pool_step\<^sup>*\<^sup>* (executor_pool [[Register_op], [Perform_op 0 False], [Accept_op 3]]) ?s"
    by (rule run_schedule_steps)
  with executor_maps_race_free [OF this] show ?thesis by (intro exI [of _ ?s]) simp
qed

text \<open>
  C18: the executor's mutexes cannot block its threads for good: however many threads run whatever
  operations, in every state they can reach each thread has come to its end or some thread can
  go on; and they cannot go on for ever.
\<close>

theorem executor_never_deadlocks:
  assumes "pool_step\<^sup>*\<^sup>* (executor_pool ops) s"
  shows "(list_all (\<lambda>p. p = []) (fst s) \<or> (\<exists>s'. pool_step s s')) \<and> \<not> (\<exists>f. f 0 = s \<and> (\<forall>k. pool_step (f k) (f (Suc k))))"
proof
  show "list_all (\<lambda>p. p = []) (fst s) \<or> (\<exists>s'. pool_step s s')"
    using executor_pool_locks [OF assms] locks_held_progress [of "fst s" "snd s"]
    by (auto simp: list_all_length)
  show "\<not> (\<exists>f. f 0 = s \<and> (\<forall>k. pool_step (f k) (f (Suc k))))"
  proof
    assume "\<exists>f. f 0 = s \<and> (\<forall>k. pool_step (f k) (f (Suc k)))"
    then obtain f where "\<And>k. pool_step (f k) (f (Suc k))" by blast
    then have "\<forall>k. (f (Suc k), f k) \<in> measure (\<lambda>s. sum_list (map length (fst s)))" by (simp add: pool_step_less)
    then show False using wf_measure [of "\<lambda>s. sum_list (map length (fst s))"] unfolding wf_iff_no_infinite_down_chain by blast
  qed
qed

theorem executor_never_deadlocks_witness:
  "\<exists>s s'. pool_step\<^sup>*\<^sup>* (executor_pool [[Register_op], [Perform_op 0 False]]) s
    \<and> fst s ! 1 = Acquire Executor_mutex # tl (fst s ! 1) \<and> snd s Executor_mutex = Some 0 \<and> pool_step s s'"
proof -
  let ?s = "([[Store Registered_methods, Release Executor_mutex], op_actions (Perform_op 0 False)], [Executor_mutex \<mapsto> 0])"
  have "run_schedule [0] (executor_pool [[Register_op], [Perform_op 0 False]]) = Some ?s"
    by (simp add: executor_pool_def op_actions_defs)
  then have run: "pool_step\<^sup>*\<^sup>* (executor_pool [[Register_op], [Perform_op 0 False]]) ?s"
    by (rule run_schedule_steps)
  have "\<not> list_all (\<lambda>p. p = []) (fst ?s)" by simp
  with conjunct1 [OF executor_never_deadlocks [OF run]] obtain s' where "pool_step ?s s'" by blast
  with run show ?thesis
    by (intro exI [of _ ?s] exI [of _ s']) (simp add: op_actions_defs)
qed


end
