(* ===== verification/Nameof_Types.thy ===== *)
theory Nameof_Types
  imports Nameof
begin

text \<open>
  The rest of the bundled nameof library that is not about enumerations: the operations of its string
  class and \<^verbatim>\<open>NAMEOF_TYPE\<close>, by which \<^verbatim>\<open>RpcServer::CreateService\<close> names a service after its class. The
  name of a type is cut out of the text that the compiler gives for the function it is a parameter of;
  that text is an argument here. A constant expression that the compiler rejects is \<open>None\<close>.
\<close>

section \<open>Operations of the string class\<close>

definition cs_at :: "nat \<Rightarrow> cstring \<Rightarrow> char res" where
  "cs_at i c = (if i < cs_size c then Inr (cs_chars c ! i) else Inl Assert_failed)"

definition cs_front :: "cstring \<Rightarrow> char" where
  "cs_front c = cs_chars c ! 0"

text \<open>\<^verbatim>\<open>std::string_view::compare\<close>: the first difference of unsigned characters decides, then the length.\<close>

fun first_difference :: "nat list \<Rightarrow> nat list \<Rightarrow> int" where
  "first_difference [] [] = 0"
| "first_difference [] (d # ds) = -1"
| "first_difference (c # cs) [] = 1"
| "first_difference (c # cs) (d # ds) = (if c < d then -1 else if d < c then 1 else first_difference cs ds)"

definition sv_compare :: "string \<Rightarrow> string \<Rightarrow> int" where
  "sv_compare s t = first_difference (map of_char s) (map of_char t)"

definition cs_compare :: "cstring \<Rightarrow> string \<Rightarrow> int" where
  "cs_compare c str = sv_compare (take (cs_size c) (cs_chars c)) str"

definition cs_eq :: "cstring \<Rightarrow> string \<Rightarrow> bool" where "cs_eq lhs rhs = (cs_compare lhs rhs = 0)"
definition eq_cs :: "string \<Rightarrow> cstring \<Rightarrow> bool" where "eq_cs lhs rhs = (sv_compare lhs (cs_str rhs) = 0)"
definition cs_ne :: "cstring \<Rightarrow> string \<Rightarrow> bool" where "cs_ne lhs rhs = (cs_compare lhs rhs \<noteq> 0)"
definition ne_cs :: "string \<Rightarrow> cstring \<Rightarrow> bool" where "ne_cs lhs rhs = (sv_compare lhs (cs_str rhs) \<noteq> 0)"
definition cs_gt :: "cstring \<Rightarrow> string \<Rightarrow> bool" where "cs_gt lhs rhs = (cs_compare lhs rhs > 0)"
definition gt_cs :: "string \<Rightarrow> cstring \<Rightarrow> bool" where "gt_cs lhs rhs = (sv_compare lhs (cs_str rhs) > 0)"
definition cs_ge :: "cstring \<Rightarrow> string \<Rightarrow> bool" where "cs_ge lhs rhs = (cs_compare lhs rhs \<ge> 0)"
definition ge_cs :: "string \<Rightarrow> cstring \<Rightarrow> bool" where "ge_cs lhs rhs = (sv_compare lhs (cs_str rhs) \<ge> 0)"
definition cs_lt :: "cstring \<Rightarrow> string \<Rightarrow> bool" where "cs_lt lhs rhs = (cs_compare lhs rhs < 0)"
definition lt_cs :: "string \<Rightarrow> cstring \<Rightarrow> bool" where "lt_cs lhs rhs = (sv_compare lhs (cs_str rhs) < 0)"
definition cs_le :: "cstring \<Rightarrow> string \<Rightarrow> bool" where "cs_le lhs rhs = (cs_compare lhs rhs \<le> 0)"
definition le_cs :: "string \<Rightarrow> cstring \<Rightarrow> bool" where "le_cs lhs rhs = (sv_compare lhs (cs_str rhs) \<le> 0)"

text \<open>The macros that keep the template arguments, and the whole text.\<close>

definition NAMEOF_FULL :: "string \<Rightarrow> cstring" where
  "NAMEOF_FULL text = cstring (pretty_name text False)"

definition NAMEOF_RAW :: "string \<Rightarrow> cstring" where
  "NAMEOF_RAW text = cstring text"

text \<open>\<^verbatim>\<open>operator<<\<close> puts one character after the other.\<close>

fun cs_put :: "string \<Rightarrow> string \<Rightarrow> string" where
  "cs_put os [] = os"
| "cs_put os (c # srt) = cs_put (os @ [c]) srt"

section \<open>Names of types\<close>

datatype compiler = Clang | GCC | MSVC

text \<open>
  \<^verbatim>\<open>n<T>()\<close>: the part of \<^verbatim>\<open>__PRETTY_FUNCTION__\<close> or \<^verbatim>\<open>__FUNCSIG__\<close> between what comes before and after the
  type. \<^verbatim>\<open>sizeof\<close> counts the terminating null character.
\<close>

definition sub_view :: "nat \<Rightarrow> nat \<Rightarrow> string \<Rightarrow> string option" where
  "sub_view start around text =
     (if around < length text + 1 \<and> start + (length text + 1 - around) \<le> length text + 1
      then Some (take (length text + 1 - around) (drop start text)) else None)"

definition type_name :: "compiler \<Rightarrow> string \<Rightarrow> string option" where
  "type_name c text = (case c of
       Clang \<Rightarrow> sub_view 31 34 text
     | GCC \<Rightarrow> sub_view 46 49 text
     | MSVC \<Rightarrow> if length text + 1 < 19 then None
         else sub_view 63 (81 + (if text ! (length text + 1 - 19) = CHR '' '' then 1 else 0)) text)"

text \<open>A type as it is written in the macro: a name, qualified or referred to.\<close>

datatype written_type = Plain string | Const written_type | Volatile written_type | LRef written_type | RRef written_type

fun remove_reference :: "written_type \<Rightarrow> written_type" where
  "remove_reference (LRef t) = t"
| "remove_reference (RRef t) = t"
| "remove_reference t = t"

fun remove_cv :: "written_type \<Rightarrow> written_type" where
  "remove_cv (Const t) = remove_cv t"
| "remove_cv (Volatile t) = remove_cv t"
| "remove_cv t = t"

definition remove_cvref :: "written_type \<Rightarrow> written_type" where
  "remove_cvref t = remove_cv (remove_reference t)"

definition nameof_type :: "compiler \<Rightarrow> (written_type \<Rightarrow> string) \<Rightarrow> written_type \<Rightarrow> string option" where
  "nameof_type c signature t = (case type_name c (signature (remove_cvref t)) of
       None \<Rightarrow> None
     | Some name \<Rightarrow> if 0 < length name then Some name else None)"

definition nameof_full_type :: "compiler \<Rightarrow> (written_type \<Rightarrow> string) \<Rightarrow> written_type \<Rightarrow> string option" where
  "nameof_full_type c signature t = (case type_name c (signature t) of
       None \<Rightarrow> None
     | Some name \<Rightarrow> if 0 < length name then Some name else None)"

text \<open>The class test of \<^verbatim>\<open>tests/nameof_test.cc\<close>.\<close>

definition nameof_class_test :: "compiler \<Rightarrow> (written_type \<Rightarrow> string) \<Rightarrow> bool" where
  "nameof_class_test c signature =
     (case nameof_type c signature (Plain ''MyClass'') of None \<Rightarrow> False | Some class_name \<Rightarrow> class_name = ''MyClass'')"

section \<open>Lemmas\<close>

lemma first_difference_eq [simp]: "first_difference s t = 0 \<longleftrightarrow> s = t"
  by (induction s t rule: first_difference.induct) auto

lemma first_difference_swap: "first_difference t s = - first_difference s t"
  by (induction s t rule: first_difference.induct) auto

lemma first_difference_trans:
  "first_difference s t < 0 \<Longrightarrow> first_difference t u < 0 \<Longrightarrow> first_difference s u < 0"
proof (induction s t arbitrary: u rule: first_difference.induct)
  case (2 d ds)
  then show ?case by (cases u) auto
next
  case (4 c cs d ds)
  then obtain e es where u: "u = e # es" by (cases u) auto
  from 4(2,3) consider "c < d" "d < e" | "c < d" "d = e" | "c = d" "d < e" | "c = d" "d = e"
    "first_difference cs ds < 0" "first_difference ds es < 0"
    by (auto simp: u split: if_splits)
  then show ?case using 4(1) by cases (simp_all add: u)
qed auto

lemma sv_compare_eq [simp]: "sv_compare s t = 0 \<longleftrightarrow> s = t"
  by (auto simp: sv_compare_def dest: map_injective [OF _ inj_onI])

lemma less_linear_zero: "\<not> 0 < sv_compare s t \<Longrightarrow> s \<noteq> t \<Longrightarrow> sv_compare s t < 0"
  "\<not> sv_compare s t < 0 \<Longrightarrow> s \<noteq> t \<Longrightarrow> 0 < sv_compare s t"
  using sv_compare_eq [of s t] by linarith+

lemma sv_compare_self [simp]: "sv_compare s s = 0" by simp

lemmas sv_compare_swap = first_difference_swap [where t = "map of_char t" and s = "map of_char s" for s t, folded sv_compare_def]
lemmas sv_compare_trans = first_difference_trans [where s = "map of_char s" and t = "map of_char t" and u = "map of_char u" for s t u,
  folded sv_compare_def]

lemma cs_compare_cstring [simp]: "cs_compare (cstring s) t = sv_compare s t"
  by (simp add: cs_compare_def cstring_def)

lemma cs_put_appends [simp]: "cs_put os s = os @ s"
  by (induction s arbitrary: os) simp_all

text \<open>The operators agree: they are one linear order with the equality of the texts.\<close>

lemma cs_operators:
  "cs_eq (cstring s) t \<longleftrightarrow> s = t" "cs_ne (cstring s) t \<longleftrightarrow> s \<noteq> t"
  "cs_lt (cstring s) t \<longleftrightarrow> \<not> cs_ge (cstring s) t" "cs_gt (cstring s) t \<longleftrightarrow> \<not> cs_le (cstring s) t"
  "cs_le (cstring s) t \<longleftrightarrow> cs_lt (cstring s) t \<or> s = t"
  by (auto simp: cs_eq_def cs_ne_def cs_lt_def cs_gt_def cs_le_def cs_ge_def le_less dest: less_linear_zero)

lemma cs_order:
  "cs_lt (cstring s) t \<longleftrightarrow> cs_gt (cstring t) s"
  "cs_lt (cstring s) t \<Longrightarrow> cs_lt (cstring t) u \<Longrightarrow> cs_lt (cstring s) u"
  using sv_compare_swap [of t s] sv_compare_trans [of s t u] by (simp_all add: cs_lt_def cs_gt_def)

lemma string_view_operators:
  "lt_cs s (cstring t) = cs_lt (cstring s) t" "le_cs s (cstring t) = cs_le (cstring s) t"
  "gt_cs s (cstring t) = cs_gt (cstring s) t" "ge_cs s (cstring t) = cs_ge (cstring s) t"
  "eq_cs s (cstring t) = cs_eq (cstring s) t" "ne_cs s (cstring t) = cs_ne (cstring s) t"
  by (simp_all add: lt_cs_def le_cs_def gt_cs_def ge_cs_def eq_cs_def ne_cs_def
      cs_lt_def cs_gt_def cs_le_def cs_ge_def cs_eq_def cs_ne_def)

text \<open>A text with something before and after the type is cut to the type.\<close>

lemma sub_view_between:
  assumes "length pre = start" and "around = start + length post + 1" and "name \<noteq> []"
  shows "sub_view start around (pre @ name @ post) = Some name"
  using assms by (auto simp: sub_view_def)

lemma remove_cv_idem: "remove_cv (remove_cv t) = remove_cv t"
  by (induction t rule: remove_cv.induct) simp_all

text \<open>The texts that Clang and GCC give for \<^verbatim>\<open>n<T>\<close>, as they document \<^verbatim>\<open>__PRETTY_FUNCTION__\<close>.\<close>

definition pretty_function :: "compiler \<Rightarrow> string \<Rightarrow> string" where
  "pretty_function c name =
     (if c = Clang then ''auto nameof::detail::n() [T = <'' @ name @ ''>]''
      else ''constexpr auto nameof::detail::n() [with T = {'' @ name @ ''}]'')"

lemma nameof_type_pretty:
  assumes "c = Clang \<or> c = GCC" and "signature (Plain name) = pretty_function c name"
    and "name \<noteq> []" and "remove_cvref t = Plain name"
  shows "nameof_type c signature t = Some name"
proof -
  have "type_name c (pretty_function c name) = Some name"
    using assms(1,3) sub_view_between [of "''auto nameof::detail::n() [T = <''" 31 34 "''>]''" name]
      sub_view_between [of "''constexpr auto nameof::detail::n() [with T = {''" 46 49 "''}]''" name]
    by (auto simp: type_name_def pretty_function_def)
  with assms(2,3,4) show ?thesis by (simp add: nameof_type_def)
qed

lemma nameof_class_test_passes:
  assumes "c = Clang \<or> c = GCC" and "signature (Plain ''MyClass'') = pretty_function c ''MyClass''"
  shows "nameof_class_test c signature"
  using nameof_type_pretty [OF assms(1), of signature "''MyClass''" "Plain ''MyClass''"] assms(2)
  by (simp add: nameof_class_test_def remove_cvref_def)

section \<open>Properties\<close>

text \<open>
  A service is named after its class: with the texts of Clang and of GCC, \<^verbatim>\<open>NAMEOF_TYPE\<close> of a
  class, however qualified, is the name the compiler prints for the class, with its namespace.
\<close>

theorem nameof_type_of_class:
  assumes "c = Clang \<or> c = GCC" and "signature (Plain name) = pretty_function c name"
    and "name \<noteq> []" and "remove_cvref t = Plain name"
  shows "nameof_type c signature t = Some name"
  using assms by (rule nameof_type_pretty)

theorem nameof_type_of_class_witness:
  "nameof_type GCC (\<lambda>t. case t of Plain name \<Rightarrow> pretty_function GCC name | _ \<Rightarrow> []) (LRef (Const (Plain ''dousi::Echoer''))) =
    Some ''dousi::Echoer''"
  by (rule nameof_type_of_class) (simp_all add: remove_cvref_def)

end
