(* ===== verification/Nameof_Enum.thy ===== *)
theory Nameof_Enum
  imports Nameof_Types
begin

unbundle bit_operations_syntax

text \<open>
  Enumerations in the bundled nameof library: the reflection that tries every value of a range, asks the
  compiler for the text of each, and builds the tables by which \<^verbatim>\<open>nameof_enum\<close> and
  \<^verbatim>\<open>nameof_enum_flags\<close> find a name. An enumeration is its underlying type, its range and the
  compiler's texts. Values are integers in the range of the underlying type; pointers have 8 bytes.
\<close>

section \<open>An enumeration\<close>

record enum_type =
  en_signed :: bool
  en_width :: nat
  en_min :: int
  en_max :: int
  en_compiler :: compiler
  en_signature :: "int \<Rightarrow> string"

text \<open>\<^verbatim>\<open>std::numeric_limits\<close> of the underlying type, and \<^verbatim>\<open>static_cast\<close> to it.\<close>

definition u_digits :: "enum_type \<Rightarrow> nat" where
  "u_digits E = (if en_signed E then en_width E - 1 else en_width E)"

definition u_min :: "enum_type \<Rightarrow> int" where
  "u_min E = (if en_signed E then - (2 ^ (en_width E - 1)) else 0)"

definition u_max :: "enum_type \<Rightarrow> int" where
  "u_max E = 2 ^ u_digits E - 1"

definition u_cast :: "enum_type \<Rightarrow> int \<Rightarrow> int" where
  "u_cast E x = (if en_signed E then signed_take_bit (en_width E - 1) x else take_bit (en_width E) x)"

text \<open>Comparison of integers of two types: signedness and width of each, and the values.\<close>

definition cmp_less :: "bool \<Rightarrow> nat \<Rightarrow> int \<Rightarrow> bool \<Rightarrow> nat \<Rightarrow> int \<Rightarrow> bool" where
  "cmp_less signed_l width_l lhs signed_r width_r rhs =
     (if signed_l = signed_r then lhs < rhs
      else if signed_r then rhs > 0 \<and> lhs < take_bit width_r rhs
      else lhs < 0 \<or> take_bit width_l lhs < rhs)"

function log2 :: "int \<Rightarrow> int" where
  "log2 v = (if v > 1 then 1 + log2 (v div 2) else 0)"
  by pat_completeness auto
termination by (relation "measure nat") auto

declare log2.simps [simp del]

section \<open>The tables\<close>

text \<open>The name of a value, empty when it has none.\<close>

definition enum_n :: "enum_type \<Rightarrow> int \<Rightarrow> string" where
  "enum_n E v = (let text = en_signature E v in
     pretty_name (take (length text + 1 - (if en_compiler E = MSVC then 17 else 2)) text) True)"

definition is_valid :: "enum_type \<Rightarrow> int \<Rightarrow> bool" where
  "is_valid E v = (length (enum_n E v) \<noteq> 0)"

definition reflected_min :: "enum_type \<Rightarrow> bool \<Rightarrow> int" where
  "reflected_min E flags =
     (if flags then 0
      else let lhs = en_min E; rhs = u_min E
        in if cmp_less True 32 lhs (en_signed E) (en_width E) rhs then rhs else lhs)"

definition reflected_max :: "enum_type \<Rightarrow> bool \<Rightarrow> int" where
  "reflected_max E flags =
     (if flags then int (u_digits E) - 1
      else let lhs = en_max E; rhs = u_max E
        in if cmp_less True 32 lhs (en_signed E) (en_width E) rhs then lhs else rhs)"

definition enum_value :: "enum_type \<Rightarrow> int \<Rightarrow> bool \<Rightarrow> nat \<Rightarrow> int" where
  "enum_value E offset flags i = u_cast E (if flags then 2 ^ nat (int i + offset) else int i + offset)"

definition enum_values :: "enum_type \<Rightarrow> bool \<Rightarrow> int list" where
  "enum_values E flags = filter (is_valid E)
     (map (enum_value E (reflected_min E flags) flags)
       [0..<nat (reflected_max E flags - reflected_min E flags + 1)])"

definition enum_count :: "enum_type \<Rightarrow> bool \<Rightarrow> nat" where
  "enum_count E flags = length (enum_values E flags)"

definition min_v :: "enum_type \<Rightarrow> bool \<Rightarrow> int" where
  "min_v E flags = hd (enum_values E flags)"

definition max_v :: "enum_type \<Rightarrow> bool \<Rightarrow> int" where
  "max_v E flags = last (enum_values E flags)"

definition table_min :: "enum_type \<Rightarrow> bool \<Rightarrow> int" where
  "table_min E flags = (if flags then log2 (min_v E flags) else min_v E flags)"

definition range_size :: "enum_type \<Rightarrow> bool \<Rightarrow> nat" where
  "range_size E flags =
     nat ((if flags then log2 (max_v E flags) else max_v E flags) - table_min E flags + 1)"

text \<open>\<^verbatim>\<open>index_t\<close> by its largest value, and the size of an index.\<close>

definition invalid_index :: "enum_type \<Rightarrow> bool \<Rightarrow> nat" where
  "invalid_index E flags = (if range_size E flags < 255 then 255 else 65535)"

definition index_size :: "enum_type \<Rightarrow> bool \<Rightarrow> nat" where
  "index_size E flags = (if range_size E flags < 255 then 1 else 2)"

fun number_valid :: "nat \<Rightarrow> nat \<Rightarrow> bool list \<Rightarrow> nat list" where
  "number_valid invalid i [] = []"
| "number_valid invalid i (b # bs) =
     (if b then i # number_valid invalid ((i + 1) mod (invalid + 1)) bs else invalid # number_valid invalid i bs)"

definition enum_indexes :: "enum_type \<Rightarrow> bool \<Rightarrow> nat list" where
  "enum_indexes E flags = number_valid (invalid_index E flags) 0
     (map (\<lambda>i. is_valid E (enum_value E (table_min E flags) flags i)) [0..<range_size E flags])"

definition is_sparse :: "enum_type \<Rightarrow> bool \<Rightarrow> bool" where
  "is_sparse E flags =
     (if flags then 8 * range_size E flags > (en_width E div 8) * enum_count E flags + 8 * enum_count E flags
      else 8 * range_size E flags > index_size E False * range_size E flags + 8 * enum_count E flags)"

definition get_value :: "enum_type \<Rightarrow> bool \<Rightarrow> nat \<Rightarrow> int" where
  "get_value E flags i =
     (if is_sparse E flags then enum_values E flags ! i else enum_value E (table_min E flags) flags i)"

text \<open>The table of names: \<open>None\<close> is the null pointer of an empty view.\<close>

definition enum_string :: "enum_type \<Rightarrow> int \<Rightarrow> string option" where
  "enum_string E v = (if is_valid E v then Some (cs_str (cstring (enum_n E v))) else None)"

definition table_size :: "enum_type \<Rightarrow> bool \<Rightarrow> nat" where
  "table_size E flags = (if is_sparse E flags then enum_count E flags else range_size E flags)"

definition enum_strings :: "enum_type \<Rightarrow> bool \<Rightarrow> string option list" where
  "enum_strings E flags = map (\<lambda>i. enum_string E (get_value E flags i)) [0..<table_size E flags]"

section \<open>The lookups\<close>

text \<open>A \<^verbatim>\<open>std::string_view\<close> made of a character pointer.\<close>

definition view_of :: "string option \<Rightarrow> string res" where
  "view_of p = (case p of None \<Rightarrow> Inl Null_deref | Some s \<Rightarrow> Inr s)"

text \<open>The difference is computed before the bounds are checked; for \<^verbatim>\<open>int\<close> it may overflow.\<close>

definition difference :: "enum_type \<Rightarrow> int \<Rightarrow> int \<Rightarrow> int res" where
  "difference E v m =
     (if en_signed E \<and> en_width E = 32 \<and> \<not> (- (2 ^ 31) \<le> v - m \<and> v - m < 2 ^ 31)
      then Inl Signed_overflow else Inr (v - m))"

definition nameof_enum :: "enum_type \<Rightarrow> int \<Rightarrow> string res" where
  "nameof_enum E v =
     res_bind (difference E v (min_v E False)) (\<lambda>i.
       if min_v E False \<le> v \<and> v \<le> max_v E False then
         if is_sparse E False then
           (let idx = enum_indexes E False ! nat i
            in if idx \<noteq> invalid_index E False then view_of (enum_strings E False ! idx) else Inr [])
         else view_of (enum_strings E False ! nat i)
       else Inr [])"

fun flag_names :: "enum_type \<Rightarrow> int \<Rightarrow> nat list \<Rightarrow> int \<Rightarrow> string \<Rightarrow> (int \<times> string) option" where
  "flag_names E value [] check name = Some (check, name)"
| "flag_names E value (i # sched) check name =
     (if value AND get_value E True i \<noteq> 0 then
        (case enum_strings E True ! i of
           None \<Rightarrow> None
         | Some n \<Rightarrow> flag_names E value sched (check OR get_value E True i)
             ((if name \<noteq> [] then name @ ''|'' else name) @ n))
      else flag_names E value sched check name)"

definition nameof_enum_flags :: "enum_type \<Rightarrow> int \<Rightarrow> string" where
  "nameof_enum_flags E value = (case flag_names E value [0..<table_size E True] 0 [] of
       None \<Rightarrow> []
     | Some (check, name) \<Rightarrow> if check \<noteq> 0 \<and> check = value then name else [])"

text \<open>\<^verbatim>\<open>nameof_enum<V>()\<close> does not compile for a value without a name.\<close>

definition nameof_const_enum :: "enum_type \<Rightarrow> int \<Rightarrow> string option" where
  "nameof_const_enum E v = (if 0 < length (enum_n E v) then Some (enum_n E v) else None)"

section \<open>Lemmas\<close>

text \<open>\<^verbatim>\<open>cmp_less\<close> compares the numbers, whatever their types.\<close>

lemma cmp_less_exact:
  assumes "if signed_l then - (2 ^ (width_l - 1)) \<le> lhs \<and> lhs < 2 ^ (width_l - 1) else 0 \<le> lhs \<and> lhs < 2 ^ width_l"
    and "if signed_r then - (2 ^ (width_r - 1)) \<le> rhs \<and> rhs < 2 ^ (width_r - 1) else 0 \<le> rhs \<and> rhs < 2 ^ width_r"
  shows "cmp_less signed_l width_l lhs signed_r width_r rhs \<longleftrightarrow> lhs < rhs"
proof -
  have fits: "take_bit w x = x" if "0 \<le> x" "x < 2 ^ (w - 1)" for w and x :: int
    using that power_increasing [of "w - 1" w "2 :: int"] by (intro take_bit_int_eq_self) linarith+
  show ?thesis
    using assms fits [of lhs width_l] fits [of rhs width_r]
    by (cases "0 \<le> lhs"; cases "0 < rhs") (auto simp: cmp_less_def split: if_splits)
qed

lemma log2_power [simp]: "log2 (2 ^ k) = int k"
proof (induction k)
  case (Suc k)
  have "1 < (2 :: int) ^ Suc k" by (rule one_less_power) simp_all
  then show ?case using Suc.IH log2.simps [of "2 ^ Suc k"] by simp
qed (simp add: log2.simps [of 1])

text \<open>An enumeration that compiles: the range and its size are 16-bit integers and some value has a name.\<close>

definition enum_ok :: "enum_type \<Rightarrow> bool" where
  "enum_ok E \<longleftrightarrow> 8 \<le> en_width E \<and> - 32768 < en_min E \<and> en_max E < 32767 \<and> en_min E < en_max E
     \<and> enum_values E False \<noteq> []"

lemma u_bounds: "8 \<le> en_width E \<Longrightarrow> u_min E \<le> 0 \<and> 127 \<le> u_max E"
proof -
  assume "8 \<le> en_width E"
  then have "7 \<le> u_digits E" by (auto simp: u_digits_def)
  from power_increasing [OF this, of "2 :: int"] show ?thesis by (simp add: u_min_def u_max_def)
qed

lemma u_cast_id:
  assumes "8 \<le> en_width E" and "u_min E \<le> x" and "x \<le> u_max E"
  shows "u_cast E x = x"
  using assms
  by (auto simp: u_cast_def u_min_def u_max_def u_digits_def signed_take_bit_int_eq_self_iff take_bit_int_eq_self_iff)

lemma reflected_bounds:
  assumes "8 \<le> en_width E" and "- 32768 < en_min E" and "en_max E < 32767" and "en_min E < en_max E"
  shows "reflected_min E False = max (en_min E) (u_min E)" and "reflected_max E False = min (en_max E) (u_max E)"
proof -
  have u: "if en_signed E then - (2 ^ (en_width E - 1)) \<le> x \<and> x < 2 ^ (en_width E - 1) else 0 \<le> x \<and> x < 2 ^ en_width E"
    if "x = u_min E \<or> x = u_max E" for x :: int
    using that by (auto simp: u_min_def u_max_def u_digits_def)
  have "cmp_less True 32 (en_min E) (en_signed E) (en_width E) (u_min E) \<longleftrightarrow> en_min E < u_min E"
    "cmp_less True 32 (en_max E) (en_signed E) (en_width E) (u_max E) \<longleftrightarrow> en_max E < u_max E"
    using assms u [of "u_min E"] u [of "u_max E"] by (auto intro!: cmp_less_exact)
  then show "reflected_min E False = max (en_min E) (u_min E)" "reflected_max E False = min (en_max E) (u_max E)"
    by (simp_all add: reflected_min_def reflected_max_def Let_def)
qed

lemma upto_map: "map (\<lambda>i. int i + a) [0..<nat (b - a + 1)] = [a..b]"
  by (rule nth_equalityI) (simp_all add: nth_upto)

lemma enum_values_upto:
  assumes "8 \<le> en_width E" and "- 32768 < en_min E" and "en_max E < 32767" and "en_min E < en_max E"
  shows "enum_values E False = filter (is_valid E) [reflected_min E False..reflected_max E False]"
proof -
  let ?a = "reflected_min E False" and ?b = "reflected_max E False"
  have "enum_value E ?a False i = int i + ?a" if "i < nat (?b - ?a + 1)" for i
    using that assms u_bounds [OF assms(1)] reflected_bounds [OF assms]
    by (auto simp: enum_value_def intro!: u_cast_id)
  then have "map (enum_value E ?a False) [0..<nat (?b - ?a + 1)] = map (\<lambda>i. int i + ?a) [0..<nat (?b - ?a + 1)]"
    by (intro map_cong) auto
  then show ?thesis unfolding enum_values_def by (simp only: upto_map)
qed

text \<open>The named values of an interval, from the first to the last.\<close>

lemma filter_upto_ends:
  fixes a b :: int
  assumes "filter P [a..b] \<noteq> []"
  defines "mn \<equiv> hd (filter P [a..b])" and "mx \<equiv> last (filter P [a..b])"
  shows "P mn" and "P mx" and "a \<le> mn" and "mn \<le> mx" and "mx \<le> b" and "filter P [mn..mx] = filter P [a..b]"
proof -
  let ?l = "filter P [a..b]"
  have sorted: "sorted ?l" by (simp add: sorted_wrt_filter)
  have "mn \<in> set ?l" unfolding mn_def by (rule hd_in_set [OF assms(1)])
  moreover have "mx \<in> set ?l" unfolding mx_def by (rule last_in_set [OF assms(1)])
  ultimately show "P mn" "P mx" and bounds: "a \<le> mn" "mx \<le> b" by auto
  have within: "mn \<le> x \<and> x \<le> mx" if x: "x \<in> set ?l" for x
  proof -
    obtain i where "i < length ?l" "x = ?l ! i" using x unfolding in_set_conv_nth by blast
    then show ?thesis
      using sorted_nth_mono [OF sorted, of 0 i] sorted_nth_mono [OF sorted, of i "length ?l - 1"] assms(1)
      by (simp add: mn_def mx_def hd_conv_nth last_conv_nth)
  qed
  show le: "mn \<le> mx" using within [OF last_in_set [OF assms(1)]] by (simp add: mx_def)
  have "[a..b] = [a..mn - 1] @ [mn..mx] @ [mx + 1..b]"
    using bounds le by (simp add: upto_split1 [of a mn b] upto_split2 [of mn mx b])
  moreover have outside: "\<not> P x" if "x < mn \<or> mx < x" "a \<le> x" "x \<le> b" for x
    using within [of x] that by auto
  then have "filter P [a..mn - 1] = []" "filter P [mx + 1..b] = []"
    using bounds le by (simp_all add: filter_empty_conv)
  ultimately show "filter P [mn..mx] = ?l" by simp
qed

lemma number_valid_nth:
  assumes "k < length xs" and "i + length (filter P xs) \<le> invalid"
  shows "number_valid invalid i (map P xs) ! k = (if P (xs ! k) then i + length (filter P (take k xs)) else invalid)"
  using assms
proof (induction xs arbitrary: i k)
  case (Cons x xs)
  show ?case
  proof (cases "P x")
    case True
    with Cons.prems(2) have "(i + 1) mod (invalid + 1) = i + 1" by simp
    with True Cons show ?thesis by (cases k) auto
  next
    case False
    with Cons show ?thesis by (cases k) auto
  qed
qed simp

lemma filter_position:
  assumes "k < length xs" and "P (xs ! k)"
  shows "length (filter P (take k xs)) < length (filter P xs) \<and> filter P xs ! length (filter P (take k xs)) = xs ! k"
proof -
  have "filter P xs = filter P (take k xs) @ xs ! k # filter P (drop (Suc k) xs)"
    using arg_cong [OF id_take_nth_drop [OF assms(1)], of "filter P"] assms(2) by simp
  then show ?thesis by simp
qed

text \<open>What the lookup finds, for each value.\<close>

lemma enum_table:
  assumes "enum_ok E"
  defines "mn \<equiv> min_v E False" and "mx \<equiv> max_v E False"
  shows "enum_values E False = filter (is_valid E) [mn..mx]" and "is_valid E mn" and "is_valid E mx" and "mn \<le> mx"
    and "reflected_min E False \<le> mn" and "mx \<le> reflected_max E False"
    and "range_size E False = nat (mx - mn + 1)" and "range_size E False < 65535"
    and "\<And>i. i < range_size E False \<Longrightarrow> enum_value E mn False i = [mn..mx] ! i"
proof -
  have E: "8 \<le> en_width E" "- 32768 < en_min E" "en_max E < 32767" "en_min E < en_max E"
    and some: "enum_values E False \<noteq> []"
    using assms(1) by (simp_all add: enum_ok_def)
  note listed = enum_values_upto [OF E]
  note ends = filter_upto_ends [OF some [unfolded listed]]
  have mn: "mn = hd (filter (is_valid E) [reflected_min E False..reflected_max E False])"
    "mx = last (filter (is_valid E) [reflected_min E False..reflected_max E False])"
    by (simp_all add: mn_def mx_def min_v_def max_v_def listed)
  show "enum_values E False = filter (is_valid E) [mn..mx]" "is_valid E mn" "is_valid E mx"
    and le: "mn \<le> mx" "reflected_min E False \<le> mn" "mx \<le> reflected_max E False"
    unfolding listed mn by (simp_all only: ends)
  note bounds = reflected_bounds [OF E] u_bounds [OF E(1)]
  show size: "range_size E False = nat (mx - mn + 1)"
    by (simp add: range_size_def table_min_def mn_def mx_def)
  have "mx - mn + 1 < 65535" using le E(2,3) bounds by linarith
  then show "range_size E False < 65535" using le by (simp add: size nat_less_iff)
  show "enum_value E mn False i = [mn..mx] ! i" if "i < range_size E False" for i
  proof -
    have "u_cast E (int i + mn) = int i + mn"
      using that le bounds E(1) by (intro u_cast_id) (auto simp: size)
    with that show ?thesis by (simp add: enum_value_def size nth_upto)
  qed
qed

lemma nameof_enum_in_range:
  assumes "enum_ok E" and "min_v E False \<le> v" and "v \<le> max_v E False"
  shows "nameof_enum E v = res_bind (difference E v (min_v E False)) (\<lambda>_.
    if is_valid E v then Inr (enum_n E v) else if is_sparse E False then Inr [] else Inl Null_deref)"
proof -
  let ?mn = "min_v E False" and ?mx = "max_v E False"
  let ?xs = "[?mn..?mx]" and ?k = "nat (v - ?mn)"
  note table = enum_table [OF assms(1)]
  have k: "?k < length ?xs" "?xs ! ?k = v" "?k < range_size E False"
    using assms(2,3) by (simp_all add: table(7) nth_upto)
  have size: "range_size E False = length ?xs" by (simp add: table(7))
  have "map (\<lambda>i. is_valid E (enum_value E ?mn False i)) [0..<range_size E False] = map (is_valid E) ?xs"
    by (rule nth_equalityI) (simp_all add: size table(9))
  then have indexes: "enum_indexes E False = number_valid (invalid_index E False) 0 (map (is_valid E) ?xs)"
    by (simp add: enum_indexes_def table_min_def)
  have count: "enum_count E False = length (filter (is_valid E) ?xs)" by (simp add: enum_count_def table(1))
  have small: "length (filter (is_valid E) ?xs) \<le> invalid_index E False"
    using length_filter_le [of "is_valid E" ?xs] table(8) size by (simp add: invalid_index_def)
  have idx: "enum_indexes E False ! ?k =
      (if is_valid E v then length (filter (is_valid E) (take ?k ?xs)) else invalid_index E False)"
    using number_valid_nth [OF k(1), of 0 "is_valid E" "invalid_index E False"] small
    by (simp only: indexes k(2) add_0)
  have named: "enum_strings E False ! (length (filter (is_valid E) (take ?k ?xs))) = Some (enum_n E v)
    \<and> length (filter (is_valid E) (take ?k ?xs)) \<noteq> invalid_index E False"
    if "is_sparse E False" "is_valid E v"
  proof -
    from filter_position [of ?k ?xs "is_valid E"] k that(2)
    have "length (filter (is_valid E) (take ?k ?xs)) < enum_count E False"
      "enum_values E False ! length (filter (is_valid E) (take ?k ?xs)) = v"
      by (simp_all add: count table(1))
    then show ?thesis
      using that small by (simp add: enum_strings_def table_size_def get_value_def enum_string_def count)
  qed
  have dense: "enum_strings E False ! ?k = enum_string E v" if "\<not> is_sparse E False"
    using that k table(9) by (simp add: enum_strings_def table_size_def get_value_def table_min_def)
  have i: "difference E v ?mn = Inl Signed_overflow \<or> difference E v ?mn = Inr (v - ?mn)"
    by (simp add: difference_def)
  show ?thesis
  proof (cases "is_sparse E False")
    case True
    then show ?thesis using i assms(2,3) idx named by (auto simp: nameof_enum_def Let_def view_of_def)
  next
    case False
    then show ?thesis using i assms(2,3) dense by (auto simp: nameof_enum_def view_of_def enum_string_def)
  qed
qed

section \<open>Flags\<close>

text \<open>The bits whose flag has a name, and the text that is built from names.\<close>

definition flag_bits :: "enum_type \<Rightarrow> nat list" where
  "flag_bits E = filter (\<lambda>j. is_valid E (2 ^ j)) [0..<u_digits E]"

fun join :: "string list \<Rightarrow> string" where
  "join [] = []"
| "join [n] = n"
| "join (n # ns) = n @ ''|'' @ join ns"

fun or_all :: "int list \<Rightarrow> int" where
  "or_all [] = 0"
| "or_all (x # xs) = x OR or_all xs"

lemma bit_or_all: "bit (or_all (map (\<lambda>j. 2 ^ j) js)) n \<longleftrightarrow> n \<in> set js"
  by (induction js) (auto simp: bit_simps)

lemma and_power_zero: "v AND 2 ^ j \<noteq> 0 \<longleftrightarrow> bit v j" for v :: int
  by (simp add: and_exp_eq_0_iff_not_bit)

definition add_names :: "string \<Rightarrow> string list \<Rightarrow> string" where
  "add_names name ns = (if name = [] then join ns else if ns = [] then name else name @ ''|'' @ join ns)"

lemma add_names_Nil [simp]: "add_names name [] = name" "add_names [] ns = join ns"
  by (simp_all add: add_names_def)

lemma add_names_step:
  "n \<noteq> [] \<Longrightarrow> add_names ((if name \<noteq> [] then name @ ''|'' else name) @ n) ns = add_names name (n # ns)"
  by (cases ns) (simp_all add: add_names_def)

lemma flag_names_run:
  assumes "\<forall>i \<in> set sched. get_value E True i = 2 ^ p i \<and> enum_strings E True ! i = enum_string E (2 ^ p i)"
  shows "flag_names E v sched check name =
    (if \<exists>i \<in> set sched. bit v (p i) \<and> \<not> is_valid E (2 ^ p i) then None
     else Some (check OR or_all (map (\<lambda>i. 2 ^ p i) (filter (\<lambda>i. bit v (p i)) sched)),
       add_names name (map (\<lambda>i. enum_n E (2 ^ p i)) (filter (\<lambda>i. bit v (p i)) sched))))"
  using assms
proof (induction sched arbitrary: check name)
  case (Cons i sched)
  have step: "get_value E True i = 2 ^ p i" "enum_strings E True ! i = enum_string E (2 ^ p i)"
    using Cons.prems by simp_all
  have rest: "\<forall>i \<in> set sched. get_value E True i = 2 ^ p i \<and> enum_strings E True ! i = enum_string E (2 ^ p i)"
    using Cons.prems by simp
  show ?case
  proof (cases "bit v (p i) \<and> is_valid E (2 ^ p i)")
    case True
    moreover from True have "enum_n E (2 ^ p i) \<noteq> []" by (simp add: is_valid_def)
    ultimately show ?thesis
      by (simp only: flag_names.simps step and_power_zero enum_string_def Cons.IH [OF rest] add_names_step
          cs_str_cstring if_True simp_thms option.case list.map filter.simps or_all.simps or.assoc)
        (simp add: or.assoc)
  next
    case False
    then show ?thesis by (auto simp: step and_power_zero enum_string_def Cons.IH [OF rest])
  qed
qed simp

lemma filter_upt_ends:
  assumes "filter P [0..<d] \<noteq> []"
  defines "lo \<equiv> hd (filter P [0..<d])" and "hi \<equiv> last (filter P [0..<d])"
  shows "lo \<le> hi" and "hi < d" and "filter P [lo..<Suc hi] = filter P [0..<d]"
proof -
  let ?l = "filter P [0..<d]"
  have sorted: "sorted ?l" by (simp add: sorted_wrt_filter)
  have within: "lo \<le> x \<and> x \<le> hi" if x: "x \<in> set ?l" for x
  proof -
    obtain i where "i < length ?l" "x = ?l ! i" using x unfolding in_set_conv_nth by blast
    then show ?thesis
      using sorted_nth_mono [OF sorted, of 0 i] sorted_nth_mono [OF sorted, of i "length ?l - 1"] assms(1)
      by (simp add: lo_def hi_def hd_conv_nth last_conv_nth)
  qed
  have ends: "lo \<in> set ?l" "hi \<in> set ?l"
    unfolding lo_def hi_def by (rule hd_in_set [OF assms(1)], rule last_in_set [OF assms(1)])
  then show le: "lo \<le> hi" "hi < d" using within by auto
  have "[0..<d] = [0..<lo] @ [lo..<Suc hi] @ [Suc hi..<d]"
    using le upt_add_eq_append [of 0 lo "d - lo"] upt_add_eq_append [of lo "Suc hi" "d - Suc hi"] by simp
  moreover have outside: "\<not> P x" if "x < lo \<or> hi < x" "x < d" for x
    using within [of x] that by auto
  then have "filter P [0..<lo] = []" "filter P [Suc hi..<d] = []"
    using le by (simp_all add: filter_empty_conv)
  ultimately show "filter P [lo..<Suc hi] = ?l" by simp
qed

text \<open>The table of the flags: which bit each entry is for.\<close>

lemma flag_table:
  assumes "8 \<le> en_width E" and "flag_bits E \<noteq> []"
  defines "lo \<equiv> hd (flag_bits E)" and "hi \<equiv> last (flag_bits E)"
  defines "js \<equiv> if is_sparse E True then flag_bits E else [lo..<Suc hi]"
  shows "table_size E True = length js"
    and "\<And>i. i < length js \<Longrightarrow> get_value E True i = 2 ^ (js ! i) \<and> enum_strings E True ! i = enum_string E (2 ^ (js ! i))"
    and "set (flag_bits E) \<subseteq> set js" and "\<forall>j \<in> set js. j < u_digits E"
    and "filter (\<lambda>j. is_valid E (2 ^ j)) js = flag_bits E"
proof -
  note ends = filter_upt_ends [OF assms(2) [unfolded flag_bits_def], folded flag_bits_def, folded lo_def hi_def]
  have power: "u_cast E (2 ^ j) = 2 ^ j" if "j < u_digits E" for j
  proof (rule u_cast_id)
    have "(2 :: int) ^ j < 2 ^ u_digits E" using that by (rule power_strict_increasing) simp
    then show "2 ^ j \<le> u_max E" by (simp add: u_max_def)
    have "(0 :: int) \<le> 2 ^ j" by simp
    then show "u_min E \<le> 2 ^ j" using u_bounds [OF assms(1)] by linarith
  qed (rule assms(1))
  have tried: "map (enum_value E 0 True) [0..<u_digits E] = map (\<lambda>j. 2 ^ j) [0..<u_digits E]"
    by (simp add: enum_value_def power)
  have "enum_values E True = filter (is_valid E) (map (enum_value E 0 True) [0..<u_digits E])"
    by (simp add: enum_values_def reflected_min_def reflected_max_def)
  then have listed: "enum_values E True = map (\<lambda>j. 2 ^ j) (flag_bits E)"
    unfolding tried by (simp add: flag_bits_def filter_map comp_def)
  have table_min: "table_min E True = int lo" and size: "range_size E True = Suc hi - lo"
    using assms(2) ends(1)
    by (simp_all add: table_min_def range_size_def min_v_def max_v_def listed hd_map last_map lo_def hi_def)
  show "table_size E True = length js"
    using ends(1) by (simp add: table_size_def js_def size enum_count_def listed Suc_diff_le)
  then show "get_value E True i = 2 ^ (js ! i) \<and> enum_strings E True ! i = enum_string E (2 ^ (js ! i))"
    if "i < length js" for i
    using that ends(2)
    by (auto simp: js_def get_value_def listed enum_strings_def enum_value_def table_min power nat_add_distrib
        add.commute simp del: upt_Suc split: if_splits)
  show bits: "filter (\<lambda>j. is_valid E (2 ^ j)) js = flag_bits E"
  proof (cases "is_sparse E True")
    case True
    then show ?thesis by (simp add: js_def flag_bits_def)
  next
    case False
    then show ?thesis using ends(3) by (simp only: js_def if_False)
  qed
  show "set (flag_bits E) \<subseteq> set js" unfolding bits [symmetric] by auto
  show "\<forall>j \<in> set js. j < u_digits E" using ends(2) by (auto simp: js_def flag_bits_def)
qed

section \<open>Properties\<close>

text \<open>
  C39: what \<^verbatim>\<open>nameof_enum\<close> gives for each value of an enumeration that compiles. A value with a name
  in the range that is tried gives its name. A value without one gives the empty text, as its comment
  says, outside the named values and where the table is sparse; between the named values of a
  dense table it makes a string view of a null pointer. For \<^verbatim>\<open>int\<close> the difference to the first
  named value may overflow before the bounds are checked.
\<close>

theorem nameof_enum_value:
  assumes "enum_ok E"
  shows "nameof_enum E v =
    (if en_signed E \<and> en_width E = 32 \<and> \<not> (- (2 ^ 31) \<le> v - min_v E False \<and> v - min_v E False < 2 ^ 31)
     then Inl Signed_overflow
     else if is_valid E v \<and> reflected_min E False \<le> v \<and> v \<le> reflected_max E False then Inr (enum_n E v)
     else if \<not> is_sparse E False \<and> min_v E False < v \<and> v < max_v E False then Inl Null_deref
     else Inr [])"
proof (cases "min_v E False \<le> v \<and> v \<le> max_v E False")
  case True
  with nameof_enum_in_range [OF assms, of v] enum_table(2,3,5,6) [OF assms] show ?thesis
    by (auto simp: difference_def less_le)
next
  case False
  have "v \<in> set (enum_values E False)" if "is_valid E v" "reflected_min E False \<le> v" "v \<le> reflected_max E False"
    using that enum_values_upto [of E] assms by (simp add: enum_ok_def)
  with False enum_table(1) [OF assms] show ?thesis by (auto simp: nameof_enum_def difference_def)
qed

text \<open>An enumeration of seven colours on \<^verbatim>\<open>int\<close>, 0 to 7 without 3, tried from -1 to 10, as GCC prints it.\<close>

definition colours :: enum_type where
  "colours = \<lparr>en_signed = True, en_width = 32, en_min = -1, en_max = 10, en_compiler = GCC,
     en_signature = (\<lambda>v. ''with V = '' @
       (case map_of [(0, ''red''), (1, ''green''), (2, ''blue''), (4, ''cyan''), (5, ''pink''), (6, ''grey''), (7, ''gold'')] v of
          Some name \<Rightarrow> name | None \<Rightarrow> ''(Colour)9'') @ '']'')\<rparr>"

lemma colours_values: "enum_values colours False = [0, 1, 2, 4, 5, 6, 7]"
  by code_simp

text \<open>The fourth colour has its name; the value 3, which no comment allows for, is read through a null pointer.\<close>

theorem nameof_enum_value_witness:
  "nameof_enum colours 4 = Inr ''cyan'' \<and> nameof_enum colours 3 = Inl Null_deref \<and> nameof_enum colours 8 = Inr []"
proof -
  have ok: "enum_ok colours" by (simp add: enum_ok_def colours_values) (simp add: colours_def)
  have "min_v colours False = 0" "max_v colours False = 7" by (simp_all add: min_v_def max_v_def colours_values)
  moreover from this have "range_size colours False = 8" by (simp add: range_size_def table_min_def)
  then have "\<not> is_sparse colours False"
    by (simp add: is_sparse_def index_size_def enum_count_def colours_values)
  moreover have "is_valid colours 4" "\<not> is_valid colours 3" "\<not> is_valid colours 8"
    "enum_n colours 4 = ''cyan''" "reflected_min colours False = -1" "reflected_max colours False = 10"
    by code_simp+
  ultimately show ?thesis by (simp add: nameof_enum_value [OF ok])
qed

text \<open>
  C40: \<^verbatim>\<open>nameof_enum_flags\<close> names a combination of flags: when every bit of the value is a flag that has a
  name, the result is their names from the lowest bit up, joined by bars; otherwise, and for 0, it
  is empty, whether the table is sparse or dense.
\<close>

theorem nameof_enum_flags_value:
  assumes "8 \<le> en_width E" and "flag_bits E \<noteq> []"
  shows "nameof_enum_flags E v =
    (if \<forall>j. bit v j \<longrightarrow> j \<in> set (flag_bits E)
     then join (map (\<lambda>j. enum_n E (2 ^ j)) (filter (bit v) (flag_bits E))) else [])"
proof -
  define js where "js = (if is_sparse E True then flag_bits E else [hd (flag_bits E)..<Suc (last (flag_bits E))])"
  note table = flag_table [OF assms, folded js_def]
  have run: "flag_names E v [0..<length js] 0 [] =
      (if \<exists>j \<in> set js. bit v j \<and> \<not> is_valid E (2 ^ j) then None
       else Some (or_all (map (\<lambda>j. 2 ^ j) (filter (bit v) js)), join (map (\<lambda>j. enum_n E (2 ^ j)) (filter (bit v) js))))"
  proof -
    have js: "map ((!) js) [0..<length js] = js" by (rule map_nth)
    have images: "map f (filter (\<lambda>i. bit v (js ! i)) [0..<length js]) = map g (filter (bit v) js)"
      if "\<And>i. f i = g (js ! i)" for f :: "nat \<Rightarrow> 'x" and g
      by (subst (2) js [symmetric]) (simp add: filter_map comp_def that)
    have ex: "(\<exists>i \<in> set [0..<length js]. bit v (js ! i) \<and> \<not> is_valid E (2 ^ (js ! i))) \<longleftrightarrow>
        (\<exists>j \<in> set js. bit v j \<and> \<not> is_valid E (2 ^ j))"
    proof -
      have "set js = (!) js ` set [0..<length js]" by (metis js set_map)
      then show ?thesis by (simp only: bex_simps)
    qed
    have "flag_names E v [0..<length js] 0 [] =
      (if \<exists>i \<in> set [0..<length js]. bit v (js ! i) \<and> \<not> is_valid E (2 ^ (js ! i)) then None
       else Some (0 OR or_all (map (\<lambda>i. 2 ^ (js ! i)) (filter (\<lambda>i. bit v (js ! i)) [0..<length js])),
         add_names [] (map (\<lambda>i. enum_n E (2 ^ (js ! i))) (filter (\<lambda>i. bit v (js ! i)) [0..<length js]))))"
      by (rule flag_names_run) (use table(2) in simp)
    then show ?thesis
      unfolding ex images [of "\<lambda>i. 2 ^ (js ! i)" "\<lambda>j. (2 :: int) ^ j", OF refl]
        images [of "\<lambda>i. enum_n E (2 ^ (js ! i))" "\<lambda>j. enum_n E (2 ^ j)", OF refl]
      by simp
  qed
  show ?thesis
  proof (cases "\<exists>j \<in> set js. bit v j \<and> \<not> is_valid E (2 ^ j)")
    case True
    then have "\<not> (\<forall>j. bit v j \<longrightarrow> j \<in> set (flag_bits E))" by (auto simp: flag_bits_def)
    moreover have "nameof_enum_flags E v = []" using True by (simp add: nameof_enum_flags_def table(1) run)
    ultimately show ?thesis by (subst if_not_P)
  next
    case False
    then have same: "filter (bit v) js = filter (bit v) (flag_bits E)"
      unfolding table(5) [symmetric] filter_filter by (intro filter_cong) auto
    have all: "or_all (map (\<lambda>j. 2 ^ j) (filter (bit v) js)) = v \<longleftrightarrow> (\<forall>j. bit v j \<longrightarrow> j \<in> set (flag_bits E))"
      unfolding same by (auto simp: bit_eq_iff [of _ v] bit_or_all)
    have "join (map (\<lambda>j. enum_n E (2 ^ j)) (filter (bit v) (flag_bits E))) = []" if "v = 0"
      using that by simp
    with False all same show ?thesis by (auto simp: nameof_enum_flags_def table(1) run)
  qed
qed

text \<open>Permissions on \<^verbatim>\<open>unsigned char\<close>: 1, 2 and 4.\<close>

definition permissions :: enum_type where
  "permissions = \<lparr>en_signed = False, en_width = 8, en_min = -128, en_max = 128, en_compiler = GCC,
     en_signature = (\<lambda>v. ''with V = '' @
       (case map_of [(1, ''read''), (2, ''write''), (4, ''exec'')] v of Some name \<Rightarrow> name | None \<Rightarrow> ''(Perm)9'') @ '']'')\<rparr>"

theorem nameof_enum_flags_value_witness:
  "nameof_enum_flags permissions 5 = ''read|exec'' \<and> nameof_enum_flags permissions 9 = []"
proof -
  have bits: "flag_bits permissions = [0, 1, 2]" and names: "enum_n permissions 1 = ''read''" "enum_n permissions 4 = ''exec''"
    by code_simp+
  have "bit (5 :: int) j \<longleftrightarrow> j = 0 \<or> j = 2" "bit (9 :: int) j \<longleftrightarrow> j = 0 \<or> j = 3" for j
    by (auto simp: bit_numeral_rec bit_1_iff split: nat.splits)
  then have "(\<forall>j. bit (5 :: int) j \<longrightarrow> j \<in> set (flag_bits permissions))" "\<not> (\<forall>j. bit (9 :: int) j \<longrightarrow> j \<in> set (flag_bits permissions))"
    by (auto simp: bits)
  then show ?thesis
    using nameof_enum_flags_value [of permissions] bits names by (simp add: permissions_def)
qed

end
