(* ===== verification/Spec2Isabelle.thy ===== *)
theory Spec2Isabelle
  imports Call_Order Java_Calls Benchmark_Clients Test_Programs Clients_Answered Server_Types Data_Races Nameof_Enum
begin

text \<open>
  \<^bold>\<open>dousi\<close> is a remote procedure call library in C++ (\<^verbatim>\<open>src/src/dousi\<close>). A server program makes
  an \<^verbatim>\<open>RpcServer\<close>, creates services in it and registers their methods with \<^verbatim>\<open>Remote(&Class::method)\<close>;
  a client program makes an \<^verbatim>\<open>RpcClient\<close>, gets a \<^verbatim>\<open>ServiceHandle\<close> and calls methods on it, each call
  giving a \<^verbatim>\<open>DousiFuture\<close>. This development models the library and proves what a caller may rely on,
  and where the code does something else than it seems to.

  \<^bold>\<open>The path of a call.\<close> \<^verbatim>\<open>ServiceHandle::Call\<close> packs the service's name, the method's name and the
  arguments into one MessagePack tuple, takes an object id from the \<^verbatim>\<open>Submitter\<close> and writes id, size
  and tuple to an \<^verbatim>\<open>AsioStream\<close>. On the server an event loop of the \<^verbatim>\<open>IOThreadPool\<close> reads the message
  and calls \<^verbatim>\<open>Executor::InvokeMethod\<close>, which queues a request (or performs it, without workers); a
  worker looks the method up by name, unpacks the tuple by the method's type, calls the method on
  the service object and queues a response; a writer writes it to the stream the request came
  from. The client's stream reads it, the submitter caches its body under the id it carries, and
  the future's \<^verbatim>\<open>Get\<close>, which polls the cache, decodes it.

  \<^bold>\<open>The theories\<close>, each with the code it models:

  \<^item> \<open>Dousi_Prelude\<close>: bytes and words, faults and the result type \<open>'a res\<close> (\<open>Inl\<close> a fault, \<open>Inr\<close> a
    value), the polling loop \<open>poll\<close> (an option: \<open>None\<close> is a loop without end).
  \<^item> \<open>Endpoint\<close>: \<^verbatim>\<open>common/endpoint\<close>, with what it uses of \<^verbatim>\<open>std::string\<close> and \<^verbatim>\<open>std::stoi\<close>.
  \<^item> \<open>Logging\<close>: \<^verbatim>\<open>common/logging\<close>: the static state, the log line objects and the macros.
  \<^item> \<open>Host_Bytes\<close>, \<open>Asio_Stream\<close>: \<^verbatim>\<open>core/stream\<close>: the reader as a state machine of outstanding reads
    and completion handlers, the writer as writes in progress that the system advances in pieces.
  \<^item> \<open>Concurrent_Queues\<close>: \<^verbatim>\<open>core/common/*queue.h\<close>; \<open>IO_Thread_Pool\<close>: \<^verbatim>\<open>io_thread_pool.h\<close>, \<^verbatim>\<open>options.h\<close>.
  \<^item> \<open>Nameof\<close>: the part of \<^verbatim>\<open>nameof.hpp\<close> behind \<^verbatim>\<open>NAMEOF\<close>, and \<^verbatim>\<open>remote_annotation.h\<close>; \<open>Nameof_Types\<close>: the
    operations of its string class and \<^verbatim>\<open>NAMEOF_TYPE\<close>; \<open>Nameof_Enum\<close>: the tables of names of an enumeration and the
    lookups in them.
  \<^item> \<open>Invocation\<close>: \<^verbatim>\<open>function_traits.h\<close>, \<^verbatim>\<open>tuple_traits.h\<close>, \<^verbatim>\<open>msgpack_utils.h\<close>; \<open>Msgpack_Wire\<close>: a codec
    on which the laws assumed of MessagePack hold.
  \<^item> \<open>Executor\<close>: \<^verbatim>\<open>core/executor\<close>, every method a function on the executor's record;
    \<open>Executor_Calls\<close>: what one message does; \<open>Executor_Threads\<close>: the threads as a step relation.
  \<^item> \<open>Rpc_Server\<close>: \<^verbatim>\<open>rpc_server.h\<close>; \<open>Basic_Services\<close>: the example's and the tests' services and servers.
  \<^item> \<open>Submitter\<close>: \<^verbatim>\<open>core/submitter\<close> and \<^verbatim>\<open>rpc_client.h\<close>; \<open>Client_Calls\<close>: calls, futures, responses;
    \<open>Native_Client\<close>: the client class of the Java binding, \<^verbatim>\<open>jni/native_java_client.h\<close>.
  \<^item> \<open>Jni_Binding\<close>: \<^verbatim>\<open>jni/org_dousi_client_NativeRpcClient.cc\<close>, its globals, conversions and native methods;
    \<open>Java_World\<close>: a virtual machine on which the laws assumed of the interface hold; \<open>Java_Calls\<close>: what a
    Java program gets.
  \<^item> \<open>Rpc_System\<close>: one call from the handle to the future, through both streams and the server;
    \<open>Call_Order\<close>: two calls of one connection; \<open>Server_Safety\<close>: runs of the server that end in no fault.
  \<^item> \<open>Client_Session\<close>: a client that waits for each answer, with \<^verbatim>\<open>examples/client.cc\<close>; \<open>Stateless_Runs\<close>: what the
    server writes in runs of calls that change nothing; \<open>Pipelined_Calls\<close>: a client that does not wait, with
    the calls of \<^verbatim>\<open>tests/multiple_calls_with_no_wait.cc\<close>.
  \<^item> \<open>Sequential_Order\<close>: runs of calls that change their objects, against a server that performs one call after
    the other; \<open>Sequential_Clients\<close>: any number of clients against one program that makes all their calls;
    \<open>Clients_Answered\<close>: that they are answered; \<open>Server_Types\<close>: what runs keep of the methods' types; \<open>Client_Network\<close>: a future while segments
    of the connection arrive or it is lost; \<open>Data_Races\<close>: the operations as sequences of lock operations and accesses.
  \<^item> \<open>Executor_Lifetime\<close>: the threads' loops as functions, the event loop of \<^verbatim>\<open>Loop\<close> and the executor's destructor;
    \<open>Benchmarks\<close>, \<open>Benchmark_Clients\<close>: \<^verbatim>\<open>benchmarks/single_node\<close>, a counter and its reporting thread as a step
    relation, with the service, the server and the clients; \<open>Timers\<close>: \<^verbatim>\<open>common/utils.h\<close>; \<open>Test_Programs\<close>: the
    programs under \<^verbatim>\<open>tests\<close>.

  \<^bold>\<open>How state and operations correspond.\<close> A class is a record of its fields, a constructor a
  function that makes it, a method a function that takes it and returns it changed. Integers keep
  their widths as words, so overflow and narrowing are those of the code; an exception, a broken
  assertion or undefined behaviour is a fault. A completion handler is a function of the error
  flag and the buffer it is given; the loops of threads are steps of a relation, one step for
  a queue operation, a method call, a read or a piece of a write, in any order. A worker's lookup and call of
  the method are one step, since no thread changes the map, and its push of the response is another. Without workers
  \<^verbatim>\<open>InvokeMethod\<close> does both in one step; the options always ask for four. Names are the
  code's, with the class's name in front where two classes or a library constant have the same.

  \<^bold>\<open>Interfaces.\<close> The locales are the contracts between parts: \<open>concurrent_queue\<close> (interpreted on
  \<^verbatim>\<open>StdLockedQueue\<close>), \<open>boost_queue\<close> and \<open>growing_boost_queue\<close> (the documented behaviour of the Boost
  queue, interpreted on the repository's other queue), \<open>msgpack_codec\<close> (the laws the code relies
  on, interpreted on \<open>Msgpack_Wire\<close>) and \<open>typed_codec\<close>, which extends it by the check of types, \<open>jni_laws\<close> (the Java Native Interface, interpreted on \<open>Java_World\<close>), \<open>executor_queues\<close> (what the threads need of the two queues).
  Code outside the repository enters as parameters: MessagePack, the Boost queue, the Java Native Interface, the resolver and
  the connection, spdlog's making of a logger and its log calls, the byte order of the host.

  \<^bold>\<open>What the theorems show.\<close>

  \<^item> End to end: a remote call returns what the local call returns (C1); so does a session of
    calls that waits for each answer (C6), such as the example's (\<open>example_client_prints\<close>),
    and calls made without waiting, if they leave the objects unchanged (C5); calls of any
    number of clients that change the objects are those of one program, in some order (C3), and all are
    answered in finitely many steps (C4);
    the future of a void call always throws (C27).
  \<^item> Streams: the reader refines a parser of frames (C10), frames survive every segmentation (C2),
    prefixes give prefixes (\<open>partial_bytes_partial_messages\<close>), one write at a time arrives whole (C22), overlapping writes need
    not (C16); sizes are truncated (\<open>oversized_message_truncated\<close>) and the byte order is the host's (\<open>byte_order_mismatch\<close>); an error ends
    the reading (\<open>read_error_is_final\<close>).
  \<^item> Server: a message is the local call and one response (C9); calls are neither lost nor
    duplicated under any interleaving (C8), the calls behave as if performed one after the other (C7), each connection is sent its own results
    (\<open>responses_match_messages\<close>), types are kept (C11), the threads finish what there is to do (C12), the
    writers always find their stream (C23); services do not share state (C26), but share the
    names of their methods (C25); calls may overtake each other (C24); good
    messages never end the server (C13), a bad message ends the server (C33), and the test server calls
    dead services (\<open>test_server_dangles\<close>); connections and event loops are numbered and taken in turn (\<open>connections_numbered\<close>, \<open>io_services_round_robin\<close>).
  \<^item> Client: calls are numbered (C15), a future gets its own response (\<open>future_gets_own_response\<close>), however the
    network cuts it (C14), and keeps it (\<open>get_memoised\<close>), until ids outgrow 32 bits
    (C20) or the connection is lost (C21); construction (\<open>client_connects\<close>), the Java client without a callback (\<open>java_without_callback_throws\<close>).
  \<^item> Mutexes: the executor's maps are free of data races (C17) and its threads of deadlocks
    (C18), but sockets, service objects and the client's \<^verbatim>\<open>Get\<close> are not protected
    (C19).
  \<^item> Lifetime: the executor's destructor never returns (C28), its loop spins after
    \<^verbatim>\<open>Shutdown\<close> (C29); the client keeps every
    response (\<open>client_cache_grows\<close>).
  \<^item> Benchmarks and tests: every call is counted once (C30) and reported once
    (\<open>qps_reports_every_call\<close>), the reporting thread can be ended (\<open>qps_thread_ends\<close>), but its reset is
    undefined (\<open>qps_reset_undefined\<close>); the clients never end (\<open>benchmark_clients_never_end\<close>); the basic test calls
    a dead service (C31) and would pass on a living one (\<open>basic_call_test_in_order\<close>), the logging and the queue test pass (\<open>logging_test_passes\<close>,
    \<open>queue_test_passes\<close>), the latter leaving a dangling timer (\<open>queue_test_timer_dangles\<close>).
  \<^item> Java: calls and answers (C36), the global that redirects answers
    (C37), the undefined destruction (\<open>nativeDestroy_undefined\<close>).
  \<^item> Queues, endpoints, logging, names, types: C32, C34, \<open>boost_WaitAndPop_polls\<close>; C35, \<open>endpoint_port_wraps\<close>, \<open>server_listens_on_any_host\<close>; C38, \<open>failed_start_crashes_next_line\<close>;
    \<open>Remote_drops_class\<close>, \<open>pretty_name_identifier\<close>, \<open>nameof_type_of_class\<close>; names of enumerators, with a
    null pointer for a value without one (C39), and of flags (C40); \<open>wire_types_are_values\<close>.

  \<^bold>\<open>Bounds and fuel.\<close> No definition uses fuel. The read loop and the frame parser terminate by a measure;
  the polling loops are partial functions whose non-termination is a value. The connection ids
  of the step relation stay below 2 to the 64, which no server reaches; sizes of tuples and bodies are
  bounded by 2 to the 32 where a theorem says so, because the formats have 32-bit lengths.

  \<^bold>\<open>What is not modelled.\<close> Log lines that only inform (the log itself is modelled); memory exhaustion;
  the weak memory a data race exposes (\<open>Data_Races\<close> shows where races are, elsewhere a call is one step); sleeps; of the nameof library the
  naming by run-time type information and the iterators (the texts the compiler gives are parameters); the distributed programs, whose Processor class is not in
  the repository; what tests print.
\<close>

end
